(* ===== verification/Auth_Prelude.thy ===== *)
theory Auth_Prelude
  imports Main "HOL-Library.Word"
begin

text \<open>
  Prelude of the development: the types that every component shares (instants, UUIDs, machine
  integers), the state-and-error monad that the handlers are written in, and the rules that carry
  invariants through it.

  A Rust function \<open>async fn f(...) -> Result<A, E>\<close> that acts on a state \<open>'s\<close> is a function
  \<open>'s \<Rightarrow> ('e + 'a) \<times> 's\<close>: an error is a value, and the state is returned in both cases because
  an early return does not undo what was done before it.
  \<open>bindE\<close> is the operator \<open>?\<close> followed by the rest of the function.
\<close>

section \<open>Shared types\<close>

text \<open>Instants and durations are whole microseconds (the resolution of TIMESTAMPTZ).\<close>

type_synonym instant = int
type_synonym duration = int
type_synonym uuid = "128 word"
type_synonym u32 = "32 word"
type_synonym u64 = "64 word"

definition secs :: "int \<Rightarrow> duration" where
  "secs n = n * 1000000"

text \<open>\<open>DateTime::timestamp\<close>: whole seconds since the epoch, rounded towards minus infinity.\<close>

definition timestamp :: "instant \<Rightarrow> int" where
  "timestamp t = t div 1000000"

lemma timestamp_add_secs [simp]: "timestamp (t + secs n) = timestamp t + n"
  by (simp add: timestamp_def secs_def)

lemma secs_mono_iff [simp]: "secs m \<le> secs n \<longleftrightarrow> m \<le> n"
  by (simp add: secs_def)

lemma secs_pos_iff [simp]: "0 < secs n \<longleftrightarrow> 0 < n"
  by (simp add: secs_def)

section \<open>The state-and-error monad\<close>

type_synonym ('s, 'e, 'a) io = "'s \<Rightarrow> ('e + 'a) \<times> 's"

definition okE :: "'a \<Rightarrow> ('s, 'e, 'a) io" where
  "okE a = (\<lambda>s. (Inr a, s))"

definition errE :: "'e \<Rightarrow> ('s, 'e, 'a) io" where
  "errE e = (\<lambda>s. (Inl e, s))"

definition bindE :: "('s, 'e, 'a) io \<Rightarrow> ('a \<Rightarrow> ('s, 'e, 'b) io) \<Rightarrow> ('s, 'e, 'b) io" where
  "bindE m f = (\<lambda>s. case m s of (Inl e, s') \<Rightarrow> (Inl e, s') | (Inr a, s') \<Rightarrow> f a s')"

text \<open>\<open>map_err\<close>, and the conversion that \<open>?\<close> makes through \<open>From\<close>.\<close>

definition mapErrE :: "('e \<Rightarrow> 'f) \<Rightarrow> ('s, 'e, 'a) io \<Rightarrow> ('s, 'f, 'a) io" where
  "mapErrE f m = (\<lambda>s. case m s of (Inl e, s') \<Rightarrow> (Inl (f e), s') | (Inr a, s') \<Rightarrow> (Inr a, s'))"

text \<open>A pure \<open>Result\<close>, and \<open>Option::ok_or\<close>.\<close>

definition liftE :: "('e + 'a) \<Rightarrow> ('s, 'e, 'a) io" where
  "liftE r = (\<lambda>s. (r, s))"

definition ok_orE :: "'e \<Rightarrow> 'a option \<Rightarrow> ('s, 'e, 'a) io" where
  "ok_orE e x = (case x of None \<Rightarrow> errE e | Some a \<Rightarrow> okE a)"

text \<open>A \<open>match\<close> on the result of a call: the error is handed on as a value.\<close>

definition attemptE :: "('s, 'e, 'a) io \<Rightarrow> ('s, 'f, 'e + 'a) io" where
  "attemptE m = (\<lambda>s. case m s of (r, s') \<Rightarrow> (Inr r, s'))"

lemma okE_eq [simp]: "okE a s = (Inr a, s)"
  by (simp add: okE_def)

lemma errE_eq [simp]: "errE e s = (Inl e, s)"
  by (simp add: errE_def)

lemma liftE_eq [simp]: "liftE r s = (r, s)"
  by (simp add: liftE_def)

lemma ok_orE_simps [simp]: "ok_orE e None = errE e" "ok_orE e (Some a) = okE a"
  by (simp_all add: ok_orE_def)

lemma bindE_okE [simp]: "bindE (okE a) f = f a"
  by (simp add: bindE_def)

lemma bindE_errE [simp]: "bindE (errE e) f = errE e"
  by (simp add: bindE_def fun_eq_iff)

lemma bindE_assoc: "bindE (bindE m f) g = bindE m (\<lambda>a. bindE (f a) g)"
  by (auto simp: bindE_def fun_eq_iff split: prod.splits sum.splits)

text \<open>Evaluation of a bind whose first call is known.\<close>

lemma bindE_Inr: "m s = (Inr a, s') \<Longrightarrow> bindE m f s = f a s'"
  by (simp add: bindE_def)

lemma bindE_Inl: "m s = (Inl e, s') \<Longrightarrow> bindE m f s = (Inl e, s')"
  by (simp add: bindE_def)

lemma mapErrE_Inr: "m s = (Inr a, s') \<Longrightarrow> mapErrE f m s = (Inr a, s')"
  by (simp add: mapErrE_def)

lemma mapErrE_Inl: "m s = (Inl e, s') \<Longrightarrow> mapErrE f m s = (Inl (f e), s')"
  by (simp add: mapErrE_def)

lemma bindE_attemptE: "m s = (r, s') \<Longrightarrow> bindE (attemptE m) f s = f r s'"
  by (simp add: bindE_def attemptE_def)

lemmas io_run = bindE_Inr bindE_Inl mapErrE_Inr mapErrE_Inl

text \<open>Evaluation from the inside: the first call before its continuation is touched.\<close>

lemma bindE_eval: "bindE m f s = (case m s of (Inl e, s') \<Rightarrow> (Inl e, s') | (Inr a, s') \<Rightarrow> f a s')"
  by (simp add: bindE_def)

lemma eval_cong: "m = m' \<Longrightarrow> s = s' \<Longrightarrow> bindE m f s = bindE m' f s'"
  by simp

text \<open>Inversion: how a composed call can have returned.\<close>

lemma bindE_InrE:
  assumes "bindE m f s = (Inr b, s')"
  obtains a s1 where "m s = (Inr a, s1)" and "f a s1 = (Inr b, s')"
  using assms by (auto simp: bindE_def split: prod.splits sum.splits)

lemma bindE_InlE:
  assumes "bindE m f s = (Inl e, s')"
  obtains "m s = (Inl e, s')" | a s1 where "m s = (Inr a, s1)" and "f a s1 = (Inl e, s')"
  using assms by (auto simp: bindE_def split: prod.splits sum.splits)

lemma bindE_cases [consumes 1, case_names fails returns]:
  assumes "bindE m f s = (x, s')"
  obtains e where "m s = (Inl e, s')" and "x = Inl e"
  | a s1 where "m s = (Inr a, s1)" and "f a s1 = (x, s')"
  using assms by (auto simp: bindE_def split: prod.splits sum.splits)

lemma mapErrE_Inr_iff [simp]: "mapErrE f m s = (Inr a, s') \<longleftrightarrow> m s = (Inr a, s')"
  by (auto simp: mapErrE_def split: prod.splits sum.splits)

lemma mapErrE_Inl_iff: "mapErrE f m s = (Inl e, s') \<longleftrightarrow> (\<exists>e'. m s = (Inl e', s') \<and> e = f e')"
  by (auto simp: mapErrE_def split: prod.splits sum.splits)

lemma snd_mapErrE [simp]: "snd (mapErrE f m s) = snd (m s)"
  by (auto simp: mapErrE_def split: prod.splits sum.splits)

lemma ok_orE_Inr_iff [simp]: "ok_orE e x s = (Inr a, s') \<longleftrightarrow> x = Some a \<and> s' = s"
  by (cases x) auto

lemma ok_orE_Inl_iff [simp]: "ok_orE e x s = (Inl e', s') \<longleftrightarrow> x = None \<and> e' = e \<and> s' = s"
  by (cases x) auto

section \<open>Invariants of a computation\<close>

text \<open>
  \<open>steps R m\<close>: the states before and after \<open>m\<close> are related by \<open>R\<close>, whether \<open>m\<close> returns a value
  or an error. For a reflexive and transitive \<open>R\<close> this passes through \<open>bindE\<close>, so a frame
  (\<open>f s' = f s\<close>) or an invariant (\<open>I s \<longrightarrow> I s'\<close>) of a handler follows from those of the
  operations that it calls. The collection \<open>steps_rules\<close> holds the rules.
\<close>

named_theorems steps_rules

definition steps :: "('s \<Rightarrow> 's \<Rightarrow> bool) \<Rightarrow> ('s, 'e, 'a) io \<Rightarrow> bool" where
  "steps R m \<longleftrightarrow> (\<forall>s. R s (snd (m s)))"

lemma stepsI: "(\<And>s r s'. m s = (r, s') \<Longrightarrow> R s s') \<Longrightarrow> steps R m"
  unfolding steps_def by (metis prod.collapse)

lemma stepsD: "steps R m \<Longrightarrow> m s = (r, s') \<Longrightarrow> R s s'"
  unfolding steps_def by (metis snd_conv)

lemma steps_okE [steps_rules]: "reflp R \<Longrightarrow> steps R (okE a)"
  by (simp add: steps_def reflpD)

lemma steps_errE [steps_rules]: "reflp R \<Longrightarrow> steps R (errE e)"
  by (simp add: steps_def reflpD)

lemma steps_liftE [steps_rules]: "reflp R \<Longrightarrow> steps R (liftE r)"
  by (simp add: steps_def reflpD)

lemma steps_ok_orE [steps_rules]: "reflp R \<Longrightarrow> steps R (ok_orE e x)"
  by (cases x) (simp_all add: steps_def reflpD)

lemma steps_mapErrE [steps_rules]: "steps R m \<Longrightarrow> steps R (mapErrE f m)"
  by (simp add: steps_def)

lemma steps_attemptE [steps_rules]: "steps R m \<Longrightarrow> steps R (attemptE m)"
  by (simp add: steps_def attemptE_def split: prod.splits) (metis snd_conv)

lemma steps_bindE [steps_rules]:
  assumes "transp R" and "steps R m" and "\<And>a. steps R (f a)"
  shows "steps R (bindE m f)"
proof (rule stepsI)
  fix s r s' assume run: "bindE m f s = (r, s')"
  obtain q s1 where m: "m s = (q, s1)" by fastforce
  have "R s s1" using assms(2) m by (rule stepsD)
  show "R s s'"
  proof (cases q)
    case (Inl e)
    with run m \<open>R s s1\<close> show ?thesis by (simp add: bindE_def)
  next
    case (Inr a)
    with run m have "f a s1 = (r, s')" by (simp add: bindE_def)
    with assms(3) have "R s1 s'" by (rule stepsD)
    with \<open>transp R\<close> \<open>R s s1\<close> show ?thesis by (rule transpD)
  qed
qed

lemma steps_bindE_then:
  assumes "transp R" and "steps R m"
    and "\<And>a s s1. m s = (Inr a, s1) \<Longrightarrow> R s1 (snd (f a s1))"
  shows "steps R (bindE m f)"
proof (rule stepsI)
  fix s r s' assume "bindE m f s = (r, s')"
  then show "R s s'"
  proof (cases rule: bindE_cases)
    case (fails e)
    with assms(2) show ?thesis by (blast dest: stepsD)
  next
    case (returns a s1)
    with assms(3) [of s a s1] have "R s1 s'" by simp
    with returns(1) assms(1,2) show ?thesis by (blast dest: stepsD transpD)
  qed
qed

text \<open>One step of a composed call at a time, with an assertion about the state in between.\<close>

lemma bindE_state:
  assumes "bindE m f s = (x, s')"
    and "\<And>y s1. m s = (y, s1) \<Longrightarrow> Q s1" and "\<And>e. x = Inl e \<Longrightarrow> Q s' \<Longrightarrow> P s'"
    and "\<And>a s1. Q s1 \<Longrightarrow> m s = (Inr a, s1) \<Longrightarrow> f a s1 = (x, s') \<Longrightarrow> P s'"
  shows "P s'"
  using assms(1) by (cases rule: bindE_cases) (use assms(2-) in blast)+

text \<open>The two relations that are used: keeping an invariant, and leaving a part unchanged.\<close>

abbreviation keeps :: "('s \<Rightarrow> bool) \<Rightarrow> ('s, 'e, 'a) io \<Rightarrow> bool" where
  "keeps I m \<equiv> steps (\<lambda>s s'. I s \<longrightarrow> I s') m"

abbreviation frames :: "('s \<Rightarrow> 'x) \<Rightarrow> ('s, 'e, 'a) io \<Rightarrow> bool" where
  "frames f m \<equiv> steps (\<lambda>s s'. f s' = f s) m"

lemma reflp_keeps [simp, steps_rules]: "reflp (\<lambda>s s'. I s \<longrightarrow> I s')"
  by (simp add: reflp_def)

lemma transp_keeps [simp, steps_rules]: "transp (\<lambda>s s'. I s \<longrightarrow> I s')"
  by (auto simp: transp_def)

lemma keeps_conj: "keeps I m \<Longrightarrow> keeps J m \<Longrightarrow> keeps (\<lambda>s. I s \<and> J s) m"
  by (simp add: steps_def)

lemma reflp_frames [simp, steps_rules]: "reflp (\<lambda>s s'. f s' = f s)"
  by (simp add: reflp_def)

lemma transp_frames [simp, steps_rules]: "transp (\<lambda>s s'. f s' = f s)"
  by (auto simp: transp_def)

end
