(* ===== verification/Redis.thy ===== *)
theory Redis
  imports Auth_Prelude
begin

text \<open>
  The cache. Redis and the \<open>redis\<close> crate are not code of the repository, so the stores and the
  rate limiter take them as a parameter, a record \<open>redis_api\<close> of the calls that the code makes
  (connect, one command, a pipeline, the conversions of a reply). What the code relies on is the
  locale \<open>redis_service\<close>: seen through an abstraction to a keyspace with deadlines, a command that
  is answered has had its documented effect, and a command that is not answered has had its effect
  or none. The effects of the commands that the code uses are written out in \<open>ks_exec\<close> (SISMEMBER and
  EXISTS are used by its unit tests only).
\<close>

section \<open>The keyspace and the documented effect of the commands\<close>

text \<open>
  A string value is \<open>RNum n\<close> if it is the decimal form of an integer, and \<open>RStr s\<close> otherwise.
  A set is kept as the list of its members. An entry may have a deadline.
\<close>

datatype redis_value = RStr string | RNum int | RSet "string list"

type_synonym entry = "redis_value \<times> instant option"
type_synonym keyspace = "string \<Rightarrow> entry option"

datatype redis_cmd =
    GET string
  | SETEX string int string
  | INCRBY string int
  | EXPIRE string int
  | DEL string
  | GETDEL string
  | SADD string string
  | SREM string string
  | SMEMBERS string
  | SISMEMBER string string
  | EXISTS string
  | PING

datatype reply = Nil_Reply | Okay | Num int | Bulk string | Bulk_Num int | Arr "string list"

datatype redis_error = Redis_Error string

definition wrong_type :: redis_error where
  "wrong_type = Redis_Error ''WRONGTYPE''"

definition live :: "instant \<Rightarrow> instant option \<Rightarrow> bool" where
  "live t d = (case d of None \<Rightarrow> True | Some x \<Rightarrow> t < x)"

definition lookup :: "instant \<Rightarrow> keyspace \<Rightarrow> string \<Rightarrow> entry option" where
  "lookup t ks k = (case ks k of None \<Rightarrow> None
     | Some e \<Rightarrow> if live t (snd e) then Some e else None)"

definition outlives :: "instant option \<Rightarrow> instant option \<Rightarrow> bool" where
  "outlives d' d \<longleftrightarrow> (\<forall>t. live t d \<longrightarrow> live t d')"

lemma live_mono: "live t' d \<Longrightarrow> t \<le> t' \<Longrightarrow> live t d"
  by (auto simp: live_def split: option.splits)

lemma live_simps [simp]: "live t None" "live t (Some x) \<longleftrightarrow> t < x"
  by (simp_all add: live_def)

lemma outlives_refl [simp]: "outlives d d"
  by (simp add: outlives_def)

lemma outlives_None [simp]: "outlives None d"
  by (simp add: outlives_def)

lemma outlives_Some [simp]: "outlives (Some y) (Some x) \<longleftrightarrow> x \<le> y"
proof
  show "x \<le> y" if "outlives (Some y) (Some x)"
    using that by (auto simp: outlives_def dest: spec [of _ y])
qed (auto simp: outlives_def)

lemma outlivesD: "outlives d' d \<Longrightarrow> live t d \<Longrightarrow> live t d'"
  by (simp add: outlives_def)

lemma lookup_Some_iff: "lookup t ks k = Some (v, d) \<longleftrightarrow> ks k = Some (v, d) \<and> live t d"
  by (auto simp: lookup_def split: option.splits)

lemma lookup_None_iff: "lookup t ks k = None \<longleftrightarrow> (\<forall>v d. ks k = Some (v, d) \<longrightarrow> \<not> live t d)"
  by (auto simp: lookup_def split: option.splits)

lemma lookup_upd [simp]:
  "lookup t (ks(k := e)) k' = (if k' = k then (case e of None \<Rightarrow> None
     | Some x \<Rightarrow> if live t (snd x) then Some x else None) else lookup t ks k')"
  by (simp add: lookup_def split: option.splits)

lemma lookup_mono: "lookup t' ks k = Some e \<Longrightarrow> t \<le> t' \<Longrightarrow> lookup t ks k = Some e"
  by (cases e) (auto simp: lookup_Some_iff intro: live_mono)

definition redis_max :: int where
  "redis_max = 2 ^ 63 - 1"

fun ks_exec :: "redis_cmd \<Rightarrow> instant \<Rightarrow> keyspace \<Rightarrow> (redis_error + reply) \<times> keyspace" where
  "ks_exec (GET k) t ks = (case lookup t ks k of
       None \<Rightarrow> (Inr Nil_Reply, ks)
     | Some (RStr s, _) \<Rightarrow> (Inr (Bulk s), ks)
     | Some (RNum n, _) \<Rightarrow> (Inr (Bulk_Num n), ks)
     | Some (RSet _, _) \<Rightarrow> (Inl wrong_type, ks))"
| "ks_exec (SETEX k ttl v) t ks =
     (if ttl \<le> 0 then (Inl (Redis_Error ''ERR invalid expire time''), ks)
      else (Inr Okay, ks(k \<mapsto> (RStr v, Some (t + secs ttl)))))"
| "ks_exec (INCRBY k n) t ks = (case lookup t ks k of
       None \<Rightarrow> (Inr (Num n), ks(k \<mapsto> (RNum n, None)))
     | Some (RNum m, d) \<Rightarrow>
         (if m + n > redis_max then (Inl (Redis_Error ''ERR increment or decrement would overflow''), ks)
          else (Inr (Num (m + n)), ks(k \<mapsto> (RNum (m + n), d))))
     | Some _ \<Rightarrow> (Inl wrong_type, ks))"
| "ks_exec (EXPIRE k ttl) t ks = (case lookup t ks k of
       None \<Rightarrow> (Inr (Num 0), ks)
     | Some (v, _) \<Rightarrow>
         (if ttl \<le> 0 then (Inr (Num 1), ks(k := None))
          else (Inr (Num 1), ks(k \<mapsto> (v, Some (t + secs ttl))))))"
| "ks_exec (DEL k) t ks =
     (Inr (Num (if lookup t ks k = None then 0 else 1)), ks(k := None))"
| "ks_exec (GETDEL k) t ks = (case lookup t ks k of
       None \<Rightarrow> (Inr Nil_Reply, ks)
     | Some (RStr s, _) \<Rightarrow> (Inr (Bulk s), ks(k := None))
     | Some (RNum n, _) \<Rightarrow> (Inr (Bulk_Num n), ks(k := None))
     | Some (RSet _, _) \<Rightarrow> (Inl wrong_type, ks))"
| "ks_exec (SADD k m) t ks = (case lookup t ks k of
       None \<Rightarrow> (Inr (Num 1), ks(k \<mapsto> (RSet [m], None)))
     | Some (RSet ms, d) \<Rightarrow>
         (Inr (Num (if m \<in> set ms then 0 else 1)), ks(k \<mapsto> (RSet (List.insert m ms), d)))
     | Some _ \<Rightarrow> (Inl wrong_type, ks))"
| "ks_exec (SREM k m) t ks = (case lookup t ks k of
       None \<Rightarrow> (Inr (Num 0), ks)
     | Some (RSet ms, d) \<Rightarrow>
         (Inr (Num (if m \<in> set ms then 1 else 0)),
          ks(k := (if removeAll m ms = [] then None else Some (RSet (removeAll m ms), d))))
     | Some _ \<Rightarrow> (Inl wrong_type, ks))"
| "ks_exec (SMEMBERS k) t ks = (case lookup t ks k of
       None \<Rightarrow> (Inr (Arr []), ks)
     | Some (RSet ms, _) \<Rightarrow> (Inr (Arr ms), ks)
     | Some _ \<Rightarrow> (Inl wrong_type, ks))"
| "ks_exec (SISMEMBER k m) t ks = (case lookup t ks k of
       None \<Rightarrow> (Inr (Num 0), ks)
     | Some (RSet ms, _) \<Rightarrow> (Inr (Num (if m \<in> set ms then 1 else 0)), ks)
     | Some _ \<Rightarrow> (Inl wrong_type, ks))"
| "ks_exec (EXISTS k) t ks = (Inr (Num (if lookup t ks k = None then 0 else 1)), ks)"
| "ks_exec PING t ks = (Inr Okay, ks)"

text \<open>A pipeline sends its commands in order; a command that is refused does not stop the rest.\<close>

fun ks_run :: "redis_cmd list \<Rightarrow> instant \<Rightarrow> keyspace \<Rightarrow> keyspace" where
  "ks_run [] t ks = ks"
| "ks_run (c # cs) t ks = ks_run cs t (snd (ks_exec c t ks))"

fun ks_all_ok :: "redis_cmd list \<Rightarrow> instant \<Rightarrow> keyspace \<Rightarrow> bool" where
  "ks_all_ok [] t ks = True"
| "ks_all_ok (c # cs) t ks =
     ((case fst (ks_exec c t ks) of Inl _ \<Rightarrow> False | Inr _ \<Rightarrow> True)
      \<and> ks_all_ok cs t (snd (ks_exec c t ks)))"

text \<open>A command acts on its own key only.\<close>

fun cmd_key :: "redis_cmd \<Rightarrow> string option" where
  "cmd_key (GET k) = Some k"
| "cmd_key (SETEX k ttl v) = Some k"
| "cmd_key (INCRBY k n) = Some k"
| "cmd_key (EXPIRE k ttl) = Some k"
| "cmd_key (DEL k) = Some k"
| "cmd_key (GETDEL k) = Some k"
| "cmd_key (SADD k m) = Some k"
| "cmd_key (SREM k m) = Some k"
| "cmd_key (SMEMBERS k) = Some k"
| "cmd_key (SISMEMBER k m) = Some k"
| "cmd_key (EXISTS k) = Some k"
| "cmd_key PING = None"

lemma ks_exec_frame: "cmd_key c \<noteq> Some k \<Longrightarrow> snd (ks_exec c t ks) k = ks k"
  by (cases c) (auto split: option.splits redis_value.splits if_splits)

lemma ks_run_frame: "Some k \<notin> cmd_key ` set cs \<Longrightarrow> ks_run cs t ks k = ks k"
  by (induction cs arbitrary: ks) (auto simp: ks_exec_frame)

lemma ks_run_append: "ks_run (cs @ ds) t ks = ks_run ds t (ks_run cs t ks)"
  by (induction cs arbitrary: ks) auto

lemma ks_run_keeps:
  assumes "\<And>c ks. c \<in> set cs \<Longrightarrow> I ks \<Longrightarrow> I (snd (ks_exec c t ks))" and "I ks"
  shows "I (ks_run cs t ks)"
  using assms by (induction cs arbitrary: ks) auto

text \<open>The order of the members that SMEMBERS returns is not specified.\<close>

fun same_reply :: "reply \<Rightarrow> reply \<Rightarrow> bool" where
  "same_reply (Arr xs) (Arr ys) = (set xs = set ys \<and> length xs = length ys)"
| "same_reply r r' = (r = r')"

lemma same_reply_simps [simp]:
  "same_reply r Nil_Reply = (r = Nil_Reply)" "same_reply r Okay = (r = Okay)"
  "same_reply r (Num n) = (r = Num n)" "same_reply r (Bulk s) = (r = Bulk s)"
  "same_reply r (Bulk_Num n) = (r = Bulk_Num n)"
  by (cases r; simp)+

lemma same_reply_Arr: "same_reply r (Arr ys) \<longleftrightarrow> (\<exists>xs. r = Arr xs \<and> set xs = set ys \<and> length xs = length ys)"
  by (cases r) auto

lemma same_reply_refl [simp]: "same_reply r r"
  by (cases r) auto

section \<open>The calls of the redis crate\<close>

record 'r redis_api =
  rd_connect :: "('r, redis_error, unit) io"
  rd_exec :: "redis_cmd \<Rightarrow> instant \<Rightarrow> ('r, redis_error, reply) io"
  rd_pipe :: "redis_cmd list \<Rightarrow> instant \<Rightarrow> ('r, redis_error, unit) io"
  to_u32 :: "reply \<Rightarrow> redis_error + u32"
  to_u64 :: "reply \<Rightarrow> redis_error + u64"
  to_opt_u32 :: "reply \<Rightarrow> redis_error + u32 option"
  to_opt_string :: "reply \<Rightarrow> redis_error + string option"
  to_strings :: "reply \<Rightarrow> redis_error + string list"
  to_bool :: "reply \<Rightarrow> redis_error + bool"

text \<open>One command whose reply is read at the type that the code asks for.\<close>

definition rd_query ::
    "'r redis_api \<Rightarrow> redis_cmd \<Rightarrow> (reply \<Rightarrow> redis_error + 'a) \<Rightarrow> instant \<Rightarrow> ('r, redis_error, 'a) io" where
  "rd_query R c conv t = bindE (rd_exec R c t) (\<lambda>rep. liftE (conv rep))"

locale redis_service =
  fixes R :: "'r redis_api" and \<alpha> :: "'r \<Rightarrow> keyspace"
  assumes connect: "rd_connect R r = (x, r') \<Longrightarrow> \<alpha> r' = \<alpha> r"
    and exec_ok: "rd_exec R c t r = (Inr rep, r') \<Longrightarrow>
      \<exists>rep'. ks_exec c t (\<alpha> r) = (Inr rep', \<alpha> r') \<and> same_reply rep rep'"
    and exec_err: "rd_exec R c t r = (Inl e, r') \<Longrightarrow>
      \<alpha> r' = \<alpha> r \<or> \<alpha> r' = snd (ks_exec c t (\<alpha> r))"
    and pipe_ok: "rd_pipe R cs t r = (Inr u, r') \<Longrightarrow>
      ks_all_ok cs t (\<alpha> r) \<and> \<alpha> r' = ks_run cs t (\<alpha> r)"
    and pipe_err: "rd_pipe R cs t r = (Inl e, r') \<Longrightarrow> \<exists>n. \<alpha> r' = ks_run (take n cs) t (\<alpha> r)"
    and u32_num: "0 \<le> n \<Longrightarrow> n < 2 ^ 32 \<Longrightarrow> to_u32 R (Num n) = Inr (of_int n)"
    and u64_num: "0 \<le> n \<Longrightarrow> n < 2 ^ 63 \<Longrightarrow> to_u64 R (Num n) = Inr (of_int n)"
    and opt_u32_nil: "to_opt_u32 R Nil_Reply = Inr None"
    and opt_u32_num: "0 \<le> n \<Longrightarrow> n < 2 ^ 32 \<Longrightarrow> to_opt_u32 R (Bulk_Num n) = Inr (Some (of_int n))"
    and opt_string_nil: "to_opt_string R Nil_Reply = Inr None"
    and opt_string_bulk: "to_opt_string R (Bulk s) = Inr (Some s)"
    and strings_arr: "to_strings R (Arr xs) = Inr xs"
    and bool_num: "to_bool R (Num n) = Inr (n \<noteq> 0)"

context redis_service begin

text \<open>Whatever a call returns, it has had the effect of its command or none.\<close>

lemma exec_state:
  assumes "rd_exec R c t r = (x, r')"
  shows "\<alpha> r' = \<alpha> r \<or> \<alpha> r' = snd (ks_exec c t (\<alpha> r))"
proof (cases x)
  case (Inl e)
  with assms show ?thesis by (auto dest: exec_err)
next
  case (Inr rep)
  with assms obtain rep' where "ks_exec c t (\<alpha> r) = (Inr rep', \<alpha> r')" by (auto dest: exec_ok)
  then show ?thesis by simp
qed

lemma query_state:
  assumes "rd_query R c conv t r = (x, r')"
  shows "\<alpha> r' = \<alpha> r \<or> \<alpha> r' = snd (ks_exec c t (\<alpha> r))"
proof (cases "rd_exec R c t r")
  case (Pair y r1)
  with assms have "r' = r1" by (cases y) (auto simp: rd_query_def bindE_def)
  with Pair show ?thesis by (simp add: exec_state)
qed

lemma pipe_state:
  assumes "rd_pipe R cs t r = (x, r')"
  shows "\<exists>n. \<alpha> r' = ks_run (take n cs) t (\<alpha> r)"
proof (cases x)
  case (Inl e)
  with assms show ?thesis by (auto dest: pipe_err)
next
  case (Inr u)
  with assms have "\<alpha> r' = ks_run (take (length cs) cs) t (\<alpha> r)" by (auto dest: pipe_ok)
  then show ?thesis ..
qed

lemma query_InrE:
  assumes "rd_query R c conv t r = (Inr v, r')"
  obtains rep rep' where "ks_exec c t (\<alpha> r) = (Inr rep', \<alpha> r')" "same_reply rep rep'" "conv rep = Inr v"
  using assms unfolding rd_query_def by (auto elim!: bindE_InrE dest!: exec_ok)

text \<open>
  The invariant rule of the service: what every command of a call keeps, the call keeps, and with
  \<open>steps_rules\<close> so does an operation that is composed of calls.
\<close>

lemma keeps_connect [steps_rules]: "keeps (\<lambda>r. I (\<alpha> r)) (rd_connect R)"
  by (rule stepsI) (simp add: connect)

lemma keeps_exec:
  "(\<And>ks. I ks \<Longrightarrow> I (snd (ks_exec c t ks))) \<Longrightarrow> keeps (\<lambda>r. I (\<alpha> r)) (rd_exec R c t)"
  by (rule stepsI) (metis exec_state)

lemma keeps_query:
  "(\<And>ks. I ks \<Longrightarrow> I (snd (ks_exec c t ks))) \<Longrightarrow> keeps (\<lambda>r. I (\<alpha> r)) (rd_query R c conv t)"
  by (rule stepsI) (metis query_state)

lemma keeps_pipe:
  assumes "\<And>c ks. c \<in> set cs \<Longrightarrow> I ks \<Longrightarrow> I (snd (ks_exec c t ks))"
  shows "keeps (\<lambda>r. I (\<alpha> r)) (rd_pipe R cs t)"
proof (rule stepsI, rule impI)
  fix r x r' assume run: "rd_pipe R cs t r = (x, r')" and I: "I (\<alpha> r)"
  from run obtain n where "\<alpha> r' = ks_run (take n cs) t (\<alpha> r)" using pipe_state by blast
  moreover have "I (ks_run (take n cs) t (\<alpha> r))"
    by (rule ks_run_keeps) (use assms I in \<open>auto dest: in_set_takeD\<close>)
  ultimately show "I (\<alpha> r')" by simp
qed

end

text \<open>A period without an outage: every call is answered, with the documented answer.\<close>

locale redis_available = redis_service +
  fixes up :: "'r \<Rightarrow> bool"
  assumes up_connect: "up r \<Longrightarrow> \<exists>r'. rd_connect R r = (Inr (), r') \<and> up r'"
    and up_exec: "up r \<Longrightarrow> fst (ks_exec c t (\<alpha> r)) = Inr rep' \<Longrightarrow>
      \<exists>rep r'. rd_exec R c t r = (Inr rep, r') \<and> up r'"
    and up_pipe: "up r \<Longrightarrow> ks_all_ok cs t (\<alpha> r) \<Longrightarrow> \<exists>r'. rd_pipe R cs t r = (Inr (), r') \<and> up r'"

end
