(* ===== verification/Data_Error.thy ===== *)
theory Data_Error
  imports Redis
begin

text \<open>
  \<open>src/data/error.rs\<close>: the errors of the repository layer, and the reading of an error of sqlx.
  An error of sqlx is either an error that the database reported, with its SQLSTATE code if it has
  one, or any other error (connection, pool, protocol, decoding).
\<close>

datatype sqlx_error = Sqlx_Database "string option" | Sqlx_Other string

datatype data_error = NotFound | EmailConflict | Database sqlx_error | Cache redis_error

text \<open>The SQLSTATE codes of a unique violation and of a foreign-key violation.\<close>

definition unique_violation :: sqlx_error where
  "unique_violation = Sqlx_Database (Some ''23505'')"

definition foreign_key_violation :: sqlx_error where
  "foreign_key_violation = Sqlx_Database (Some ''23503'')"

fun from_sqlx :: "sqlx_error \<Rightarrow> data_error" where
  "from_sqlx (Sqlx_Database code) =
     (if code = Some ''23505'' then EmailConflict else Database (Sqlx_Database code))"
| "from_sqlx (Sqlx_Other e) = Database (Sqlx_Other e)"

lemma from_sqlx_unique_violation [simp]: "from_sqlx unique_violation = EmailConflict"
  by (simp add: unique_violation_def)

lemma from_sqlx_foreign_key_violation [simp]:
  "from_sqlx foreign_key_violation = Database foreign_key_violation"
  by (simp add: foreign_key_violation_def)

lemma from_sqlx_conflict_iff [simp]: "from_sqlx e = EmailConflict \<longleftrightarrow> e = unique_violation"
  by (cases e) (auto simp: unique_violation_def)

lemma from_sqlx_not_NotFound [simp]: "from_sqlx e \<noteq> NotFound"
  by (cases e) auto

text \<open>The form of a UUID in a key or a value of the cache: the \<open>Display\<close> and \<open>parse\<close> of the uuid crate.\<close>

record uuid_lib =
  uuid_show :: "uuid \<Rightarrow> string"
  uuid_parse :: "string \<Rightarrow> uuid option"

locale uuid_codec =
  fixes U :: uuid_lib
  assumes parse_show [simp]: "uuid_parse U (uuid_show U u) = Some u"
begin

lemma show_inject [simp]: "uuid_show U u = uuid_show U v \<longleftrightarrow> u = v"
  by (metis option.inject parse_show)

end

text \<open>
  A codec for evaluation: the binary digits of the number, least significant first. It interprets
  the locale; the text of a UUID matters to the code only through \<open>parse_show\<close>.
\<close>

fun nat_bits :: "nat \<Rightarrow> string" where
  "nat_bits n = (if n = 0 then []
     else (if odd n then CHR ''1'' else CHR ''0'') # nat_bits (n div 2))"

declare nat_bits.simps [simp del]

fun bits_nat :: "string \<Rightarrow> nat option" where
  "bits_nat [] = Some 0"
| "bits_nat (c # cs) = (case bits_nat cs of None \<Rightarrow> None | Some n \<Rightarrow>
     if c = CHR ''1'' then Some (2 * n + 1) else if c = CHR ''0'' then Some (2 * n) else None)"

lemma bits_nat_bits [simp]: "bits_nat (nat_bits n) = Some n"
proof (induction n rule: nat_bits.induct)
  case (1 n)
  show ?case
  proof (cases "n = 0")
    case True
    then show ?thesis by (simp add: nat_bits.simps)
  next
    case False
    with 1 show ?thesis by (subst nat_bits.simps) auto
  qed
qed

definition bits_uuid :: uuid_lib where
  "bits_uuid = \<lparr>uuid_show = (\<lambda>u. nat_bits (unat u)), uuid_parse = (\<lambda>s. map_option of_nat (bits_nat s))\<rparr>"

interpretation bits: uuid_codec bits_uuid
  by unfold_locales (simp add: bits_uuid_def)

end
