(* ===== verification/Token_Store.thy ===== *)
theory Token_Store
  imports Data_Error
begin

text \<open>
  \<open>src/data/token_store.rs\<close>: the refresh tokens in the cache. \<open>refresh:<jti>\<close> holds the id of the
  user the token was issued to, \<open>sessions:<user_id>\<close> the set of the jtis of that user, the index
  that lets all of them be revoked. The operations are first shown to be operations on the keyspace
  (whatever the service, an answered call has had exactly this effect), then related to the abstract
  session table \<open>session_of\<close>.
\<close>

section \<open>The operations\<close>

definition refresh_str_key :: "string \<Rightarrow> string" where
  "refresh_str_key jti_str = ''refresh:'' @ jti_str"

definition refresh_key :: "uuid_lib \<Rightarrow> uuid \<Rightarrow> string" where
  "refresh_key U jti = refresh_str_key (uuid_show U jti)"

definition sessions_key :: "uuid_lib \<Rightarrow> uuid \<Rightarrow> string" where
  "sessions_key U user_id = ''sessions:'' @ uuid_show U user_id"

definition store_cmds :: "uuid_lib \<Rightarrow> uuid \<Rightarrow> uuid \<Rightarrow> u64 \<Rightarrow> redis_cmd list" where
  "store_cmds U jti user_id ttl_secs =
     [SETEX (refresh_key U jti) (uint ttl_secs) (uuid_show U user_id),
      SADD (sessions_key U user_id) (uuid_show U jti),
      EXPIRE (sessions_key U user_id) (sint ttl_secs)]"

definition store_refresh_token ::
    "'r redis_api \<Rightarrow> uuid_lib \<Rightarrow> uuid \<Rightarrow> uuid \<Rightarrow> u64 \<Rightarrow> instant \<Rightarrow> ('r, data_error, unit) io" where
  "store_refresh_token R U jti user_id ttl_secs t =
     bindE (mapErrE Cache (rd_connect R)) (\<lambda>_.
     mapErrE Cache (rd_pipe R (store_cmds U jti user_id ttl_secs) t))"

definition drop_from_index ::
    "'r redis_api \<Rightarrow> uuid_lib \<Rightarrow> uuid \<Rightarrow> string option \<Rightarrow> instant \<Rightarrow> ('r, data_error, unit) io" where
  "drop_from_index R U jti val t =
     (case val of
        Some uid_str \<Rightarrow>
          (case uuid_parse U uid_str of
             Some user_id \<Rightarrow>
               bindE (mapErrE Cache (rd_exec R (SREM (sessions_key U user_id) (uuid_show U jti)) t))
                 (\<lambda>_. okE ())
           | None \<Rightarrow> okE ())
      | None \<Rightarrow> okE ())"

definition revoke_refresh_token ::
    "'r redis_api \<Rightarrow> uuid_lib \<Rightarrow> uuid \<Rightarrow> instant \<Rightarrow> ('r, data_error, uuid option) io" where
  "revoke_refresh_token R U jti t =
     bindE (mapErrE Cache (rd_connect R)) (\<lambda>_.
     bindE (mapErrE Cache (rd_query R (GETDEL (refresh_key U jti)) (to_opt_string R) t)) (\<lambda>val.
     bindE (drop_from_index R U jti val t) (\<lambda>_.
     okE (Option.bind val (uuid_parse U)))))"

definition revoke_cmds :: "uuid_lib \<Rightarrow> uuid \<Rightarrow> string list \<Rightarrow> redis_cmd list" where
  "revoke_cmds U user_id jtis =
     map (\<lambda>jti_str. DEL (refresh_str_key jti_str)) jtis @ [DEL (sessions_key U user_id)]"

definition revoke_all_sessions ::
    "'r redis_api \<Rightarrow> uuid_lib \<Rightarrow> uuid \<Rightarrow> instant \<Rightarrow> ('r, data_error, nat) io" where
  "revoke_all_sessions R U user_id t =
     bindE (mapErrE Cache (rd_connect R)) (\<lambda>_.
     bindE (mapErrE Cache (rd_query R (SMEMBERS (sessions_key U user_id)) (to_strings R) t)) (\<lambda>jtis.
     if length jtis = 0 then okE 0
     else bindE (mapErrE Cache (rd_pipe R (revoke_cmds U user_id jtis) t)) (\<lambda>_.
          okE (length jtis))))"

section \<open>The abstract session table\<close>

text \<open>The user that a refresh token still stands for at time \<open>t\<close>.\<close>

definition session_of :: "uuid_lib \<Rightarrow> instant \<Rightarrow> keyspace \<Rightarrow> uuid \<Rightarrow> uuid option" where
  "session_of U t ks jti = (case lookup t ks (refresh_key U jti) of
       Some (RStr s, _) \<Rightarrow> uuid_parse U s
     | _ \<Rightarrow> None)"

text \<open>The jtis listed for a user at time \<open>t\<close>.\<close>

definition indexed :: "uuid_lib \<Rightarrow> instant \<Rightarrow> keyspace \<Rightarrow> uuid \<Rightarrow> string set" where
  "indexed U t ks user_id = (case lookup t ks (sessions_key U user_id) of
       Some (RSet ms, _) \<Rightarrow> set ms
     | _ \<Rightarrow> {})"

text \<open>
  The shape of the entries that this store writes: \<open>refresh:\<close> keys hold the text of a user id and
  \<open>sessions:\<close> keys hold sets without repetition of texts of jtis.
\<close>

definition well_typed :: "uuid_lib \<Rightarrow> keyspace \<Rightarrow> bool" where
  "well_typed U ks \<longleftrightarrow>
     (\<forall>jti v d. ks (refresh_key U jti) = Some (v, d) \<longrightarrow> (\<exists>u. v = RStr (uuid_show U u)))
   \<and> (\<forall>u v d. ks (sessions_key U u) = Some (v, d) \<longrightarrow> (\<exists>ms. v = RSet ms \<and> distinct ms))"

definition bounded :: "uuid_lib \<Rightarrow> int \<Rightarrow> instant \<Rightarrow> keyspace \<Rightarrow> bool" where
  "bounded U T t ks \<longleftrightarrow>
     (\<forall>jti v d. ks (refresh_key U jti) = Some (v, d) \<longrightarrow> (\<exists>x. d = Some x \<and> x \<le> t + secs T))"

text \<open>
  The index is complete: a live refresh token is listed for its user, in a set that lives at least
  as long as the token. \<open>X\<close> are the jtis that are exempt: those whose pipeline was cut, so that the
  token was never handed out.
\<close>

definition covered :: "uuid_lib \<Rightarrow> uuid set \<Rightarrow> instant \<Rightarrow> keyspace \<Rightarrow> bool" where
  "covered U X t ks \<longleftrightarrow>
     (\<forall>jti u d. jti \<notin> X \<longrightarrow> ks (refresh_key U jti) = Some (RStr (uuid_show U u), d) \<longrightarrow> live t d \<longrightarrow>
        (\<exists>ms d'. ks (sessions_key U u) = Some (RSet ms, d') \<and> uuid_show U jti \<in> set ms
           \<and> outlives d' d))"

definition index_inv :: "uuid_lib \<Rightarrow> int \<Rightarrow> uuid set \<Rightarrow> instant \<Rightarrow> keyspace \<Rightarrow> bool" where
  "index_inv U T X t ks \<longleftrightarrow> well_typed U ks \<and> bounded U T t ks \<and> covered U X t ks"

lemma refresh_key_not_sessions_key [simp]:
  "refresh_key U j \<noteq> sessions_key U u" "sessions_key U u \<noteq> refresh_key U j"
  "refresh_str_key s \<noteq> sessions_key U u" "sessions_key U u \<noteq> refresh_str_key s"
  by (simp_all add: refresh_key_def refresh_str_key_def sessions_key_def)

lemma refresh_str_key_inject [simp]: "refresh_str_key s = refresh_str_key s' \<longleftrightarrow> s = s'"
  by (simp add: refresh_str_key_def)

lemma covered_weaken: "covered U X t ks \<Longrightarrow> X \<subseteq> Y \<Longrightarrow> covered U Y t ks"
  by (auto simp: covered_def)

lemma index_inv_weaken: "index_inv U T X t ks \<Longrightarrow> X \<subseteq> Y \<Longrightarrow> index_inv U T Y t ks"
  by (auto simp: index_inv_def intro: covered_weaken)

lemma index_inv_later: "index_inv U T X t ks \<Longrightarrow> t \<le> t' \<Longrightarrow> index_inv U T X t' ks"
  unfolding index_inv_def bounded_def covered_def
  by (fastforce intro: live_mono)

lemma index_inv_empty: "index_inv U T X t Map.empty"
  by (simp add: index_inv_def well_typed_def bounded_def covered_def)

context uuid_codec begin

lemma key_inject [simp]:
  "refresh_key U j = refresh_key U j' \<longleftrightarrow> j = j'"
  "sessions_key U u = sessions_key U u' \<longleftrightarrow> u = u'"
  by (simp_all add: refresh_key_def sessions_key_def)

lemma session_of_Some_iff:
  assumes "well_typed U ks"
  shows "session_of U t ks jti = Some u \<longleftrightarrow>
    (\<exists>d. ks (refresh_key U jti) = Some (RStr (uuid_show U u), d) \<and> live t d)"
proof
  assume "session_of U t ks jti = Some u"
  then obtain s d where s: "lookup t ks (refresh_key U jti) = Some (RStr s, d)" "uuid_parse U s = Some u"
    by (auto simp: session_of_def split: option.splits redis_value.splits)
  then obtain u' where "s = uuid_show U u'"
    using assms by (fastforce simp: well_typed_def lookup_Some_iff)
  with s show "\<exists>d. ks (refresh_key U jti) = Some (RStr (uuid_show U u), d) \<and> live t d"
    by (auto simp: lookup_Some_iff)
qed (auto simp: session_of_def lookup_def)

text \<open>Each command of the store keeps the index complete.\<close>

lemma typed_lookups:
  assumes "well_typed U ks"
  shows "lookup t ks (refresh_key U jti) = None \<or>
      (\<exists>u d. lookup t ks (refresh_key U jti) = Some (RStr (uuid_show U u), d))"
    and "lookup t ks (sessions_key U u) = None \<or>
      (\<exists>ms d. lookup t ks (sessions_key U u) = Some (RSet ms, d) \<and> distinct ms)"
  using assms unfolding well_typed_def lookup_def
  by (fastforce split: option.splits)+

lemma index_inv_SETEX:
  assumes "index_inv U T X t ks" and "0 < T"
  shows "index_inv U T (insert jti X) t
    (snd (ks_exec (SETEX (refresh_key U jti) T (uuid_show U u)) t ks))"
  using assms unfolding index_inv_def well_typed_def bounded_def covered_def by auto

lemma index_inv_coveredD:
  assumes "index_inv U T X t ks" "jti \<notin> X"
    and "ks (refresh_key U jti) = Some (RStr (uuid_show U u), d)" "live t d"
  obtains ms d' where "lookup t ks (sessions_key U u) = Some (RSet ms, d')"
    and "uuid_show U jti \<in> set ms" and "outlives d' d"
proof -
  from assms obtain ms d' where "ks (sessions_key U u) = Some (RSet ms, d')"
    "uuid_show U jti \<in> set ms" "outlives d' d"
    unfolding index_inv_def covered_def by blast
  with \<open>live t d\<close> show ?thesis by (intro that) (auto simp: lookup_Some_iff dest: outlivesD)
qed

lemma index_inv_boundedD:
  assumes "index_inv U T X t ks" and "ks (refresh_key U jti) = Some (v, d)"
  obtains x where "d = Some x" and "x \<le> t + secs T"
  using assms unfolding index_inv_def bounded_def by blast

lemma index_inv_set_sessions:
  assumes "index_inv U T X t ks" and "distinct ms"
    and "\<And>jti e. jti \<notin> X \<Longrightarrow> ks (refresh_key U jti) = Some (RStr (uuid_show U u), e) \<Longrightarrow> live t e
      \<Longrightarrow> uuid_show U jti \<in> set ms \<and> outlives d e"
  shows "index_inv U T X t (ks(sessions_key U u \<mapsto> (RSet ms, d)))"
  using assms unfolding index_inv_def well_typed_def bounded_def covered_def by simp

lemma index_inv_remove_sessions:
  assumes "index_inv U T X t ks"
    and "\<And>jti e. jti \<notin> X \<Longrightarrow> ks (refresh_key U jti) = Some (RStr (uuid_show U u), e) \<Longrightarrow> \<not> live t e"
  shows "index_inv U T X t (ks(sessions_key U u := None))"
  using assms unfolding index_inv_def well_typed_def bounded_def covered_def
  by simp

lemma covered_insertD:
  assumes cov: "covered U (insert jti X) t ks"
    and entry: "ks (refresh_key U jti) = Some (RStr (uuid_show U u), d)"
      "ks (sessions_key U u) = Some (RSet ms, d)" "uuid_show U jti \<in> set ms"
  shows "covered U X t ks"
  unfolding covered_def
proof (intro allI impI)
  fix j v e
  assume j: "j \<notin> X" "ks (refresh_key U j) = Some (RStr (uuid_show U v), e)" "live t e"
  show "\<exists>ms d'. ks (sessions_key U v) = Some (RSet ms, d') \<and> uuid_show U j \<in> set ms \<and> outlives d' e"
  proof (cases "j = jti")
    case True
    with j entry show ?thesis by simp
  next
    case False
    with j cov show ?thesis by (simp add: covered_def)
  qed
qed

text \<open>How the set of a user can look before a command on it.\<close>

lemma sessions_cases:
  assumes "index_inv U T X t ks"
  obtains "lookup t ks (sessions_key U u) = None"
  | ms d where "lookup t ks (sessions_key U u) = Some (RSet ms, d)" "distinct ms"
  using typed_lookups(2) [of ks t u] assms by (auto simp: index_inv_def)

lemma index_inv_SADD:
  assumes inv: "index_inv U T X t ks"
  shows "index_inv U T X t (snd (ks_exec (SADD (sessions_key U u) m) t ks))"
  using inv
proof (cases rule: sessions_cases [of T X t ks u])
  case 1
  have "index_inv U T X t (ks(sessions_key U u \<mapsto> (RSet [m], None)))"
  proof (rule index_inv_set_sessions [OF inv])
    fix jti e assume "jti \<notin> X" "ks (refresh_key U jti) = Some (RStr (uuid_show U u), e)" "live t e"
    with inv show "uuid_show U jti \<in> set [m] \<and> outlives None e"
      by (rule index_inv_coveredD) (simp add: 1)
  qed simp
  with 1 show ?thesis by simp
next
  case (2 ms d)
  have "index_inv U T X t (ks(sessions_key U u \<mapsto> (RSet (List.insert m ms), d)))"
  proof (rule index_inv_set_sessions [OF inv])
    fix jti e assume "jti \<notin> X" "ks (refresh_key U jti) = Some (RStr (uuid_show U u), e)" "live t e"
    with inv show "uuid_show U jti \<in> set (List.insert m ms) \<and> outlives d e"
      by (rule index_inv_coveredD) (simp add: 2)
  qed (simp add: 2)
  with 2 show ?thesis by simp
qed

lemma index_inv_EXPIRE:
  assumes inv: "index_inv U T X t ks" and T: "0 < T"
  shows "index_inv U T X t (snd (ks_exec (EXPIRE (sessions_key U u) T) t ks))"
  using inv
proof (cases rule: sessions_cases [of T X t ks u])
  case 1
  with inv show ?thesis by simp
next
  case (2 ms d)
  have "index_inv U T X t (ks(sessions_key U u \<mapsto> (RSet ms, Some (t + secs T))))"
  proof (rule index_inv_set_sessions [OF inv])
    fix jti e assume e: "jti \<notin> X" "ks (refresh_key U jti) = Some (RStr (uuid_show U u), e)" "live t e"
    from inv e have "uuid_show U jti \<in> set ms"
      by (rule index_inv_coveredD) (simp add: 2)
    moreover obtain x where "e = Some x" "x \<le> t + secs T"
      using inv e(2) by (rule index_inv_boundedD)
    ultimately show "uuid_show U jti \<in> set ms \<and> outlives (Some (t + secs T)) e" by simp
  qed (simp add: 2)
  with 2 T show ?thesis by simp
qed

lemma index_inv_remove_refresh:
  assumes "index_inv U T X t ks"
  shows "index_inv U T X t (ks(refresh_str_key s := None))"
  using assms unfolding index_inv_def well_typed_def bounded_def covered_def
  by (simp split: if_splits)

lemma index_inv_GETDEL:
  assumes inv: "index_inv U T X t ks"
  shows "index_inv U T X t (snd (ks_exec (GETDEL (refresh_key U jti)) t ks))"
proof -
  have "lookup t ks (refresh_key U jti) = None \<or>
      (\<exists>u d. lookup t ks (refresh_key U jti) = Some (RStr (uuid_show U u), d))"
    using inv by (intro typed_lookups) (simp add: index_inv_def)
  moreover have "index_inv U T X t (ks(refresh_key U jti := None))"
    unfolding refresh_key_def by (rule index_inv_remove_refresh [OF inv])
  ultimately show ?thesis using inv by auto
qed

lemma index_inv_SREM:
  assumes inv: "index_inv U T X t ks" and gone: "lookup t ks (refresh_key U jti) = None"
  shows "index_inv U T X t (snd (ks_exec (SREM (sessions_key U u) (uuid_show U jti)) t ks))"
  using inv
proof (cases rule: sessions_cases [of T X t ks u])
  case 1
  with inv show ?thesis by simp
next
  case (2 ms d)
  have kept: "uuid_show U j \<in> set (removeAll (uuid_show U jti) ms) \<and> outlives d e"
    if e: "j \<notin> X" "ks (refresh_key U j) = Some (RStr (uuid_show U u), e)" "live t e" for j e
  proof -
    from gone e have "j \<noteq> jti" by (auto simp: lookup_None_iff)
    moreover from inv e have "uuid_show U j \<in> set ms \<and> outlives d e"
      by (rule index_inv_coveredD) (simp add: 2)
    ultimately show ?thesis by simp
  qed
  show ?thesis
  proof (cases "removeAll (uuid_show U jti) ms = []")
    case True
    have "index_inv U T X t (ks(sessions_key U u := None))"
      by (rule index_inv_remove_sessions [OF inv]) (use kept True in fastforce)
    with 2 True show ?thesis by simp
  next
    case False
    have "index_inv U T X t (ks(sessions_key U u \<mapsto> (RSet (removeAll (uuid_show U jti) ms), d)))"
      by (rule index_inv_set_sessions [OF inv _ kept]) (simp add: 2 distinct_removeAll)
    with 2 False show ?thesis by simp
  qed
qed

lemma index_inv_DEL_refresh:
  "index_inv U T X t ks \<Longrightarrow> index_inv U T X t (snd (ks_exec (DEL (refresh_str_key s)) t ks))"
  using index_inv_remove_refresh by simp

lemma index_inv_DEL_sessions:
  assumes "index_inv U T X t ks"
    and "\<And>jti e. jti \<notin> X \<Longrightarrow> ks (refresh_key U jti) = Some (RStr (uuid_show U u), e) \<Longrightarrow> \<not> live t e"
  shows "index_inv U T X t (snd (ks_exec (DEL (sessions_key U u)) t ks))"
  using index_inv_remove_sessions [OF assms] by simp

text \<open>The table after each command of the store.\<close>

lemma session_of_cong: "ks (refresh_key U j) = ks' (refresh_key U j) \<Longrightarrow> session_of U t ks j = session_of U t ks' j"
  by (simp add: session_of_def lookup_def)

lemma session_of_remove:
  "session_of U t (ks(refresh_str_key s := None)) j
    = (if uuid_show U j = s then None else session_of U t ks j)"
  by (simp add: session_of_def refresh_key_def)

lemma session_of_GETDEL:
  assumes "well_typed U ks" and "t \<le> t'"
  shows "session_of U t' (snd (ks_exec (GETDEL (refresh_key U jti)) t ks))
    = (session_of U t' ks)(jti := None)"
proof -
  consider "lookup t ks (refresh_key U jti) = None"
    | u d where "lookup t ks (refresh_key U jti) = Some (RStr (uuid_show U u), d)"
    using typed_lookups(1) [OF assms(1), of t jti] by (elim disjE exE)
  then show ?thesis
  proof cases
    case 1
    with \<open>t \<le> t'\<close> have "lookup t' ks (refresh_key U jti) = None"
      by (metis lookup_mono option.exhaust)
    with 1 show ?thesis by (auto simp: fun_eq_iff session_of_def)
  next
    case 2
    then show ?thesis
      by (auto simp: fun_eq_iff session_of_remove [folded refresh_key_def] refresh_key_def)
  qed
qed

lemma session_of_run_store:
  assumes "sint ttl = uint ttl" and "0 < uint ttl" and "t \<le> t'"
  shows "session_of U t' (ks_run (store_cmds U jti u ttl) t ks)
    = (session_of U t' ks)(jti := if t' < t + secs (uint ttl) then Some u else None)"
proof
  fix j
  let ?ks = "snd (ks_exec (SETEX (refresh_key U jti) (uint ttl) (uuid_show U u)) t ks)"
  have "ks_run (store_cmds U jti u ttl) t ks (refresh_key U j) = ?ks (refresh_key U j)"
    using ks_run_frame [where cs = "tl (store_cmds U jti u ttl)" and k = "refresh_key U j" and ks = ?ks]
    by (simp add: store_cmds_def del: ks_exec.simps)
  then have "session_of U t' (ks_run (store_cmds U jti u ttl) t ks) j = session_of U t' ?ks j"
    by (rule session_of_cong)
  then show "session_of U t' (ks_run (store_cmds U jti u ttl) t ks) j
      = ((session_of U t' ks)(jti := if t' < t + secs (uint ttl) then Some u else None)) j"
    using assms by (auto simp: session_of_def)
qed

lemma session_of_run_dels:
  "session_of U t (ks_run (map (\<lambda>s. DEL (refresh_str_key s)) js) t0 ks) j
    = (if uuid_show U j \<in> set js then None else session_of U t ks j)"
  by (induction js arbitrary: ks) (auto simp: session_of_remove)

lemma session_of_run_revoke:
  "session_of U t (ks_run (revoke_cmds U u js) t0 ks) j
    = (if uuid_show U j \<in> set js then None else session_of U t ks j)"
proof -
  let ?ks = "ks_run (map (\<lambda>s. DEL (refresh_str_key s)) js) t0 ks"
  have "session_of U t (ks_run (revoke_cmds U u js) t0 ks) j = session_of U t ?ks j"
    by (rule session_of_cong) (simp add: revoke_cmds_def ks_run_append)
  then show ?thesis by (simp add: session_of_run_dels)
qed

end

lemma del_all_ok: "ks_all_ok (map (\<lambda>s. DEL (k s)) xs @ [DEL y]) t ks"
  by (induction xs arbitrary: ks) auto

section \<open>The operations on the service\<close>

locale session_cache = redis_service R \<alpha> + uuid_codec U
  for R :: "'r redis_api" and \<alpha> :: "'r \<Rightarrow> keyspace" and U :: uuid_lib
begin

lemma store_ok:
  assumes "store_refresh_token R U jti u ttl t r = (Inr (), r')"
  shows "ks_all_ok (store_cmds U jti u ttl) t (\<alpha> r)"
    and "\<alpha> r' = ks_run (store_cmds U jti u ttl) t (\<alpha> r)"
  using assms unfolding store_refresh_token_def
  by (auto elim!: bindE_InrE dest!: pipe_ok connect)

text \<open>
  The store keeps the index complete for every token but the one it is storing, even when the
  pipeline is cut, and for that one too when it is answered.
\<close>

lemma store_index_any:
  assumes inv: "index_inv U (uint ttl) X t (\<alpha> r)"
    and ttl: "sint ttl = uint ttl" "0 < uint ttl"
    and run: "store_refresh_token R U jti u ttl t r = (x, r')"
  shows "index_inv U (uint ttl) (insert jti X) t (\<alpha> r')"
proof -
  have step: "index_inv U (uint ttl) (insert jti X) t (snd (ks_exec c t ks))"
    if "c \<in> set (store_cmds U jti u ttl)"
      and "index_inv U (uint ttl) (insert jti X) t ks" for c ks
    using that(1) index_inv_SETEX [OF that(2) ttl(2), of jti u] index_inv_SADD [OF that(2)]
      index_inv_EXPIRE [OF that(2) ttl(2)]
    by (auto simp: store_cmds_def ttl(1) simp del: ks_exec.simps)
  have "keeps (\<lambda>r. index_inv U (uint ttl) (insert jti X) t (\<alpha> r)) (store_refresh_token R U jti u ttl t)"
    unfolding store_refresh_token_def
    by (intro steps_rules keeps_pipe) (rule step)
  from stepsD [OF this run] show ?thesis
    using index_inv_weaken [OF inv] by blast
qed

lemma store_entries:
  assumes inv: "well_typed U (\<alpha> r)"
    and ttl: "sint ttl = uint ttl" "0 < uint ttl"
    and run: "store_refresh_token R U jti u ttl t r = (Inr (), r')"
  obtains ms where "\<alpha> r' (refresh_key U jti) = Some (RStr (uuid_show U u), Some (t + secs (uint ttl)))"
    and "\<alpha> r' (sessions_key U u) = Some (RSet ms, Some (t + secs (uint ttl)))"
    and "uuid_show U jti \<in> set ms"
proof -
  consider "lookup t (\<alpha> r) (sessions_key U u) = None"
    | ms d where "lookup t (\<alpha> r) (sessions_key U u) = Some (RSet ms, d)"
    using typed_lookups(2) [OF inv, of t u] by (elim disjE exE conjE)
  then show ?thesis
  proof cases
    case 1
    with store_ok(2) [OF run] ttl show ?thesis by (intro that) (auto simp: store_cmds_def)
  next
    case (2 ms d)
    moreover from 2 have "live t d" by (simp add: lookup_Some_iff)
    ultimately show ?thesis
      using store_ok(2) [OF run] ttl by (intro that) (auto simp: store_cmds_def)
  qed
qed

lemma store_index_ok:
  assumes inv: "index_inv U (uint ttl) X t (\<alpha> r)"
    and ttl: "sint ttl = uint ttl" "0 < uint ttl"
    and run: "store_refresh_token R U jti u ttl t r = (Inr (), r')"
  shows "index_inv U (uint ttl) X t (\<alpha> r')"
proof -
  have "index_inv U (uint ttl) (insert jti X) t (\<alpha> r')"
    using inv ttl run by (rule store_index_any)
  moreover obtain ms where
    "\<alpha> r' (refresh_key U jti) = Some (RStr (uuid_show U u), Some (t + secs (uint ttl)))"
    "\<alpha> r' (sessions_key U u) = Some (RSet ms, Some (t + secs (uint ttl)))"
    "uuid_show U jti \<in> set ms"
    using inv ttl run by (elim store_entries [rotated 3]) (simp_all add: index_inv_def)
  ultimately show ?thesis unfolding index_inv_def by (blast intro: covered_insertD)
qed

lemma store_session_of:
  assumes "sint ttl = uint ttl" "0 < uint ttl" and "t \<le> t'"
    and "store_refresh_token R U jti u ttl t r = (Inr (), r')"
  shows "session_of U t' (\<alpha> r')
    = (session_of U t' (\<alpha> r))(jti := if t' < t + secs (uint ttl) then Some u else None)"
  using session_of_run_store [OF assms(1-3)] store_ok(2) [OF assms(4)] by simp

text \<open>Revocation of one token.\<close>

lemma getdel_reply:
  assumes wt: "well_typed U (\<alpha> r)"
    and run: "rd_query R (GETDEL (refresh_key U jti)) (to_opt_string R) t r = (Inr v, r')"
  shows "v = map_option (uuid_show U) (session_of U t (\<alpha> r) jti)"
    and "\<alpha> r' = snd (ks_exec (GETDEL (refresh_key U jti)) t (\<alpha> r))"
proof -
  obtain rep rep' where rep: "ks_exec (GETDEL (refresh_key U jti)) t (\<alpha> r) = (Inr rep', \<alpha> r')"
      "same_reply rep rep'" "to_opt_string R rep = Inr v"
    using run by (rule query_InrE)
  then show "\<alpha> r' = snd (ks_exec (GETDEL (refresh_key U jti)) t (\<alpha> r))" by simp
  from wt have "lookup t (\<alpha> r) (refresh_key U jti) = None \<or>
      (\<exists>u d. lookup t (\<alpha> r) (refresh_key U jti) = Some (RStr (uuid_show U u), d))"
    by (rule typed_lookups)
  with rep show "v = map_option (uuid_show U) (session_of U t (\<alpha> r) jti)"
    by (auto simp: session_of_def opt_string_nil opt_string_bulk)
qed

lemma drop_from_index_frame: "frames (\<lambda>r. session_of U t' (\<alpha> r)) (drop_from_index R U jti val t)"
proof -
  have "frames (\<lambda>r. session_of U t' (\<alpha> r)) (rd_exec R (SREM (sessions_key U u) m) t)" for u m
  proof (rule stepsI)
    fix r x r' assume "rd_exec R (SREM (sessions_key U u) m) t r = (x, r')"
    then have "\<alpha> r' (refresh_key U j) = \<alpha> r (refresh_key U j)" for j
      by (rule exec_state [THEN disjE]) (simp_all add: ks_exec_frame del: ks_exec.simps)
    then show "session_of U t' (\<alpha> r') = session_of U t' (\<alpha> r)" by (intro ext session_of_cong)
  qed
  then show ?thesis
    unfolding drop_from_index_def by (auto split: option.split intro!: steps_rules)
qed

lemma revoke_ok:
  assumes wt: "well_typed U (\<alpha> r)"
    and run: "revoke_refresh_token R U jti t r = (Inr v, r')"
  shows "v = session_of U t (\<alpha> r) jti"
    and "t \<le> t' \<Longrightarrow> session_of U t' (\<alpha> r') = (session_of U t' (\<alpha> r))(jti := None)"
proof -
  obtain r1 val r2 where conn: "rd_connect R r = (Inr (), r1)"
    and get: "rd_query R (GETDEL (refresh_key U jti)) (to_opt_string R) t r1 = (Inr val, r2)"
    and v: "v = Option.bind val (uuid_parse U)"
    and drop: "drop_from_index R U jti val t r2 = (Inr (), r')"
    using run unfolding revoke_refresh_token_def by (auto elim!: bindE_InrE)
  have \<alpha>1: "\<alpha> r1 = \<alpha> r" using conn by (rule connect)
  with wt have wt1: "well_typed U (\<alpha> r1)" by simp
  note g = getdel_reply [OF wt1 get]
  from g(1) show "v = session_of U t (\<alpha> r) jti"
    unfolding v by (cases "session_of U t (\<alpha> r) jti") (simp_all add: \<alpha>1)
  have "session_of U t' (\<alpha> r') = session_of U t' (\<alpha> r2)" for t'
    using stepsD [OF drop_from_index_frame drop] by simp
  then show "t \<le> t' \<Longrightarrow> session_of U t' (\<alpha> r') = (session_of U t' (\<alpha> r))(jti := None)"
    using session_of_GETDEL [OF wt1] by (simp add: g(2) \<alpha>1 del: ks_exec.simps)
qed

lemma getdel_gone:
  assumes "well_typed U ks"
  shows "lookup t (snd (ks_exec (GETDEL (refresh_key U jti)) t ks)) (refresh_key U jti) = None"
  using typed_lookups(1) [OF assms, of t jti] by (elim disjE exE) simp_all

lemma drop_from_index_keeps:
  "keeps (\<lambda>r. index_inv U T X t (\<alpha> r) \<and> lookup t (\<alpha> r) (refresh_key U jti) = None)
    (drop_from_index R U jti val t)"
proof -
  have "keeps (\<lambda>r. index_inv U T X t (\<alpha> r) \<and> lookup t (\<alpha> r) (refresh_key U jti) = None)
      (rd_exec R (SREM (sessions_key U u) (uuid_show U jti)) t)" for u
    by (rule keeps_exec) (simp add: index_inv_SREM lookup_def ks_exec_frame del: ks_exec.simps)
  then show ?thesis
    unfolding drop_from_index_def by (auto split: option.split intro!: steps_rules)
qed

lemma revoke_index_keeps:
  "keeps (\<lambda>r. index_inv U T X t (\<alpha> r)) (revoke_refresh_token R U jti t)"
proof (rule stepsI, rule impI)
  fix r x r' assume run: "revoke_refresh_token R U jti t r = (x, r')"
    and inv: "index_inv U T X t (\<alpha> r)"
  from run show "index_inv U T X t (\<alpha> r')"
    unfolding revoke_refresh_token_def
  proof (cases rule: bindE_cases)
    case (fails e)
    with inv show ?thesis by (auto simp: mapErrE_Inl_iff dest!: connect)
  next
    case (returns a r1)
    then have inv1: "index_inv U T X t (\<alpha> r1)" using inv by (auto dest!: connect)
    from returns(2) show ?thesis
    proof (cases rule: bindE_cases)
      case (fails e)
      then have "\<alpha> r' = \<alpha> r1 \<or> \<alpha> r' = snd (ks_exec (GETDEL (refresh_key U jti)) t (\<alpha> r1))"
        by (auto simp: mapErrE_Inl_iff dest!: query_state)
      then show ?thesis using inv1 index_inv_GETDEL [OF inv1] by metis
    next
      case (returns val r2)
      then have "\<alpha> r2 = snd (ks_exec (GETDEL (refresh_key U jti)) t (\<alpha> r1))"
        using inv1 getdel_reply(2) by (simp add: index_inv_def del: ks_exec.simps)
      with inv1 have "index_inv U T X t (\<alpha> r2) \<and> lookup t (\<alpha> r2) (refresh_key U jti) = None"
        using index_inv_GETDEL [OF inv1] getdel_gone index_inv_def by metis
      moreover from returns(2) have "snd (drop_from_index R U jti val t r2) = r'"
        by (cases rule: bindE_cases) auto
      ultimately show ?thesis
        using drop_from_index_keeps [of T X t jti val] by (auto simp: steps_def)
    qed
  qed
qed

text \<open>Revocation of all tokens of a user.\<close>

lemma smembers_reply:
  assumes wt: "well_typed U (\<alpha> r)" and \<alpha>1: "\<alpha> r1 = \<alpha> r"
    and get: "rd_query R (SMEMBERS (sessions_key U u)) (to_strings R) t r1 = (Inr js, r2)"
  shows "set js = indexed U t (\<alpha> r) u" and "length js = card (set js)" and "\<alpha> r2 = \<alpha> r"
proof -
  obtain rep rep' where rep: "ks_exec (SMEMBERS (sessions_key U u)) t (\<alpha> r1) = (Inr rep', \<alpha> r2)"
      "same_reply rep rep'" "to_strings R rep = Inr js"
    using get by (rule query_InrE)
  with typed_lookups(2) [OF wt, of t u]
  show "set js = indexed U t (\<alpha> r) u" "length js = card (set js)" "\<alpha> r2 = \<alpha> r"
    by (auto simp: \<alpha>1 indexed_def same_reply_Arr strings_arr distinct_card)
qed

lemma revoke_all_ok:
  assumes wt: "well_typed U (\<alpha> r)"
    and run: "revoke_all_sessions R U u t r = (Inr n, r')"
  shows "n = card (indexed U t (\<alpha> r) u)"
    and "session_of U t' (\<alpha> r') j
      = (if uuid_show U j \<in> indexed U t (\<alpha> r) u then None else session_of U t' (\<alpha> r) j)"
proof -
  obtain r1 js r2 where conn: "rd_connect R r = (Inr (), r1)"
    and get: "rd_query R (SMEMBERS (sessions_key U u)) (to_strings R) t r1 = (Inr js, r2)"
    and rest: "(if length js = 0 then okE 0
      else bindE (mapErrE Cache (rd_pipe R (revoke_cmds U u js) t)) (\<lambda>_. okE (length js))) r2 = (Inr n, r')"
    using run unfolding revoke_all_sessions_def by (elim bindE_InrE) auto
  have \<alpha>1: "\<alpha> r1 = \<alpha> r" using conn by (rule connect)
  note js = smembers_reply(1,2) [OF wt \<alpha>1 get] and \<alpha>2 = smembers_reply(3) [OF wt \<alpha>1 get]
  show "n = card (indexed U t (\<alpha> r) u)"
    using rest js by (auto split: if_splits elim!: bindE_InrE)
  show "session_of U t' (\<alpha> r') j
      = (if uuid_show U j \<in> indexed U t (\<alpha> r) u then None else session_of U t' (\<alpha> r) j)"
  proof (cases "js = []")
    case True
    with rest js \<alpha>2 show ?thesis by auto
  next
    case False
    with rest have "\<alpha> r' = ks_run (revoke_cmds U u js) t (\<alpha> r)"
      using \<alpha>2 by (auto elim!: bindE_InrE dest!: pipe_ok)
    then show ?thesis by (simp add: session_of_run_revoke js)
  qed
qed

text \<open>With a complete index, no session of the user is left, save the exempt ones.\<close>

lemma indexed_if_session:
  assumes inv: "index_inv U T X t ks" and "session_of U t ks j = Some u" and "j \<notin> X"
  shows "uuid_show U j \<in> indexed U t ks u"
proof -
  from assms obtain d where "ks (refresh_key U j) = Some (RStr (uuid_show U u), d)" "live t d"
    by (auto simp: index_inv_def session_of_Some_iff)
  with inv \<open>j \<notin> X\<close> show ?thesis
    by (elim index_inv_coveredD) (auto simp: indexed_def)
qed

lemma revoke_all_complete:
  assumes inv: "index_inv U T X t (\<alpha> r)"
    and run: "revoke_all_sessions R U u t r = (Inr n, r')"
    and "session_of U t' (\<alpha> r') j = Some u" and "t \<le> t'"
  shows "j \<in> X"
proof (rule ccontr)
  assume "j \<notin> X"
  have wt: "well_typed U (\<alpha> r)" using inv by (simp add: index_inv_def)
  from assms(3) revoke_all_ok(2) [OF wt run, of t' j]
  have "uuid_show U j \<notin> indexed U t (\<alpha> r) u" and "session_of U t' (\<alpha> r) j = Some u"
    by (auto split: if_splits)
  moreover from this(2) have "session_of U t (\<alpha> r) j = Some u"
    using wt \<open>t \<le> t'\<close> by (auto simp: session_of_Some_iff intro: live_mono)
  ultimately show False using indexed_if_session [OF inv _ \<open>j \<notin> X\<close>] by blast
qed

lemma revoke_run_keeps:
  assumes inv: "index_inv U T X t ks" and js: "indexed U t ks u \<subseteq> set js"
  shows "index_inv U T X t (ks_run (take n (revoke_cmds U u js)) t ks)"
proof -
  let ?dels = "map (\<lambda>s. DEL (refresh_str_key s)) js"
  have dels: "index_inv U T X t (ks_run (take m ?dels) t ks)" for m
    by (rule ks_run_keeps [where I = "index_inv U T X t"])
      (use inv index_inv_DEL_refresh in \<open>auto dest!: in_set_takeD simp del: ks_exec.simps\<close>)
  show ?thesis
  proof (cases "n \<le> length js")
    case True
    then show ?thesis using dels [of n] by (simp add: revoke_cmds_def)
  next
    case False
    let ?ks = "ks_run ?dels t ks"
    have "index_inv U T X t (snd (ks_exec (DEL (sessions_key U u)) t ?ks))"
    proof (rule index_inv_DEL_sessions)
      show inv2: "index_inv U T X t ?ks" using dels [of "length js"] by simp
      fix j e assume j: "j \<notin> X" "?ks (refresh_key U j) = Some (RStr (uuid_show U u), e)"
      show "\<not> live t e"
      proof
        assume "live t e"
        with j inv2 have "session_of U t ?ks j = Some u"
          by (auto simp: session_of_Some_iff index_inv_def)
        then have "uuid_show U j \<notin> set js" "session_of U t ks j = Some u"
          by (auto simp: session_of_run_dels split: if_splits)
        with j inv js show False by (blast dest: indexed_if_session)
      qed
    qed
    with False show ?thesis by (simp add: revoke_cmds_def ks_run_append)
  qed
qed

lemma revoke_all_index_keeps:
  "keeps (\<lambda>r. index_inv U T X t (\<alpha> r)) (revoke_all_sessions R U u t)"
proof (rule stepsI, rule impI)
  fix r x r' assume run: "revoke_all_sessions R U u t r = (x, r')"
    and inv: "index_inv U T X t (\<alpha> r)"
  have same: "snd (ks_exec (SMEMBERS (sessions_key U u)) t ks) = ks" for ks
    by (auto split: option.split redis_value.split)
  from run show "index_inv U T X t (\<alpha> r')"
    unfolding revoke_all_sessions_def
  proof (cases rule: bindE_cases)
    case (fails e)
    with inv show ?thesis by (auto simp: mapErrE_Inl_iff dest!: connect)
  next
    case (returns a r1)
    then have \<alpha>1: "\<alpha> r1 = \<alpha> r" by (auto dest!: connect)
    from returns(2) show ?thesis
    proof (cases rule: bindE_cases)
      case (fails e)
      with inv same \<alpha>1 show ?thesis by (auto simp: mapErrE_Inl_iff dest!: query_state)
    next
      case (returns js r2)
      then have get: "rd_query R (SMEMBERS (sessions_key U u)) (to_strings R) t r1 = (Inr js, r2)" by simp
      from inv have wt: "well_typed U (\<alpha> r)" by (simp add: index_inv_def)
      note js = smembers_reply [OF wt \<alpha>1 get]
      show ?thesis
      proof (cases "js = []")
        case True
        with returns(2) inv js show ?thesis by auto
      next
        case False
        with returns(2) obtain y where "rd_pipe R (revoke_cmds U u js) t r2 = (y, r')"
          by (auto elim!: bindE_cases simp: mapErrE_Inl_iff)
        then obtain n where "\<alpha> r' = ks_run (take n (revoke_cmds U u js)) t (\<alpha> r)"
          using pipe_state js by metis
        then show ?thesis using revoke_run_keeps [OF inv] js by simp
      qed
    qed
  qed
qed

end

end
