(* ===== verification/Lockout_Store.thy ===== *)
theory Lockout_Store
  imports Token_Store
begin

text \<open>
  \<open>src/data/lockout_store.rs\<close>: the counter of failed logins of an email address,
  \<open>lockout:<email>\<close> in the cache. What the login handler relies on is the locale \<open>failure_counter\<close>:
  the counter goes up with each recorded failure, lives for a window after the last one, and is gone
  after \<open>clear\<close>. The store on any cache service satisfies it (\<open>sublocale\<close> at the end), and the facts
  about runs of failures are proved once, inside the interface.
\<close>

section \<open>The operations\<close>

definition LOCKOUT_MAX :: u32 where
  "LOCKOUT_MAX = 10"

definition LOCKOUT_WINDOW_SECS :: int where
  "LOCKOUT_WINDOW_SECS = 900"

definition lockout_key :: "string \<Rightarrow> string" where
  "lockout_key email = ''lockout:'' @ email"

definition is_locked :: "'r redis_api \<Rightarrow> string \<Rightarrow> instant \<Rightarrow> ('r, data_error, bool) io" where
  "is_locked R email t =
     bindE (mapErrE Cache (rd_connect R)) (\<lambda>_.
     bindE (mapErrE Cache (rd_query R (GET (lockout_key email)) (to_opt_u32 R) t)) (\<lambda>count.
     okE (LOCKOUT_MAX \<le> (case count of None \<Rightarrow> 0 | Some n \<Rightarrow> n))))"

definition record_failure :: "'r redis_api \<Rightarrow> string \<Rightarrow> instant \<Rightarrow> ('r, data_error, u32) io" where
  "record_failure R email t =
     bindE (mapErrE Cache (rd_connect R)) (\<lambda>_.
     bindE (mapErrE Cache (rd_query R (INCRBY (lockout_key email) 1) (to_u32 R) t)) (\<lambda>count.
     bindE (mapErrE Cache (rd_exec R (EXPIRE (lockout_key email) LOCKOUT_WINDOW_SECS) t)) (\<lambda>_.
     okE count)))"

definition clear_failures :: "'r redis_api \<Rightarrow> string \<Rightarrow> instant \<Rightarrow> ('r, data_error, unit) io" where
  "clear_failures R email t =
     bindE (mapErrE Cache (rd_connect R)) (\<lambda>_.
     bindE (mapErrE Cache (rd_exec R (DEL (lockout_key email)) t)) (\<lambda>_.
     okE ()))"

section \<open>The contract of a failure counter\<close>

locale failure_counter =
  fixes failures :: "instant \<Rightarrow> 's \<Rightarrow> string \<Rightarrow> int"
    and inv :: "'s \<Rightarrow> bool"
    and locked :: "string \<Rightarrow> instant \<Rightarrow> ('s, 'e, bool) io"
    and record_fail :: "string \<Rightarrow> instant \<Rightarrow> ('s, 'e, u32) io"
    and clear :: "string \<Rightarrow> instant \<Rightarrow> ('s, 'e, unit) io"
    and limit :: int and window :: int
  assumes window_pos: "0 < window" and limit_pos: "0 < limit"
    and failures_nonneg: "inv s \<Longrightarrow> 0 \<le> failures t s e"
    and locked_ok: "inv s \<Longrightarrow> locked e t s = (Inr b, s') \<Longrightarrow>
      (b \<longleftrightarrow> limit \<le> failures t s e) \<and> inv s' \<and> (\<forall>t'. failures t' s' = failures t' s)"
    and record_ok: "inv s \<Longrightarrow> failures t s e < limit \<Longrightarrow> record_fail e t s = (Inr c, s') \<Longrightarrow> t \<le> t' \<Longrightarrow>
      inv s' \<and> c = of_int (failures t s e + 1) \<and>
      failures t' s' = (failures t' s)(e := if t' < t + secs window then failures t s e + 1 else 0)"
    and clear_ok: "inv s \<Longrightarrow> clear e t s = (Inr u, s') \<Longrightarrow> t \<le> t' \<Longrightarrow>
      inv s' \<and> failures t' s' = (failures t' s)(e := 0)"
begin

text \<open>A run of failures for one address at the given times.\<close>

fun record_all :: "string \<Rightarrow> instant list \<Rightarrow> ('s, 'e, unit) io" where
  "record_all e [] = okE ()"
| "record_all e (t # ts) = bindE (record_fail e t) (\<lambda>_. record_all e ts)"

text \<open>The times are increasing and each is within the window of the one before.\<close>

fun in_window :: "instant \<Rightarrow> instant list \<Rightarrow> bool" where
  "in_window t [] = True"
| "in_window t (t' # ts) = (t \<le> t' \<and> t' < t + secs window \<and> in_window t' ts)"

lemma record_all_count:
  assumes "record_all e ts s = (Inr u, s')" and "inv s" and "in_window t ts"
    and "failures t s e + int (length ts) \<le> limit"
    and "\<And>t'. t \<le> t' \<Longrightarrow> t' < t + secs window \<Longrightarrow> failures t' s e = failures t s e"
    and "last (t # ts) \<le> t'" and "t' < last (t # ts) + secs window"
  shows "inv s' \<and> failures t' s' e = failures t s e + int (length ts)"
  using assms
proof (induction ts arbitrary: t s)
  case Nil
  then show ?case by auto
next
  case (Cons t1 ts)
  from Cons.prems(1) obtain c s1 where rec: "record_fail e t1 s = (Inr c, s1)"
    and rest: "record_all e ts s1 = (Inr u, s')" by (auto elim: bindE_InrE)
  have now: "failures t1 s e = failures t s e" using Cons.prems(3,5) by simp
  have below: "failures t1 s e < limit" using Cons.prems(4) now by simp
  note step = record_ok [OF Cons.prems(2) below rec]
  have f1: "failures t'' s1 e = (if t'' < t1 + secs window then failures t s e + 1 else 0)" if "t1 \<le> t''" for t''
    using step [OF that] now by simp
  have at1: "failures t1 s1 e = failures t s e + 1" using f1 window_pos by simp
  have "inv s' \<and> failures t' s' e = failures t1 s1 e + int (length ts)"
  proof (rule Cons.IH [OF rest])
    show "inv s1" using step [of t1] by simp
    show "in_window t1 ts" using Cons.prems(3) by simp
    show "failures t1 s1 e + int (length ts) \<le> limit" using Cons.prems(4) at1 by simp
    show "\<And>t''. t1 \<le> t'' \<Longrightarrow> t'' < t1 + secs window \<Longrightarrow> failures t'' s1 e = failures t1 s1 e"
      using f1 at1 by simp
    show "last (t1 # ts) \<le> t'" using Cons.prems(6) by simp
    show "t' < last (t1 # ts) + secs window" using Cons.prems(7) by simp
  qed
  with at1 show ?case by simp
qed

text \<open>The limit is reached after exactly \<open>limit\<close> failures in a row, and holds for a window.\<close>

lemma locked_after_run:
  assumes "record_all e ts s = (Inr u, s')" and "inv s" and "in_window t ts"
    and "\<And>t'. t \<le> t' \<Longrightarrow> failures t' s e = 0" and "int (length ts) \<le> limit"
    and "last (t # ts) \<le> t'" and "t' < last (t # ts) + secs window"
    and "locked e t' s' = (Inr b, s'')"
  shows "b \<longleftrightarrow> int (length ts) = limit"
proof -
  have "inv s' \<and> failures t' s' e = failures t s e + int (length ts)"
    using assms by (intro record_all_count) auto
  moreover have "failures t s e = 0" using assms(4) by simp
  ultimately show ?thesis using locked_ok [OF _ assms(8)] assms(5) by auto
qed

end

section \<open>The store satisfies the contract\<close>

definition lockout_failures :: "instant \<Rightarrow> keyspace \<Rightarrow> string \<Rightarrow> int" where
  "lockout_failures t ks email = (case lookup t ks (lockout_key email) of
       Some (RNum n, _) \<Rightarrow> n
     | _ \<Rightarrow> 0)"

text \<open>Counters are numbers between 1 and the limit: nothing is recorded for a locked address.\<close>

definition counters_ok :: "keyspace \<Rightarrow> bool" where
  "counters_ok ks \<longleftrightarrow>
     (\<forall>email v d. ks (lockout_key email) = Some (v, d) \<longrightarrow> (\<exists>n. v = RNum n \<and> 1 \<le> n \<and> n \<le> uint LOCKOUT_MAX))"

lemma uint_LOCKOUT_MAX [simp]: "uint LOCKOUT_MAX = 10"
  by (simp add: LOCKOUT_MAX_def)

lemma lockout_key_inject [simp]: "lockout_key e = lockout_key e' \<longleftrightarrow> e = e'"
  by (simp add: lockout_key_def)

lemma lockout_key_other [simp]:
  "lockout_key e \<noteq> refresh_str_key s" "lockout_key e \<noteq> refresh_key U j" "lockout_key e \<noteq> sessions_key U u"
  "refresh_str_key s \<noteq> lockout_key e" "refresh_key U j \<noteq> lockout_key e" "sessions_key U u \<noteq> lockout_key e"
  by (simp_all add: lockout_key_def refresh_key_def refresh_str_key_def sessions_key_def)

lemma counters_cases:
  assumes "counters_ok ks"
  obtains "lookup t ks (lockout_key e) = None" "lockout_failures t ks e = 0"
  | n d where "lookup t ks (lockout_key e) = Some (RNum n, d)" "live t d" "1 \<le> n" "n \<le> 10"
      "lockout_failures t ks e = n"
proof (cases "lookup t ks (lockout_key e)")
  case None
  then show ?thesis using that by (simp add: lockout_failures_def)
next
  case (Some x)
  then obtain v d where x: "x = (v, d)" "ks (lockout_key e) = Some (v, d)" "live t d"
    by (cases x) (auto simp: lookup_Some_iff)
  then obtain n where "v = RNum n" "1 \<le> n" "n \<le> 10"
    using assms unfolding counters_ok_def uint_LOCKOUT_MAX by blast
  with x Some show ?thesis using that(2) by (simp add: lockout_failures_def)
qed

text \<open>The counter of one address as the code can read it: a positive number of 32 bits.\<close>

definition counter_at :: "instant \<Rightarrow> keyspace \<Rightarrow> string \<Rightarrow> bool" where
  "counter_at t ks e \<longleftrightarrow> (\<forall>v d. lookup t ks (lockout_key e) = Some (v, d) \<longrightarrow> (\<exists>n. v = RNum n \<and> 1 \<le> n \<and> n < 2 ^ 32))"

lemma counter_at_cases:
  assumes "counter_at t ks e"
  obtains "lookup t ks (lockout_key e) = None" "lockout_failures t ks e = 0"
  | n d where "lookup t ks (lockout_key e) = Some (RNum n, d)" "live t d" "1 \<le> n" "n < 2 ^ 32"
      "lockout_failures t ks e = n"
proof (cases "lookup t ks (lockout_key e)")
  case None
  then show ?thesis using that by (simp add: lockout_failures_def)
next
  case (Some x)
  then obtain v d where x: "lookup t ks (lockout_key e) = Some (v, d)" "live t d"
    by (cases x) (auto simp: lookup_Some_iff)
  then obtain n where "v = RNum n" "1 \<le> n" "n < 2 ^ 32" using assms unfolding counter_at_def by blast
  with x show ?thesis using that(2) by (simp add: lockout_failures_def)
qed

lemma counters_ok_at: "counters_ok ks \<Longrightarrow> counter_at t ks e"
  by (cases rule: counters_cases [of ks t e]) (auto simp: counter_at_def)

lemma lockout_failures_bounds:
  assumes "counters_ok ks" shows "0 \<le> lockout_failures t ks e" "lockout_failures t ks e \<le> 10"
  using assms by (cases rule: counters_cases [of ks t e]; simp)+

lemma u32_le_of_int: "0 \<le> n \<Longrightarrow> n < 2 ^ 32 \<Longrightarrow> LOCKOUT_MAX \<le> (of_int n :: u32) \<longleftrightarrow> 10 \<le> n"
  by (simp add: word_le_def uint_word_of_int take_bit_int_eq_self_iff)

lemma counters_ok_remove [intro]: "counters_ok ks \<Longrightarrow> counters_ok (ks(k := None))"
  by (simp add: counters_ok_def)

lemma counters_ok_set:
  "counters_ok ks \<Longrightarrow> 1 \<le> n \<Longrightarrow> n \<le> 10 \<Longrightarrow> counters_ok (ks(lockout_key e \<mapsto> (RNum n, d)))"
  by (simp add: counters_ok_def)

lemma lockout_failures_upd:
  "lockout_failures t (ks(lockout_key e \<mapsto> (RNum n, d)))
    = (lockout_failures t ks)(e := if live t d then n else 0)"
  by (auto simp: lockout_failures_def fun_eq_iff)

lemma lockout_failures_remove:
  "lockout_failures t (ks(lockout_key e := None)) = (lockout_failures t ks)(e := 0)"
  by (auto simp: lockout_failures_def fun_eq_iff)

context redis_service begin

lemma is_locked_at:
  assumes ok: "counter_at t (\<alpha> r) e" and run: "is_locked R e t r = (Inr b, r')"
  shows "b \<longleftrightarrow> 10 \<le> lockout_failures t (\<alpha> r) e" and "\<alpha> r' = \<alpha> r"
proof -
  obtain r1 count where conn: "rd_connect R r = (Inr (), r1)"
    and get: "rd_query R (GET (lockout_key e)) (to_opt_u32 R) t r1 = (Inr count, r')"
    and b: "b \<longleftrightarrow> LOCKOUT_MAX \<le> (case count of None \<Rightarrow> 0 | Some n \<Rightarrow> n)"
    using run unfolding is_locked_def by (auto elim!: bindE_InrE)
  have \<alpha>1: "\<alpha> r1 = \<alpha> r" using conn by (rule connect)
  obtain rep rep' where rep: "ks_exec (GET (lockout_key e)) t (\<alpha> r1) = (Inr rep', \<alpha> r')"
      "same_reply rep rep'" "to_opt_u32 R rep = Inr count"
    using get by (rule query_InrE)
  from ok have "(b \<longleftrightarrow> 10 \<le> lockout_failures t (\<alpha> r) e) \<and> \<alpha> r' = \<alpha> r"
  proof (cases rule: counter_at_cases [of t _ e])
    case 1
    with rep b show ?thesis by (auto simp: \<alpha>1 opt_u32_nil LOCKOUT_MAX_def)
  next
    case (2 n d)
    with rep have "count = Some (of_int n)" "\<alpha> r' = \<alpha> r" by (auto simp: \<alpha>1 opt_u32_num)
    with b 2 u32_le_of_int [of n] show ?thesis by simp
  qed
  then show "b \<longleftrightarrow> 10 \<le> lockout_failures t (\<alpha> r) e" and "\<alpha> r' = \<alpha> r" by simp_all
qed

lemma record_failure_at:
  assumes ok: "counter_at t (\<alpha> r) e" and below: "lockout_failures t (\<alpha> r) e < 10"
    and run: "record_failure R e t r = (Inr c, r')"
  shows "\<alpha> r' = (\<alpha> r)(lockout_key e \<mapsto>
      (RNum (lockout_failures t (\<alpha> r) e + 1), Some (t + secs LOCKOUT_WINDOW_SECS)))"
    and "c = of_int (lockout_failures t (\<alpha> r) e + 1)"
proof -
  let ?n = "lockout_failures t (\<alpha> r) e + 1"
  obtain r1 r2 x where conn: "rd_connect R r = (Inr (), r1)"
    and incr: "rd_query R (INCRBY (lockout_key e) 1) (to_u32 R) t r1 = (Inr c, r2)"
    and expire: "rd_exec R (EXPIRE (lockout_key e) LOCKOUT_WINDOW_SECS) t r2 = (Inr x, r')"
    using run unfolding record_failure_def by (auto elim!: bindE_InrE)
  have \<alpha>1: "\<alpha> r1 = \<alpha> r" using conn by (rule connect)
  obtain rep rep' where rep: "ks_exec (INCRBY (lockout_key e) 1) t (\<alpha> r1) = (Inr rep', \<alpha> r2)"
      "same_reply rep rep'" "to_u32 R rep = Inr c"
    using incr by (rule query_InrE)
  obtain d where \<alpha>2: "\<alpha> r2 = (\<alpha> r)(lockout_key e \<mapsto> (RNum ?n, d))" "live t d"
    and c: "c = of_int ?n"
    using ok
  proof (cases rule: counter_at_cases [of t _ e])
    case 1
    with rep show ?thesis by (intro that [of None]) (auto simp: \<alpha>1 u32_num)
  next
    case (2 n d)
    with rep below have "\<alpha> r2 = (\<alpha> r)(lockout_key e \<mapsto> (RNum (n + 1), d))" "c = of_int (n + 1)"
      by (auto simp: \<alpha>1 u32_num redis_max_def split: if_splits)
    with 2 show ?thesis by (intro that [of d]) simp_all
  qed
  from c show "c = of_int ?n" .
  from expire obtain rep2 where "ks_exec (EXPIRE (lockout_key e) LOCKOUT_WINDOW_SECS) t (\<alpha> r2) = (Inr rep2, \<alpha> r')"
    by (auto dest: exec_ok)
  with \<alpha>2 show "\<alpha> r' = (\<alpha> r)(lockout_key e \<mapsto> (RNum ?n, Some (t + secs LOCKOUT_WINDOW_SECS)))"
    by (simp add: LOCKOUT_WINDOW_SECS_def)
qed

lemma is_locked_ok:
  assumes "counters_ok (\<alpha> r)" and "is_locked R e t r = (Inr b, r')"
  shows "b \<longleftrightarrow> 10 \<le> lockout_failures t (\<alpha> r) e" and "\<alpha> r' = \<alpha> r"
  using is_locked_at [OF counters_ok_at [OF assms(1)] assms(2)] by simp_all

lemma record_failure_ok:
  assumes "counters_ok (\<alpha> r)" and "lockout_failures t (\<alpha> r) e < 10"
    and "record_failure R e t r = (Inr c, r')"
  shows "\<alpha> r' = (\<alpha> r)(lockout_key e \<mapsto>
      (RNum (lockout_failures t (\<alpha> r) e + 1), Some (t + secs LOCKOUT_WINDOW_SECS)))"
    and "c = of_int (lockout_failures t (\<alpha> r) e + 1)"
  using record_failure_at [OF counters_ok_at [OF assms(1)] assms(2,3)] by simp_all

lemma clear_failures_ok:
  assumes run: "clear_failures R e t r = (Inr u, r')"
  shows "\<alpha> r' = (\<alpha> r)(lockout_key e := None)"
proof -
  obtain r1 x where "rd_connect R r = (Inr (), r1)"
    and "rd_exec R (DEL (lockout_key e)) t r1 = (Inr x, r')"
    using run unfolding clear_failures_def by (auto elim!: bindE_InrE)
  then show ?thesis by (auto dest!: exec_ok connect)
qed

end

sublocale redis_service \<subseteq> lockout: failure_counter
  "\<lambda>t r. lockout_failures t (\<alpha> r)" "\<lambda>r. counters_ok (\<alpha> r)"
  "is_locked R" "record_failure R" "clear_failures R" 10 LOCKOUT_WINDOW_SECS
proof unfold_locales
  show "0 < LOCKOUT_WINDOW_SECS" by (simp add: LOCKOUT_WINDOW_SECS_def)
  fix s t e assume ok: "counters_ok (\<alpha> s)"
  show "0 \<le> lockout_failures t (\<alpha> s) e" using ok by (rule lockout_failures_bounds)
next
  fix s e t b s' assume "counters_ok (\<alpha> s)" "is_locked R e t s = (Inr b, s')"
  from is_locked_ok [OF this]
  show "b = (10 \<le> lockout_failures t (\<alpha> s) e) \<and> counters_ok (\<alpha> s')
      \<and> (\<forall>t'. lockout_failures t' (\<alpha> s') = lockout_failures t' (\<alpha> s))"
    using \<open>counters_ok (\<alpha> s)\<close> by simp
next
  fix s t e c s' t'
  assume a: "counters_ok (\<alpha> s)" "lockout_failures t (\<alpha> s) e < 10" "record_failure R e t s = (Inr c, s')"
  have "0 \<le> lockout_failures t (\<alpha> s) e" using a(1) by (rule lockout_failures_bounds)
  with a record_failure_ok [OF a]
  show "counters_ok (\<alpha> s') \<and> c = of_int (lockout_failures t (\<alpha> s) e + 1)
      \<and> lockout_failures t' (\<alpha> s') = (lockout_failures t' (\<alpha> s))
         (e := if t' < t + secs LOCKOUT_WINDOW_SECS then lockout_failures t (\<alpha> s) e + 1 else 0)"
    by (simp add: counters_ok_set lockout_failures_upd)
next
  fix s e t u s' t'
  assume a: "counters_ok (\<alpha> s)" "clear_failures R e t s = (Inr u, s')"
  from a clear_failures_ok [OF a(2)]
  show "counters_ok (\<alpha> s') \<and> lockout_failures t' (\<alpha> s') = (lockout_failures t' (\<alpha> s))(e := 0)"
    by (simp add: lockout_failures_remove counters_ok_remove)
qed simp

end
