(* ===== verification/Schema.thy ===== *)
theory Schema
  imports Data_Error
begin

text \<open>
  The database: the two tables of \<open>migrations/\<close> with their constraints, and the meaning of a
  statement on them. A table is the list of its rows. The statements of the repositories are
  translated from their SQL text; that a statement is run, refused, or run with its answer lost is
  decided by the server and the connection, which are a parameter (\<open>pg_next\<close>), as is the value
  that \<open>gen_random_uuid()\<close> returns.
\<close>

record user =
  user_id :: uuid
  user_email :: string
  password_hash :: string
  created_at :: instant
  updated_at :: instant

record reset_row =
  row_id :: uuid
  row_user_id :: uuid
  token_hash :: string
  expires_at :: instant
  used_at :: "instant option"

record database =
  users :: "user list"
  reset_rows :: "reset_row list"

definition empty_db :: database where
  "empty_db = \<lparr>users = [], reset_rows = []\<rparr>"

section \<open>Statements\<close>

definition sql_update :: "('a \<Rightarrow> bool) \<Rightarrow> ('a \<Rightarrow> 'a) \<Rightarrow> 'a list \<Rightarrow> 'a list" where
  "sql_update p f rows = map (\<lambda>r. if p r then f r else r) rows"

definition sql_delete :: "('a \<Rightarrow> bool) \<Rightarrow> 'a list \<Rightarrow> 'a list" where
  "sql_delete p rows = filter (\<lambda>r. \<not> p r) rows"

type_synonym 'a statement = "database \<Rightarrow> (sqlx_error + 'a) \<times> database"

text \<open>
  \<open>fetch_one\<close> and \<open>fetch_optional\<close> take the first row; a statement that violates a constraint
  changes nothing. \<open>UNIQUE\<close> and \<open>PRIMARY KEY\<close> refuse an insert whose value is already there.
\<close>

definition insert_user :: "uuid \<Rightarrow> string \<Rightarrow> string \<Rightarrow> instant \<Rightarrow> user statement" where
  "insert_user new_id email hash t db =
     (if \<exists>u \<in> set (users db). user_id u = new_id \<or> user_email u = email
      then (Inl unique_violation, db)
      else let row = \<lparr>user_id = new_id, user_email = email, password_hash = hash,
                       created_at = t, updated_at = t\<rparr>
           in (Inr row, db\<lparr>users := users db @ [row]\<rparr>))"

definition select_user :: "(user \<Rightarrow> bool) \<Rightarrow> user option statement" where
  "select_user p db = (Inr (List.find p (users db)), db)"

definition update_user_password :: "uuid \<Rightarrow> string \<Rightarrow> instant \<Rightarrow> nat statement" where
  "update_user_password uid new_hash t db =
     (Inr (length (filter (\<lambda>u. user_id u = uid) (users db))),
      db\<lparr>users := sql_update (\<lambda>u. user_id u = uid)
                     (\<lambda>u. u\<lparr>password_hash := new_hash, updated_at := t\<rparr>) (users db)\<rparr>)"

text \<open>\<open>ON DELETE CASCADE\<close>: the reset tokens of a deleted user go with the row.\<close>

definition delete_user :: "uuid \<Rightarrow> unit statement" where
  "delete_user uid db =
     (Inr (), db\<lparr>users := sql_delete (\<lambda>u. user_id u = uid) (users db),
                 reset_rows := sql_delete (\<lambda>r. row_user_id r = uid) (reset_rows db)\<rparr>)"

definition insert_reset_row ::
    "uuid \<Rightarrow> uuid \<Rightarrow> string \<Rightarrow> instant \<Rightarrow> unit statement" where
  "insert_reset_row new_id uid hash expires db =
     (if \<exists>r \<in> set (reset_rows db). row_id r = new_id \<or> token_hash r = hash
      then (Inl unique_violation, db)
      else if \<not> (\<exists>u \<in> set (users db). user_id u = uid)
      then (Inl foreign_key_violation, db)
      else (Inr (), db\<lparr>reset_rows := reset_rows db @
              [\<lparr>row_id = new_id, row_user_id = uid, token_hash = hash,
                expires_at = expires, used_at = None\<rparr>]\<rparr>))"

definition consumable :: "string \<Rightarrow> instant \<Rightarrow> reset_row \<Rightarrow> bool" where
  "consumable hash t r \<longleftrightarrow> token_hash r = hash \<and> used_at r = None \<and> t < expires_at r"

definition consume_reset_row :: "string \<Rightarrow> instant \<Rightarrow> uuid option statement" where
  "consume_reset_row hash t db =
     (Inr (map_option row_user_id (List.find (consumable hash t) (reset_rows db))),
      db\<lparr>reset_rows := sql_update (consumable hash t) (\<lambda>r. r\<lparr>used_at := Some t\<rparr>) (reset_rows db)\<rparr>)"

section \<open>The constraints as an invariant\<close>

definition db_ok :: "database \<Rightarrow> bool" where
  "db_ok db \<longleftrightarrow>
     distinct (map user_id (users db)) \<and> distinct (map user_email (users db))
     \<and> distinct (map row_id (reset_rows db)) \<and> distinct (map token_hash (reset_rows db))
     \<and> row_user_id ` set (reset_rows db) \<subseteq> user_id ` set (users db)"

named_theorems db_ok_rules

lemma db_ok_empty [db_ok_rules]: "db_ok empty_db"
  by (simp add: db_ok_def empty_db_def)

lemma map_sql_update [simp]: "(\<And>r. f (g r) = f r) \<Longrightarrow> map f (sql_update p g rows) = map f rows"
  by (simp add: sql_update_def)

lemma set_sql_delete [simp]: "set (sql_delete p rows) = {r \<in> set rows. \<not> p r}"
  by (auto simp: sql_delete_def)

lemma distinct_map_sql_delete: "distinct (map f rows) \<Longrightarrow> distinct (map f (sql_delete p rows))"
  by (simp add: sql_delete_def distinct_map_filter)

lemma image_sql_update: "(\<And>r. f (g r) = f r) \<Longrightarrow> f ` set (sql_update p g rows) = f ` set rows"
  by (metis (no_types, lifting) list.set_map map_sql_update)

lemma db_ok_insert_user [db_ok_rules]: "db_ok db \<Longrightarrow> db_ok (snd (insert_user i e h t db))"
  by (auto simp: db_ok_def insert_user_def Let_def)

lemma db_ok_select_user [db_ok_rules]: "db_ok db \<Longrightarrow> db_ok (snd (select_user p db))"
  by (simp add: select_user_def)

lemma db_ok_update_user_password [db_ok_rules]:
  "db_ok db \<Longrightarrow> db_ok (snd (update_user_password i h t db))"
  by (simp add: db_ok_def update_user_password_def image_sql_update)

lemma db_ok_delete_user [db_ok_rules]: "db_ok db \<Longrightarrow> db_ok (snd (delete_user i db))"
  by (auto simp: db_ok_def delete_user_def intro!: distinct_map_sql_delete)

lemma db_ok_insert_reset_row [db_ok_rules]:
  "db_ok db \<Longrightarrow> db_ok (snd (insert_reset_row i u h x db))"
  by (auto simp: db_ok_def insert_reset_row_def)

lemma db_ok_consume_reset_row [db_ok_rules]:
  "db_ok db \<Longrightarrow> db_ok (snd (consume_reset_row h t db))"
  by (simp add: db_ok_def consume_reset_row_def image_sql_update)

section \<open>Running a statement\<close>

datatype pg_outcome = Pg_Served | Pg_Refused sqlx_error | Pg_Reply_Lost sqlx_error

record 'g pg_lib =
  pg_next :: "'g \<Rightarrow> pg_outcome \<times> 'g"
  pg_uuid :: "'g \<Rightarrow> uuid \<times> 'g"

definition pg_run :: "('g, 'z) pg_lib_scheme \<Rightarrow> 'a statement \<Rightarrow> (database \<times> 'g, sqlx_error, 'a) io" where
  "pg_run L stmt = (\<lambda>(db, g). case pg_next L g of
       (Pg_Served, g') \<Rightarrow> (fst (stmt db), (snd (stmt db), g'))
     | (Pg_Refused e, g') \<Rightarrow> (Inl e, (db, g'))
     | (Pg_Reply_Lost e, g') \<Rightarrow> (Inl e, (snd (stmt db), g')))"

text \<open>A statement whose row takes its id from \<open>gen_random_uuid()\<close>.\<close>

definition pg_run_with_id ::
    "('g, 'z) pg_lib_scheme \<Rightarrow> (uuid \<Rightarrow> 'a statement) \<Rightarrow> (database \<times> 'g, sqlx_error, 'a) io" where
  "pg_run_with_id L stmt = (\<lambda>(db, g). case pg_uuid L g of (u, g') \<Rightarrow> pg_run L (stmt u) (db, g'))"

lemma pg_run_state:
  "pg_run L stmt (db, g) = (x, (db', g')) \<Longrightarrow> db' = db \<or> db' = snd (stmt db)"
  by (auto simp: pg_run_def split: prod.splits pg_outcome.splits)

lemma keeps_pg_run:
  "(\<And>db. I db \<Longrightarrow> I (snd (stmt db))) \<Longrightarrow> keeps (\<lambda>s. I (fst s)) (pg_run L stmt)"
  by (rule stepsI) (metis pg_run_state prod.collapse)

lemma keeps_pg_run_with_id:
  "(\<And>u db. I db \<Longrightarrow> I (snd (stmt u db))) \<Longrightarrow> keeps (\<lambda>s. I (fst s)) (pg_run_with_id L stmt)"
  by (rule stepsI) (auto simp: pg_run_with_id_def split: prod.splits dest!: pg_run_state)

text \<open>An answered statement was run.\<close>

lemma pg_run_InrE:
  assumes "pg_run L stmt s = (Inr a, s')"
  obtains "stmt (fst s) = (Inr a, fst s')"
  using assms by (auto simp: pg_run_def prod_eq_iff split: prod.splits pg_outcome.splits)

lemma pg_run_with_id_InrE:
  assumes "pg_run_with_id L stmt s = (Inr a, s')"
  obtains u where "stmt u (fst s) = (Inr a, fst s')"
  using assms by (auto simp: pg_run_with_id_def split: prod.splits elim: pg_run_InrE)

end
