(* ===== verification/User_Repository.thy ===== *)
theory User_Repository
  imports Schema
begin

text \<open>
  \<open>src/data/user_repository.rs\<close>: the users table. Each operation runs one statement and reads the
  error of sqlx as a \<open>data_error\<close>.
\<close>

definition create_user ::
    "('g, 'z) pg_lib_scheme \<Rightarrow> string \<Rightarrow> string \<Rightarrow> instant \<Rightarrow> (database \<times> 'g, data_error, user) io" where
  "create_user L email hash t =
     mapErrE from_sqlx (pg_run_with_id L (\<lambda>new_id. insert_user new_id email hash t))"

definition find_by_email ::
    "('g, 'z) pg_lib_scheme \<Rightarrow> string \<Rightarrow> (database \<times> 'g, data_error, user option) io" where
  "find_by_email L email = mapErrE from_sqlx (pg_run L (select_user (\<lambda>u. user_email u = email)))"

definition find_by_id ::
    "('g, 'z) pg_lib_scheme \<Rightarrow> uuid \<Rightarrow> (database \<times> 'g, data_error, user option) io" where
  "find_by_id L uid = mapErrE from_sqlx (pg_run L (select_user (\<lambda>u. user_id u = uid)))"

definition update_password ::
    "('g, 'z) pg_lib_scheme \<Rightarrow> uuid \<Rightarrow> string \<Rightarrow> instant \<Rightarrow> (database \<times> 'g, data_error, unit) io" where
  "update_password L uid new_hash t =
     bindE (mapErrE from_sqlx (pg_run L (update_user_password uid new_hash t))) (\<lambda>rows_affected.
     if rows_affected = 0 then errE NotFound else okE ())"

definition delete_by_id ::
    "('g, 'z) pg_lib_scheme \<Rightarrow> uuid \<Rightarrow> (database \<times> 'g, data_error, unit) io" where
  "delete_by_id L uid = bindE (mapErrE from_sqlx (pg_run L (delete_user uid))) (\<lambda>_. okE ())"

section \<open>What a reader of the table sees\<close>

definition user_with_email :: "database \<Rightarrow> string \<Rightarrow> user option" where
  "user_with_email db email = List.find (\<lambda>u. user_email u = email) (users db)"

definition user_with_id :: "database \<Rightarrow> uuid \<Rightarrow> user option" where
  "user_with_id db uid = List.find (\<lambda>u. user_id u = uid) (users db)"

lemma find_append: "List.find p (xs @ ys) = (case List.find p xs of None \<Rightarrow> List.find p ys | Some x \<Rightarrow> Some x)"
  by (induction xs) auto

lemma find_distinct:
  assumes "distinct (map f xs)" and "x \<in> set xs"
  shows "List.find (\<lambda>y. f y = f x) xs = Some x"
  using assms by (induction xs) (auto simp: image_iff)

lemma find_sql_update:
  assumes "\<And>r. p (g r) = p r"
  shows "List.find p (sql_update q g xs) = map_option (\<lambda>r. if q r then g r else r) (List.find p xs)"
  using assms by (induction xs) (auto simp: sql_update_def)

lemma find_sql_delete:
  "List.find p (sql_delete q xs) = List.find (\<lambda>x. p x \<and> \<not> q x) xs"
  by (induction xs) (auto simp: sql_delete_def)

lemma user_with_email_Some:
  assumes "user_with_email db email = Some u"
  shows "u \<in> set (users db)" "user_email u = email"
  using assms by (auto simp: user_with_email_def find_Some_iff)

lemma user_with_id_Some:
  assumes "user_with_id db uid = Some u"
  shows "u \<in> set (users db)" "user_id u = uid"
  using assms by (auto simp: user_with_id_def find_Some_iff)

text \<open>The two keys of a row lead to the same row.\<close>

lemma by_email_by_id:
  assumes "db_ok db" and "user_with_email db email = Some u"
  shows "user_with_id db (user_id u) = Some u"
  using assms user_with_email_Some [OF assms(2)] find_distinct [of user_id "users db" u]
  by (simp add: db_ok_def user_with_id_def)

lemma by_id_by_email:
  assumes "db_ok db" and "user_with_id db uid = Some u"
  shows "user_with_email db (user_email u) = Some u"
  using assms user_with_id_Some [OF assms(2)] find_distinct [of user_email "users db" u]
  by (simp add: db_ok_def user_with_email_def)

lemma user_with_id_None_iff: "user_with_id db i = None \<longleftrightarrow> (\<forall>u \<in> set (users db). user_id u \<noteq> i)"
  by (auto simp: user_with_id_def find_None_iff)

lemma user_with_email_None_iff:
  "user_with_email db e = None \<longleftrightarrow> (\<forall>u \<in> set (users db). user_email u \<noteq> e)"
  by (auto simp: user_with_email_def find_None_iff)

lemma user_with_id_append:
  "user_with_id (db\<lparr>users := users db @ [u]\<rparr>) i
    = (case user_with_id db i of None \<Rightarrow> if user_id u = i then Some u else None | Some v \<Rightarrow> Some v)"
  by (simp add: user_with_id_def find_append split: option.split)

lemma user_with_id_updated:
  "user_with_id (snd (update_user_password uid h t db)) i
    = map_option (\<lambda>u. if i = uid then u\<lparr>password_hash := h, updated_at := t\<rparr> else u) (user_with_id db i)"
proof -
  have "user_with_id (snd (update_user_password uid h t db)) i
      = map_option (\<lambda>u. if user_id u = uid then u\<lparr>password_hash := h, updated_at := t\<rparr> else u)
          (user_with_id db i)"
    by (simp add: update_user_password_def user_with_id_def find_sql_update)
  then show ?thesis by (cases "user_with_id db i") (auto dest: user_with_id_Some(2))
qed

lemma user_with_id_deleted: "user_with_id (snd (delete_user uid db)) = (user_with_id db)(uid := None)"
proof
  fix i
  have "user_with_id (snd (delete_user uid db)) i
      = List.find (\<lambda>u. user_id u = i \<and> user_id u \<noteq> uid) (users db)"
    by (simp add: delete_user_def user_with_id_def find_sql_delete)
  also have "\<dots> = ((user_with_id db)(uid := None)) i"
  proof (cases "i = uid")
    case True
    then show ?thesis by (auto simp: find_None_iff)
  next
    case False
    then show ?thesis by (auto simp: user_with_id_def intro!: find_cong)
  qed
  finally show "user_with_id (snd (delete_user uid db)) i = ((user_with_id db)(uid := None)) i" .
qed

section \<open>The contract of a user store\<close>

text \<open>
  What the handlers rely on. \<open>view\<close> is the table as a map from ids to users; an answered operation
  changes it in the way the law says. The laws speak of answered calls only.
\<close>

locale user_store =
  fixes view :: "'s \<Rightarrow> uuid \<Rightarrow> user option"
    and inv :: "'s \<Rightarrow> bool"
    and create :: "string \<Rightarrow> string \<Rightarrow> instant \<Rightarrow> ('s, data_error, user) io"
    and find_email :: "string \<Rightarrow> ('s, data_error, user option) io"
    and find_id :: "uuid \<Rightarrow> ('s, data_error, user option) io"
    and update :: "uuid \<Rightarrow> string \<Rightarrow> instant \<Rightarrow> ('s, data_error, unit) io"
    and delete :: "uuid \<Rightarrow> ('s, data_error, unit) io"
  assumes key: "inv s \<Longrightarrow> view s i = Some u \<Longrightarrow> user_id u = i"
    and unique_email: "inv s \<Longrightarrow> view s i = Some u \<Longrightarrow> view s j = Some v \<Longrightarrow>
      user_email u = user_email v \<Longrightarrow> i = j"
    and create_ok: "inv s \<Longrightarrow> create e h t s = (Inr u, s') \<Longrightarrow>
      inv s' \<and> user_email u = e \<and> password_hash u = h \<and> view s (user_id u) = None
      \<and> (\<forall>i v. view s i = Some v \<longrightarrow> user_email v \<noteq> e) \<and> view s' = (view s)(user_id u \<mapsto> u)"
    and create_conflict: "inv s \<Longrightarrow> create e h t s = (Inl EmailConflict, s') \<Longrightarrow> inv s'"
    and find_email_ok: "inv s \<Longrightarrow> find_email e s = (Inr x, s') \<Longrightarrow>
      inv s' \<and> view s' = view s
      \<and> (\<forall>u. x = Some u \<longleftrightarrow> view s (user_id u) = Some u \<and> user_email u = e)"
    and find_id_ok: "inv s \<Longrightarrow> find_id i s = (Inr x, s') \<Longrightarrow> inv s' \<and> view s' = view s \<and> x = view s i"
    and update_ok: "inv s \<Longrightarrow> update i h t s = (Inr y, s') \<Longrightarrow>
      inv s' \<and> (\<exists>u. view s i = Some u
        \<and> view s' = (view s)(i \<mapsto> u\<lparr>password_hash := h, updated_at := t\<rparr>))"
    and update_missing: "inv s \<Longrightarrow> update i h t s = (Inl NotFound, s') \<Longrightarrow> view s i = None"
    and delete_ok: "inv s \<Longrightarrow> delete i s = (Inr y, s') \<Longrightarrow> inv s' \<and> view s' = (view s)(i := None)"
begin

text \<open>A created user is found by the address, with the hash that was stored.\<close>

lemma create_then_find:
  assumes "inv s" and "create e h t s = (Inr u, s1)" and "find_email e s1 = (Inr x, s2)"
  shows "x = Some u" and "password_hash u = h"
proof -
  note c = create_ok [OF assms(1,2)]
  then have "view s1 (user_id u) = Some u \<and> user_email u = e" by simp
  then show "x = Some u" using find_email_ok [OF _ assms(3)] c by blast
  show "password_hash u = h" using c by simp
qed

text \<open>An address that is taken cannot be created again.\<close>

lemma no_second_account:
  assumes "inv s" and "create e h t s = (Inr u, s1)"
  shows "create e h' t' s1 \<noteq> (Inr v, s2)"
  using create_ok [OF assms] create_ok [of s1 e h' t' v s2] by (metis fun_upd_same)

text \<open>A new hash is what the next login reads, at the same address.\<close>

lemma update_then_find:
  assumes "inv s" and "update i h t s = (Inr y, s1)" and "find_email e s1 = (Inr x, s2)"
    and "view s i = Some u" and "user_email u = e"
  shows "\<exists>u'. x = Some u' \<and> user_id u' = i \<and> password_hash u' = h"
proof -
  have "view s1 i = Some (u\<lparr>password_hash := h, updated_at := t\<rparr>)" and "inv s1"
    using update_ok [OF assms(1,2)] assms(4) by auto
  moreover have "user_id u = i" using assms(1,4) by (rule key)
  ultimately have "x = Some (u\<lparr>password_hash := h, updated_at := t\<rparr>)"
    using find_email_ok [OF \<open>inv s1\<close> assms(3)] assms(5) by simp
  with \<open>user_id u = i\<close> show ?thesis by simp
qed

text \<open>A deleted user is not found under the address any more.\<close>

lemma delete_then_find:
  assumes "inv s" and "delete i s = (Inr y, s1)" and "find_email e s1 = (Inr x, s2)"
    and "view s i = Some u" and "user_email u = e"
  shows "x = None"
proof (rule ccontr)
  assume "x \<noteq> None"
  then obtain v where "x = Some v" by blast
  then have v: "view s1 (user_id v) = Some v" "user_email v = e"
    using find_email_ok [OF _ assms(3)] delete_ok [OF assms(1,2)] by simp_all
  then have "view s (user_id v) = Some v" "user_id v \<noteq> i"
    using delete_ok [OF assms(1,2)] by (auto split: if_splits)
  with unique_email [OF assms(1) _ assms(4)] v assms(5) show False by simp
qed

end

section \<open>The repository satisfies the contract\<close>

lemma create_user_ok:
  assumes ok: "db_ok (fst s)" and run: "create_user L e h t s = (Inr u, s')"
  shows "db_ok (fst s')" and "user_email u = e" "password_hash u = h"
    and "created_at u = t" "updated_at u = t"
    and "user_with_id (fst s) (user_id u) = None" and "user_with_email (fst s) e = None"
    and "user_with_id (fst s') = (user_with_id (fst s))(user_id u \<mapsto> u)"
    and "fst s' = (fst s)\<lparr>users := users (fst s) @ [u]\<rparr>"
proof -
  obtain i where ins: "insert_user i e h t (fst s) = (Inr u, fst s')"
    using run unfolding create_user_def by (auto elim: pg_run_with_id_InrE)
  then show "db_ok (fst s')" using db_ok_insert_user [OF ok] by (metis snd_conv)
  from ins have new: "\<forall>v \<in> set (users (fst s)). user_id v \<noteq> user_id u \<and> user_email v \<noteq> e"
    and u: "u = \<lparr>user_id = i, user_email = e, password_hash = h, created_at = t, updated_at = t\<rparr>"
    and s': "fst s' = (fst s)\<lparr>users := users (fst s) @ [u]\<rparr>"
    by (auto simp: insert_user_def Let_def split: if_splits)
  from u show "user_email u = e" "password_hash u = h" "created_at u = t" "updated_at u = t"
    by simp_all
  from new show none: "user_with_id (fst s) (user_id u) = None" "user_with_email (fst s) e = None"
    by (simp_all add: user_with_id_None_iff user_with_email_None_iff)
  show "fst s' = (fst s)\<lparr>users := users (fst s) @ [u]\<rparr>" by (fact s')
  show "user_with_id (fst s') = (user_with_id (fst s))(user_id u \<mapsto> u)"
    using none by (auto simp: s' fun_eq_iff user_with_id_append split: option.split)
qed

lemma find_by_email_ok:
  assumes "find_by_email L e s = (Inr x, s')"
  shows "fst s' = fst s" and "x = user_with_email (fst s) e"
  using assms unfolding find_by_email_def
  by (auto elim!: pg_run_InrE simp: select_user_def user_with_email_def)

lemma find_by_id_ok:
  assumes "find_by_id L i s = (Inr x, s')"
  shows "fst s' = fst s" and "x = user_with_id (fst s) i"
  using assms unfolding find_by_id_def
  by (auto elim!: pg_run_InrE simp: select_user_def user_with_id_def)

lemma rows_affected_iff:
  "fst (update_user_password i h t db) = Inr 0 \<longleftrightarrow> user_with_id db i = None"
  by (auto simp: update_user_password_def user_with_id_None_iff filter_empty_conv)

lemma update_password_ok:
  assumes run: "update_password L i h t s = (Inr y, s')"
  shows "\<exists>u. user_with_id (fst s) i = Some u
      \<and> user_with_id (fst s') = (user_with_id (fst s))(i \<mapsto> u\<lparr>password_hash := h, updated_at := t\<rparr>)"
    and "fst s' = snd (update_user_password i h t (fst s))"
proof -
  obtain n where st: "update_user_password i h t (fst s) = (Inr n, fst s')" and "n \<noteq> 0"
    using run unfolding update_password_def
    by (auto elim!: bindE_InrE pg_run_InrE split: if_splits)
  then show s': "fst s' = snd (update_user_password i h t (fst s))" by simp
  from st \<open>n \<noteq> 0\<close> obtain u where "user_with_id (fst s) i = Some u"
    using rows_affected_iff [of i h t "fst s"] by auto
  then show "\<exists>u. user_with_id (fst s) i = Some u
      \<and> user_with_id (fst s') = (user_with_id (fst s))(i \<mapsto> u\<lparr>password_hash := h, updated_at := t\<rparr>)"
    by (auto simp: s' fun_eq_iff user_with_id_updated option.map_ident)
qed

lemma update_password_missing:
  assumes "update_password L i h t s = (Inl NotFound, s')"
  shows "user_with_id (fst s) i = None"
proof -
  from assms have "fst (update_user_password i h t (fst s)) = Inr 0"
    unfolding update_password_def
  proof (cases rule: bindE_InlE)
    case 1
    then show ?thesis by (auto simp: mapErrE_Inl_iff) (metis from_sqlx_not_NotFound)
  next
    case (2 n s1)
    then show ?thesis by (auto split: if_splits elim!: pg_run_InrE)
  qed
  then show ?thesis by (simp add: rows_affected_iff)
qed

lemma delete_by_id_ok:
  assumes "delete_by_id L i s = (Inr y, s')"
  shows "fst s' = snd (delete_user i (fst s))"
  using assms unfolding delete_by_id_def by (auto elim!: bindE_InrE pg_run_InrE)

interpretation users_table: user_store
  "\<lambda>s. user_with_id (fst s)" "\<lambda>s. db_ok (fst s)"
  "create_user L" "find_by_email L" "find_by_id L" "update_password L" "delete_by_id L"
  for L :: "('g, 'z) pg_lib_scheme"
proof unfold_locales
  fix s :: "database \<times> 'g" and i j u v e h t s' x y
  assume ok: "db_ok (fst s)"
  show "user_with_id (fst s) i = Some u \<Longrightarrow> user_id u = i" by (rule user_with_id_Some)
  show "i = j" if "user_with_id (fst s) i = Some u" "user_with_id (fst s) j = Some v"
      "user_email u = user_email v"
    using by_id_by_email [OF ok that(1)] by_id_by_email [OF ok that(2)] that user_with_id_Some(2)
    by (metis option.inject)
  show "db_ok (fst s') \<and> user_email u = e \<and> password_hash u = h \<and> user_with_id (fst s) (user_id u) = None
      \<and> (\<forall>i v. user_with_id (fst s) i = Some v \<longrightarrow> user_email v \<noteq> e)
      \<and> user_with_id (fst s') = (user_with_id (fst s))(user_id u \<mapsto> u)"
    if run: "create_user L e h t s = (Inr u, s')"
  proof -
    have "user_email v \<noteq> e" if "user_with_id (fst s) i = Some v" for i v
      using by_id_by_email [OF ok that] create_user_ok(7) [OF ok run] by auto
    then show ?thesis using create_user_ok [OF ok run] by blast
  qed
  show "db_ok (fst s')" if "create_user L e h t s = (Inl EmailConflict, s')"
    using that keeps_pg_run_with_id [of db_ok "\<lambda>i. insert_user i e h t" L] ok db_ok_insert_user
    by (auto simp: create_user_def mapErrE_Inl_iff dest: stepsD)
  show "db_ok (fst s') \<and> user_with_id (fst s') = user_with_id (fst s)
      \<and> (\<forall>u. x = Some u \<longleftrightarrow> user_with_id (fst s) (user_id u) = Some u \<and> user_email u = e)"
    if "find_by_email L e s = (Inr x, s')"
    using find_by_email_ok [OF that] ok by_email_by_id [OF ok] by_id_by_email [OF ok]
    by (auto dest: user_with_email_Some)
  show "db_ok (fst s') \<and> user_with_id (fst s') = user_with_id (fst s) \<and> y = user_with_id (fst s) i"
    if "find_by_id L i s = (Inr y, s')" for y
    using find_by_id_ok [OF that] ok by simp
  show "db_ok (fst s') \<and> (\<exists>u. user_with_id (fst s) i = Some u
      \<and> user_with_id (fst s') = (user_with_id (fst s))(i \<mapsto> u\<lparr>password_hash := h, updated_at := t\<rparr>))"
    if "update_password L i h t s = (Inr y, s')" for y
    using update_password_ok [OF that] db_ok_update_user_password [OF ok] by simp
  show "user_with_id (fst s) i = None" if "update_password L i h t s = (Inl NotFound, s')"
    using that by (rule update_password_missing)
  show "db_ok (fst s') \<and> user_with_id (fst s') = (user_with_id (fst s))(i := None)"
    if "delete_by_id L i s = (Inr y, s')" for y
    using delete_by_id_ok [OF that] db_ok_delete_user [OF ok] user_with_id_deleted by simp
qed

end
