(* ===== verification/Reset_Token_Repository.thy ===== *)
theory Reset_Token_Repository
  imports User_Repository
begin

text \<open>
  \<open>src/data/reset_token_repository.rs\<close>: the password reset tokens, kept as hashes. The contract
  \<open>one_time_tokens\<close> is what the reset handlers rely on: a token is redeemed at most once, before its
  expiry, for the user it was issued to.
\<close>

definition create_reset_token ::
    "('g, 'z) pg_lib_scheme \<Rightarrow> uuid \<Rightarrow> string \<Rightarrow> instant \<Rightarrow> (database \<times> 'g, data_error, unit) io" where
  "create_reset_token L uid hash expires =
     mapErrE from_sqlx (pg_run_with_id L (\<lambda>new_id. insert_reset_row new_id uid hash expires))"

definition consume_reset_token ::
    "('g, 'z) pg_lib_scheme \<Rightarrow> string \<Rightarrow> instant \<Rightarrow> (database \<times> 'g, data_error, uuid option) io" where
  "consume_reset_token L hash t = mapErrE from_sqlx (pg_run L (consume_reset_row hash t))"

section \<open>The contract of one-time tokens\<close>

locale one_time_tokens =
  fixes owner :: "'s \<Rightarrow> instant \<Rightarrow> string \<Rightarrow> uuid option"
    and inv :: "'s \<Rightarrow> bool"
    and issue :: "uuid \<Rightarrow> string \<Rightarrow> instant \<Rightarrow> ('s, 'e, unit) io"
    and redeem :: "string \<Rightarrow> instant \<Rightarrow> ('s, 'e, uuid option) io"
  assumes expires: "inv s \<Longrightarrow> owner s t h = None \<Longrightarrow> t \<le> t' \<Longrightarrow> owner s t' h = None"
    and issue_ok: "inv s \<Longrightarrow> issue u h x s = (Inr y, s') \<Longrightarrow>
      inv s' \<and> owner s' t = (owner s t)(h := if t < x then Some u else None)"
    and redeem_ok: "inv s \<Longrightarrow> redeem h t s = (Inr v, s') \<Longrightarrow> t \<le> t' \<Longrightarrow>
      inv s' \<and> v = owner s t h \<and> owner s' t' = (owner s t')(h := None)"
begin

lemma issue_then_redeem:
  assumes "inv s" and "issue u h x s = (Inr y, s1)" and "redeem h t s1 = (Inr v, s2)"
  shows "v = (if t < x then Some u else None)"
  using issue_ok [OF assms(1,2), of t] redeem_ok [OF _ assms(3), of t] by auto

text \<open>Whoever redeems second, at whatever later time, gets nothing.\<close>

lemma redeem_once:
  assumes "inv s" and "redeem h t s = (Inr v, s1)" and "t \<le> t'" and "redeem h t' s1 = (Inr v', s2)"
  shows "v' = None"
  using redeem_ok [OF assms(1,2,3)] redeem_ok [OF _ assms(4), of t'] by simp

text \<open>Redeeming one token does not take another.\<close>

lemma redeem_other:
  assumes "inv s" and "redeem h t s = (Inr v, s1)" and "t \<le> t'" and "h' \<noteq> h"
  shows "owner s1 t' h' = owner s t' h'"
  using redeem_ok [OF assms(1-3)] assms(4) by simp

end

section \<open>The repository satisfies the contract\<close>

definition reset_owner :: "database \<Rightarrow> instant \<Rightarrow> string \<Rightarrow> uuid option" where
  "reset_owner db t hash = map_option row_user_id (List.find (consumable hash t) (reset_rows db))"

lemma consumable_earlier: "consumable h t' r \<Longrightarrow> t \<le> t' \<Longrightarrow> consumable h t r"
  by (simp add: consumable_def)

lemma consumable_used: "\<not> consumable h t (r\<lparr>used_at := Some x\<rparr>)"
  by (simp add: consumable_def)

lemma find_None_consumable:
  "List.find (consumable h t) rows = None \<longleftrightarrow> (\<forall>r \<in> set rows. \<not> consumable h t r)"
  by (auto simp: find_None_iff)

lemma reset_owner_None_iff:
  "reset_owner db t h = None \<longleftrightarrow> (\<forall>r \<in> set (reset_rows db). \<not> consumable h t r)"
  by (simp add: reset_owner_def find_None_consumable)

lemma reset_owner_expires: "reset_owner db t h = None \<Longrightarrow> t \<le> t' \<Longrightarrow> reset_owner db t' h = None"
  by (auto simp: reset_owner_None_iff consumable_def)

lemma reset_owner_append:
  assumes "\<forall>r \<in> set rows. token_hash r \<noteq> token_hash new"
  shows "reset_owner (db\<lparr>reset_rows := rows @ [new]\<rparr>) t
    = (reset_owner (db\<lparr>reset_rows := rows\<rparr>) t)
        (token_hash new := if used_at new = None \<and> t < expires_at new then Some (row_user_id new) else None)"
proof
  fix h
  show "reset_owner (db\<lparr>reset_rows := rows @ [new]\<rparr>) t h
      = ((reset_owner (db\<lparr>reset_rows := rows\<rparr>) t)
          (token_hash new := if used_at new = None \<and> t < expires_at new then Some (row_user_id new) else None)) h"
  proof (cases "h = token_hash new")
    case True
    have "List.find (consumable (token_hash new) t) rows = None"
      using assms by (auto simp: find_None_consumable consumable_def)
    with True show ?thesis by (simp add: reset_owner_def find_append consumable_def)
  next
    case False
    then have "List.find (consumable h t) [new] = None" by (simp add: consumable_def)
    with False show ?thesis by (simp add: reset_owner_def find_append split: option.split)
  qed
qed

lemma reset_owner_consumed:
  assumes "t \<le> t'"
  shows "reset_owner (snd (consume_reset_row h t db)) t' = (reset_owner db t')(h := None)"
proof
  fix h'
  let ?rows = "sql_update (consumable h t) (\<lambda>r. r\<lparr>used_at := Some t\<rparr>) (reset_rows db)"
  show "reset_owner (snd (consume_reset_row h t db)) t' h' = ((reset_owner db t')(h := None)) h'"
  proof (cases "h' = h")
    case True
    have "\<forall>r \<in> set ?rows. \<not> consumable h t' r"
      using consumable_earlier [OF _ assms] by (auto simp: sql_update_def consumable_used)
    with True show ?thesis by (simp add: reset_owner_None_iff consume_reset_row_def)
  next
    case False
    have same: "consumable h' t' (r\<lparr>used_at := Some t\<rparr>) \<longleftrightarrow> False"
      "consumable h t r \<Longrightarrow> \<not> consumable h' t' r" for r
      using False by (simp_all add: consumable_def)
    have "List.find (consumable h' t') (sql_update (consumable h t) (\<lambda>r. r\<lparr>used_at := Some t\<rparr>) rows)
        = List.find (consumable h' t') rows" for rows
      by (induction rows) (simp_all add: sql_update_def same)
    with False show ?thesis by (simp add: reset_owner_def consume_reset_row_def)
  qed
qed

lemma create_reset_token_ok:
  assumes "create_reset_token L u h x s = (Inr y, s')"
  shows "\<exists>i. insert_reset_row i u h x (fst s) = (Inr (), fst s')"
  using assms unfolding create_reset_token_def by (auto elim!: pg_run_with_id_InrE)

lemma insert_reset_row_owner:
  assumes "insert_reset_row i u h x db = (Inr y, db')"
  shows "reset_owner db' t = (reset_owner db t)(h := if t < x then Some u else None)"
proof -
  from assms have new: "\<forall>r \<in> set (reset_rows db). token_hash r \<noteq> h"
    and db': "db' = db\<lparr>reset_rows := reset_rows db @
        [\<lparr>row_id = i, row_user_id = u, token_hash = h, expires_at = x, used_at = None\<rparr>]\<rparr>"
    by (auto simp: insert_reset_row_def split: if_splits)
  then show ?thesis
    using reset_owner_append [of "reset_rows db"
      "\<lparr>row_id = i, row_user_id = u, token_hash = h, expires_at = x, used_at = None\<rparr>" db t] by simp
qed

lemma consume_reset_token_ok:
  assumes "consume_reset_token L h t s = (Inr v, s')"
  shows "v = reset_owner (fst s) t h" and "fst s' = snd (consume_reset_row h t (fst s))"
  using assms unfolding consume_reset_token_def
  by (auto elim!: pg_run_InrE simp: consume_reset_row_def reset_owner_def)

interpretation reset_tokens: one_time_tokens
  "\<lambda>s. reset_owner (fst s)" "\<lambda>s. db_ok (fst s)" "create_reset_token L" "consume_reset_token L"
  for L :: "('g, 'z) pg_lib_scheme"
proof unfold_locales
  fix s :: "database \<times> 'g" and t t' h u x y v s'
  assume ok: "db_ok (fst s)"
  show "reset_owner (fst s) t' h = None" if "reset_owner (fst s) t h = None" "t \<le> t'"
    using that by (rule reset_owner_expires)
  show "db_ok (fst s') \<and> reset_owner (fst s') t = (reset_owner (fst s) t)(h := if t < x then Some u else None)"
    if run: "create_reset_token L u h x s = (Inr y, s')"
  proof -
    obtain i where ins: "insert_reset_row i u h x (fst s) = (Inr (), fst s')"
      using create_reset_token_ok [OF run] ..
    from insert_reset_row_owner [OF this] db_ok_insert_reset_row [OF ok, of i u h x] ins
    show ?thesis by simp
  qed
  show "db_ok (fst s') \<and> v = reset_owner (fst s) t h \<and> reset_owner (fst s') t' = (reset_owner (fst s) t')(h := None)"
    if "consume_reset_token L h t s = (Inr v, s')" "t \<le> t'"
    using consume_reset_token_ok [OF that(1)] reset_owner_consumed [OF that(2)]
      db_ok_consume_reset_row [OF ok] by simp
qed

text \<open>A token is only redeemable for a user who still exists.\<close>

lemma reset_owner_exists:
  assumes "db_ok db" and "reset_owner db t h = Some u"
  shows "user_with_id db u \<noteq> None"
  using assms by (auto simp: reset_owner_def find_Some_iff db_ok_def user_with_id_None_iff subset_iff
      image_iff) (metis nth_mem)

text \<open>The cascade: deleting a user voids that user's tokens and no other.\<close>

lemma reset_owner_deleted:
  "reset_owner (snd (delete_user i db)) t h = Some u \<Longrightarrow> u \<noteq> i"
  by (auto simp: reset_owner_def delete_user_def find_sql_delete find_Some_iff)

lemma reset_owner_delete_user:
  assumes "db_ok db"
  shows "reset_owner (snd (delete_user i db)) t h
    = (if reset_owner db t h = Some i then None else reset_owner db t h)"
proof -
  have "List.find (\<lambda>r. consumable h t r \<and> row_user_id r \<noteq> i) rows
      = (case List.find (consumable h t) rows of None \<Rightarrow> None | Some r \<Rightarrow> if row_user_id r = i then None else Some r)"
    if "distinct (map token_hash rows)" for rows
    using that
  proof (induction rows)
    case (Cons r rows)
    have "\<not> consumable h t r'" if "consumable h t r" "r' \<in> set rows" for r'
      using that Cons.prems by (auto simp: consumable_def) (metis image_eqI)
    then have "List.find (\<lambda>r. consumable h t r \<and> row_user_id r \<noteq> i) rows = None" if "consumable h t r"
      using that by (auto simp: find_None_iff)
    with Cons show ?case by auto
  qed simp
  with assms show ?thesis
    by (auto simp: reset_owner_def delete_user_def find_sql_delete db_ok_def split: option.split)
qed

end
