(* ===== verification/Environment.thy ===== *)
theory Environment
  imports Reset_Token_Repository
begin

text \<open>
  What the program takes from outside besides the cache: the server and connection of the database
  (\<open>pg_lib\<close>), the generators of random values (\<open>Uuid::new_v4\<close>, \<open>SaltString::generate\<close>,
  \<open>thread_rng().fill_bytes\<close>) and the HTTP client. They are parameters, functions on a state \<open>'g\<close>
  that nothing is assumed of. Pure functions of third-party crates (sha2, hex, the header conversion
  of the http crate) are parameters too.
\<close>

record http_response =
  http_status :: nat
  http_text :: "string option"

datatype http_error = Http_Error string

type_synonym json_object = "(string \<times> string) list"

record 'g env_lib = "'g pg_lib" +
  new_v4 :: "'g \<Rightarrow> uuid \<times> 'g"
  new_salt :: "'g \<Rightarrow> string \<times> 'g"
  fill_bytes :: "nat \<Rightarrow> 'g \<Rightarrow> string \<times> 'g"
  http_post :: "string \<Rightarrow> (string \<times> string) list \<Rightarrow> json_object \<Rightarrow> 'g
    \<Rightarrow> (http_error + http_response) \<times> 'g"

record digest_lib =
  sha256 :: "string \<Rightarrow> string"
  hex_encode :: "string \<Rightarrow> string"

text \<open>A draw from a generator never fails.\<close>

definition drawE :: "('g \<Rightarrow> 'a \<times> 'g) \<Rightarrow> ('g, 'e, 'a) io" where
  "drawE gen = (\<lambda>g. case gen g of (a, g') \<Rightarrow> (Inr a, g'))"

lemma drawE_Inr_iff [simp]: "drawE gen g = (Inr a, g') \<longleftrightarrow> gen g = (a, g')"
  by (auto simp: drawE_def split: prod.splits)

lemma drawE_not_Inl [simp]: "drawE gen g \<noteq> (Inl e, g')"
  by (auto simp: drawE_def split: prod.splits)

text \<open>The errors of the domain layer, \<open>src/domain/error.rs\<close>.\<close>

datatype jwt_error = Expired_Signature | Jwt_Error string

datatype password_error = Password_Error string

datatype domain_error = Hashing password_error | InvalidToken jwt_error | WrongTokenKind

end
