(* ===== verification/Jwt.thy ===== *)
theory Jwt
  imports Environment
begin

text \<open>
  \<open>src/domain/jwt.rs\<close>: signing and verification of access and refresh tokens. The crate
  \<open>jsonwebtoken\<close> is a parameter \<open>jwt_lib\<close>; the locale \<open>jwt_library\<close> states what is relied on: a token
  encoded with a key decodes to the same claims with the matching key until it has expired, and a
  decoded token has not expired, both up to the leeway of the validation.
\<close>

datatype token_kind = Access | Refresh

record claims =
  c_sub :: uuid
  c_email :: string
  c_iat :: int
  c_exp :: int
  c_jti :: uuid
  c_kind :: token_kind

datatype algorithm = EdDSA | Other_Algorithm string

record validation =
  v_algorithm :: algorithm
  v_validate_exp :: bool
  v_leeway :: int

text \<open>A key is the content that the crate reads from the PEM; the clock of \<open>decode\<close> is an argument.\<close>

record jwt_lib =
  encoding_key_from_ed_pem :: "string \<Rightarrow> jwt_error + string"
  decoding_key_from_ed_pem :: "string \<Rightarrow> jwt_error + string"
  validation_new :: "algorithm \<Rightarrow> validation"
  jwt_encode :: "algorithm \<Rightarrow> claims \<Rightarrow> string \<Rightarrow> jwt_error + string"
  jwt_decode :: "string \<Rightarrow> string \<Rightarrow> validation \<Rightarrow> int \<Rightarrow> jwt_error + claims"

record jwt_manager =
  encoding_key :: string
  decoding_key :: string
  access_ttl :: duration
  refresh_ttl :: duration

definition from_ed25519_pem :: "jwt_lib \<Rightarrow> string \<Rightarrow> string \<Rightarrow> domain_error + jwt_manager" where
  "from_ed25519_pem J private_pem public_pem =
     (case encoding_key_from_ed_pem J private_pem of
        Inl e \<Rightarrow> Inl (InvalidToken e)
      | Inr ek \<Rightarrow>
          (case decoding_key_from_ed_pem J public_pem of
             Inl e \<Rightarrow> Inl (InvalidToken e)
           | Inr dk \<Rightarrow>
               Inr \<lparr>encoding_key = ek, decoding_key = dk,
                    access_ttl = secs (15 * 60), refresh_ttl = secs (7 * 24 * 3600)\<rparr>))"

definition sign_with_claims ::
    "jwt_lib \<Rightarrow> ('g, 'z) env_lib_scheme \<Rightarrow> jwt_manager \<Rightarrow> uuid \<Rightarrow> string \<Rightarrow> duration \<Rightarrow> token_kind
      \<Rightarrow> instant \<Rightarrow> ('g, domain_error, string \<times> claims) io" where
  "sign_with_claims J E M uid email ttl kind now =
     bindE (drawE (new_v4 E)) (\<lambda>fresh_jti.
     let claims = \<lparr>c_sub = uid, c_email = email, c_iat = timestamp now,
                   c_exp = timestamp (now + ttl), c_jti = fresh_jti, c_kind = kind\<rparr>
     in bindE (mapErrE InvalidToken (liftE (jwt_encode J EdDSA claims (encoding_key M)))) (\<lambda>token.
        okE (token, claims)))"

definition sign_access_token ::
    "jwt_lib \<Rightarrow> ('g, 'z) env_lib_scheme \<Rightarrow> jwt_manager \<Rightarrow> uuid \<Rightarrow> string \<Rightarrow> instant
      \<Rightarrow> ('g, domain_error, string) io" where
  "sign_access_token J E M uid email now =
     bindE (sign_with_claims J E M uid email (access_ttl M) Access now) (\<lambda>(token, _). okE token)"

definition sign_refresh_token ::
    "jwt_lib \<Rightarrow> ('g, 'z) env_lib_scheme \<Rightarrow> jwt_manager \<Rightarrow> uuid \<Rightarrow> string \<Rightarrow> instant
      \<Rightarrow> ('g, domain_error, string \<times> uuid) io" where
  "sign_refresh_token J E M uid email now =
     bindE (sign_with_claims J E M uid email (refresh_ttl M) Refresh now)
       (\<lambda>(token, claims). okE (token, c_jti claims))"

definition decode_and_check ::
    "jwt_lib \<Rightarrow> jwt_manager \<Rightarrow> string \<Rightarrow> token_kind \<Rightarrow> instant \<Rightarrow> domain_error + claims" where
  "decode_and_check J M token expected now =
     (let validation = (validation_new J EdDSA)\<lparr>v_validate_exp := True\<rparr>
      in case jwt_decode J token (decoding_key M) validation (timestamp now) of
           Inl e \<Rightarrow> Inl (InvalidToken e)
         | Inr claims \<Rightarrow>
             if c_kind claims \<noteq> expected then Inl WrongTokenKind else Inr claims)"

definition verify_access :: "jwt_lib \<Rightarrow> jwt_manager \<Rightarrow> string \<Rightarrow> instant \<Rightarrow> domain_error + claims" where
  "verify_access J M token now = decode_and_check J M token Access now"

definition verify_refresh :: "jwt_lib \<Rightarrow> jwt_manager \<Rightarrow> string \<Rightarrow> instant \<Rightarrow> domain_error + claims" where
  "verify_refresh J M token now = decode_and_check J M token Refresh now"

section \<open>The signing library\<close>

text \<open>The seconds by which a token is still accepted after its expiry.\<close>

definition jwt_leeway :: "jwt_lib \<Rightarrow> int" where
  "jwt_leeway J = v_leeway (validation_new J EdDSA)"

locale jwt_library =
  fixes J :: jwt_lib and keypair :: "string \<Rightarrow> string \<Rightarrow> bool"
  assumes new_algorithm: "v_algorithm (validation_new J a) = a"
    and new_leeway: "0 \<le> v_leeway (validation_new J a)"
    and decode_encoded: "keypair ek dk \<Longrightarrow> jwt_encode J a c ek = Inr token \<Longrightarrow> v_algorithm v = a \<Longrightarrow>
      v_validate_exp v \<Longrightarrow>
      jwt_decode J token dk v now
        = (if c_exp c < now - v_leeway v then Inl Expired_Signature else Inr c)"
    and decoded_unexpired: "jwt_decode J token dk v now = Inr c \<Longrightarrow> v_validate_exp v \<Longrightarrow>
      now - v_leeway v \<le> c_exp c"
begin

lemma decode_signed:
  assumes "keypair (encoding_key M) (decoding_key M)"
    and run: "sign_with_claims J E M uid email (secs n) k now g = (Inr (token, c), g')"
  shows "c = \<lparr>c_sub = uid, c_email = email, c_iat = timestamp now, c_exp = timestamp now + n,
      c_jti = fst (new_v4 E g), c_kind = k\<rparr>"
    and "g' = snd (new_v4 E g)"
    and "decode_and_check J M token k' t
      = (if c_exp c < timestamp t - jwt_leeway J then Inl (InvalidToken Expired_Signature)
         else if k \<noteq> k' then Inl WrongTokenKind else Inr c)"
proof -
  show c: "c = \<lparr>c_sub = uid, c_email = email, c_iat = timestamp now, c_exp = timestamp now + n,
      c_jti = fst (new_v4 E g), c_kind = k\<rparr>" and "g' = snd (new_v4 E g)"
    using run by (auto simp: sign_with_claims_def Let_def elim!: bindE_InrE)
  have "jwt_encode J EdDSA c (encoding_key M) = Inr token"
    using run by (auto simp: sign_with_claims_def Let_def elim!: bindE_InrE)
  from decode_encoded [OF assms(1) this]
  have "jwt_decode J token (decoding_key M) ((validation_new J EdDSA)\<lparr>v_validate_exp := True\<rparr>) (timestamp t)
      = (if c_exp c < timestamp t - jwt_leeway J then Inl Expired_Signature else Inr c)"
    by (simp add: new_algorithm jwt_leeway_def)
  then show "decode_and_check J M token k' t
      = (if c_exp c < timestamp t - jwt_leeway J then Inl (InvalidToken Expired_Signature)
         else if k \<noteq> k' then Inl WrongTokenKind else Inr c)"
    by (simp add: decode_and_check_def Let_def c)
qed

lemma verified_claims:
  assumes "decode_and_check J M token k now = Inr c"
  shows "c_kind c = k" and "timestamp now \<le> c_exp c + jwt_leeway J"
  using assms decoded_unexpired [of token "decoding_key M" "(validation_new J EdDSA)\<lparr>v_validate_exp := True\<rparr>"]
  by (auto simp: decode_and_check_def Let_def jwt_leeway_def split: sum.splits if_splits) force

end

text \<open>
  What the tests of forged tokens rely on beyond: only tokens made with the key are accepted (the ideal of
  a signature), a signature ends the token and is a function of what precedes it, and an Ed25519
  signature alone takes 86 characters.
\<close>

locale strict_jwt_library = jwt_library +
  assumes decode_genuine: "keypair ek dk \<Longrightarrow> jwt_decode J token dk v now = Inr c \<Longrightarrow> v_algorithm v = a \<Longrightarrow>
      jwt_encode J a c ek = Inr token"
    and encode_determined: "jwt_encode J a c ek = Inr token \<Longrightarrow> jwt_encode J a c' ek = Inr token' \<Longrightarrow>
      butlast token = butlast token' \<Longrightarrow> token = token'"
    and encoded_length: "jwt_encode J EdDSA c ek = Inr token \<Longrightarrow> 86 < length token"
begin

lemma verified_genuine:
  assumes "keypair ek (decoding_key M)" and "decode_and_check J M token k t = Inr c"
  shows "jwt_encode J EdDSA c ek = Inr token" and "86 < length token"
proof -
  from assms(2) have "jwt_decode J token (decoding_key M) ((validation_new J EdDSA)\<lparr>v_validate_exp := True\<rparr>)
      (timestamp t) = Inr c"
    by (auto simp: decode_and_check_def Let_def split: sum.splits if_splits)
  from decode_genuine [OF assms(1) this] show "jwt_encode J EdDSA c ek = Inr token"
    by (simp add: new_algorithm)
  then show "86 < length token" by (rule encoded_length)
qed

text \<open>A signed token whose last character was replaced is refused.\<close>

lemma tampered_refused:
  assumes "keypair (encoding_key M) (decoding_key M)"
    and "sign_with_claims J E M uid email ttl k now g = (Inr (token, c), g')" and "x \<noteq> last token"
  shows "\<exists>e. decode_and_check J M (butlast token @ [x]) k' t = Inl e"
proof (cases "decode_and_check J M (butlast token @ [x]) k' t")
  case (Inr c')
  have signed: "jwt_encode J EdDSA c (encoding_key M) = Inr token"
    using assms(2) by (auto simp: sign_with_claims_def Let_def elim!: bindE_InrE)
  from encode_determined [OF this verified_genuine(1) [OF assms(1) Inr]]
  have "token = butlast token @ [x]" by simp
  then have "last token = x" by (metis last_snoc)
  with assms(3) show ?thesis by simp
qed simp

end

end
