(* ===== verification/Password.thy ===== *)
theory Password
  imports Environment
begin

text \<open>
  \<open>src/domain/password.rs\<close>: hashing and verification of passwords. The crate \<open>argon2\<close> is a
  parameter; the locale \<open>password_library\<close> states that a hash verifies the password it was made of,
  and \<open>password_binding\<close> adds the idealisation of a cryptographic hash, that it verifies no other.
\<close>

datatype argon2_variant = Argon2d | Argon2i | Argon2id

record argon2_params =
  m_cost :: u32
  t_cost :: u32
  p_cost :: u32

record argon2_context =
  a_variant :: argon2_variant
  a_version :: nat
  a_params :: argon2_params

record argon2_lib =
  params_new :: "u32 \<Rightarrow> u32 \<Rightarrow> u32 \<Rightarrow> password_error + argon2_params"
  hash_password :: "argon2_context \<Rightarrow> string \<Rightarrow> string \<Rightarrow> password_error + string"
  password_hash_new :: "string \<Rightarrow> password_error + string"
  verify_password :: "argon2_context \<Rightarrow> string \<Rightarrow> string \<Rightarrow> password_error + unit"

record password_service =
  argon2 :: argon2_context

text \<open>\<open>expect\<close> panics if the parameters are refused: \<open>None\<close>. The version is \<open>V0x13\<close>.\<close>

definition password_service_with :: "argon2_lib \<Rightarrow> u32 \<Rightarrow> u32 \<Rightarrow> u32 \<Rightarrow> password_service option" where
  "password_service_with A m t p = (case params_new A m t p of
       Inl _ \<Rightarrow> None
     | Inr params \<Rightarrow> Some \<lparr>argon2 = \<lparr>a_variant = Argon2id, a_version = 19, a_params = params\<rparr>\<rparr>)"

definition password_service_new :: "argon2_lib \<Rightarrow> password_service option" where
  "password_service_new A = password_service_with A (64 * 1024) 3 4"

definition password_service_for_testing :: "argon2_lib \<Rightarrow> password_service option" where
  "password_service_for_testing A = password_service_with A 1024 1 1"

definition password_service_default :: "argon2_lib \<Rightarrow> password_service option" where
  "password_service_default A = password_service_new A"

definition hash_of ::
    "argon2_lib \<Rightarrow> ('g, 'z) env_lib_scheme \<Rightarrow> password_service \<Rightarrow> string \<Rightarrow> ('g, domain_error, string) io" where
  "hash_of A E P password =
     bindE (drawE (new_salt E)) (\<lambda>salt.
     mapErrE Hashing (liftE (hash_password A (argon2 P) password salt)))"

definition verify_hash ::
    "argon2_lib \<Rightarrow> password_service \<Rightarrow> string \<Rightarrow> string \<Rightarrow> domain_error + bool" where
  "verify_hash A P password hash = (case password_hash_new A hash of
       Inl e \<Rightarrow> Inl (Hashing e)
     | Inr parsed \<Rightarrow>
         Inr (case verify_password A (argon2 P) password parsed of Inl _ \<Rightarrow> False | Inr _ \<Rightarrow> True))"

locale password_library =
  fixes A :: argon2_lib
  assumes hash_parses: "hash_password A x pw salt = Inr h \<Longrightarrow> \<exists>parsed. password_hash_new A h = Inr parsed"
    and hash_verifies: "hash_password A x pw salt = Inr h \<Longrightarrow> password_hash_new A h = Inr parsed \<Longrightarrow>
      verify_password A x pw parsed = Inr ()"
begin

lemma verify_hash_of:
  assumes "hash_of A E P pw g = (Inr h, g')"
  shows "verify_hash A P pw h = Inr True"
proof -
  from assms obtain salt where h: "hash_password A (argon2 P) pw salt = Inr h"
    by (auto simp: hash_of_def elim!: bindE_InrE)
  then obtain parsed where parsed: "password_hash_new A h = Inr parsed" using hash_parses by blast
  with hash_verifies [OF h parsed] show ?thesis by (simp add: verify_hash_def)
qed

end

locale password_binding = password_library +
  assumes hash_binds: "hash_password A x pw salt = Inr h \<Longrightarrow> password_hash_new A h = Inr parsed \<Longrightarrow>
      verify_password A x pw' parsed = Inr () \<Longrightarrow> pw' = pw"
begin

lemma verify_hash_iff:
  assumes "hash_of A E P pw g = (Inr h, g')"
  shows "verify_hash A P pw' h = Inr (pw' = pw)"
proof (cases "pw' = pw")
  case True
  with verify_hash_of [OF assms] show ?thesis by simp
next
  case False
  from assms obtain salt where h: "hash_password A (argon2 P) pw salt = Inr h"
    by (auto simp: hash_of_def elim!: bindE_InrE)
  then obtain parsed where parsed: "password_hash_new A h = Inr parsed" using hash_parses by blast
  from False have "verify_password A (argon2 P) pw' parsed \<noteq> Inr ()" using hash_binds [OF h parsed] by blast
  with parsed False show ?thesis by (auto simp: verify_hash_def split: sum.split)
qed

end

text \<open>A library for evaluation: the hash is the salt, a separator and the password.\<close>

definition ref_argon2 :: argon2_lib where
  "ref_argon2 = \<lparr>params_new = (\<lambda>m t p. Inr \<lparr>m_cost = m, t_cost = t, p_cost = p\<rparr>),
     hash_password = (\<lambda>_ pw salt. if CHR ''$'' \<in> set salt then Inl (Password_Error ''SaltInvalid'')
       else Inr (salt @ CHR ''$'' # pw)),
     password_hash_new = (\<lambda>h. if CHR ''$'' \<in> set h then Inr h else Inl (Password_Error ''PhcStringField'')),
     verify_password = (\<lambda>_ pw h. if tl (dropWhile (\<lambda>c. c \<noteq> CHR ''$'') h) = pw then Inr ()
       else Inl (Password_Error ''Password''))\<rparr>"

lemma tl_dropWhile_append: "c \<notin> set s \<Longrightarrow> tl (dropWhile (\<lambda>x. x \<noteq> c) (s @ c # p)) = p"
  by (induction s) auto

interpretation ref_argon2: password_binding ref_argon2
  by unfold_locales (auto simp: ref_argon2_def tl_dropWhile_append split: if_splits)

end
