(* ===== verification/Api_Error.thy ===== *)
theory Api_Error
  imports Environment
begin

text \<open>
  The error type of the handlers in \<open>src/routes/mod.rs\<close>, the conversions into it from the errors of
  the domain and data layers, and the response that it becomes.
\<close>

datatype api_error = BadRequest string | Conflict | Unauthorized | Validation string | Internal

fun api_of_domain :: "domain_error \<Rightarrow> api_error" where
  "api_of_domain (InvalidToken _) = Unauthorized"
| "api_of_domain WrongTokenKind = Unauthorized"
| "api_of_domain (Hashing _) = Internal"

fun api_of_data :: "data_error \<Rightarrow> api_error" where
  "api_of_data EmailConflict = Conflict"
| "api_of_data NotFound = Internal"
| "api_of_data (Database _) = Internal"
| "api_of_data (Cache _) = Internal"

text \<open>A response is a status code and a body: nothing, a text, or one of the JSON documents.\<close>

datatype body =
    No_Body
  | Text string
  | Register_Response uuid string
  | Login_Response string string
  | Me_Response uuid string
  | Health_Response string string

record response =
  status :: nat
  body :: body

definition respond :: "nat \<Rightarrow> body \<Rightarrow> response" where
  "respond c b = \<lparr>status = c, body = b\<rparr>"

fun into_response :: "api_error \<Rightarrow> response" where
  "into_response (BadRequest msg) = respond 400 (Text msg)"
| "into_response Conflict = respond 409 (Text ''email already registered'')"
| "into_response Unauthorized = respond 401 (Text ''invalid credentials'')"
| "into_response (Validation msg) = respond 422 (Text msg)"
| "into_response Internal = respond 500 (Text ''internal error'')"

lemma status_respond [simp]: "status (respond c b) = c" "body (respond c b) = b"
  by (simp_all add: respond_def)

text \<open>An error never becomes a response of success.\<close>

lemma into_response_status:
  "status (into_response e) \<in> {400, 401, 409, 422, 500}"
  by (cases e) simp_all

lemma into_response_no_success [simp]:
  "status (into_response e) \<noteq> 200" "status (into_response e) \<noteq> 201" "status (into_response e) \<noteq> 204"
  by (cases e; simp)+

lemma api_of_data_simps [simp]:
  "api_of_data e = Conflict \<longleftrightarrow> e = EmailConflict" "api_of_data e \<noteq> Unauthorized"
  "api_of_data e \<noteq> BadRequest m" "api_of_data e \<noteq> Validation m"
  by (cases e; simp)+

lemma api_of_domain_simps [simp]:
  "api_of_domain e \<noteq> Conflict" "api_of_domain e \<noteq> BadRequest m" "api_of_domain e \<noteq> Validation m"
  by (cases e; simp)+

end
