(* ===== verification/Requests.thy ===== *)
theory Requests
  imports Api_Error
begin

text \<open>
  The request bodies of \<open>src/routes/mod.rs\<close> and their \<open>validate\<close> functions. The checks are made in
  the order of the code, so the message of the first that fails is returned. Slices start and end
  next to an ASCII character that was found, hence on a character boundary within the string.
\<close>

section \<open>Searching in strings\<close>

fun find_char :: "char \<Rightarrow> string \<Rightarrow> nat option" where
  "find_char c [] = None"
| "find_char c (x # xs) = (if x = c then Some 0 else map_option Suc (find_char c xs))"

definition rfind_char :: "char \<Rightarrow> string \<Rightarrow> nat option" where
  "rfind_char c s = map_option (\<lambda>i. length s - 1 - i) (find_char c (rev s))"

definition starts_with :: "char \<Rightarrow> string \<Rightarrow> bool" where
  "starts_with c s = (case s of [] \<Rightarrow> False | x # _ \<Rightarrow> x = c)"

lemma find_char_None_iff: "find_char c s = None \<longleftrightarrow> c \<notin> set s"
  by (induction s) auto

lemma find_char_Some_iff:
  "find_char c s = Some i \<longleftrightarrow> i < length s \<and> s ! i = c \<and> c \<notin> set (take i s)"
proof (induction s arbitrary: i)
  case Nil
  then show ?case by simp
next
  case (Cons x xs)
  then show ?case by (cases i) auto
qed

lemma find_char_split: "c \<notin> set l \<Longrightarrow> find_char c (l @ c # d) = Some (length l)"
  by (induction l) auto

lemma find_char_SomeD:
  assumes "find_char c s = Some i"
  shows "s = take i s @ c # drop (i + 1) s" and "c \<notin> set (take i s)" and "i < length s"
  using assms by (auto simp: find_char_Some_iff) (metis id_take_nth_drop)

lemma rfind_char_None_iff: "rfind_char c s = None \<longleftrightarrow> c \<notin> set s"
  by (simp add: rfind_char_def find_char_None_iff)

text \<open>What follows the last occurrence is empty exactly if the string ends with the character.\<close>

lemma rfind_char_rest:
  assumes "rfind_char c s = Some i"
  shows "drop (i + 1) s = [] \<longleftrightarrow> last s = c" and "i < length s"
proof -
  obtain j where j: "find_char c (rev s) = Some j" and i: "i = length s - 1 - j"
    using assms by (auto simp: rfind_char_def)
  note f = j [unfolded find_char_Some_iff]
  then have "j < length s" by simp
  then show "i < length s" using i by linarith
  show "drop (i + 1) s = [] \<longleftrightarrow> last s = c"
  proof
    assume "drop (i + 1) s = []"
    then have "length s \<le> i + 1" by simp
    with f i have "j = 0" by (auto; linarith)
    with f show "last s = c" by (cases s rule: rev_cases) auto
  next
    assume "last s = c"
    with f have "j = 0" by (cases s rule: rev_cases; cases j) auto
    with i f show "drop (i + 1) s = []" by simp
  qed
qed

section \<open>Email and password\<close>

definition validate_email :: "string \<Rightarrow> api_error + unit" where
  "validate_email email =
     (if length email > 254 then Inl (Validation ''email too long'')
      else case find_char CHR ''@'' email of
        None \<Rightarrow> Inl (Validation ''invalid email'')
      | Some at \<Rightarrow>
          if CHR ''@'' \<in> set (drop (at + 1) email) then Inl (Validation ''invalid email'')
          else
            let local_part = take at email; domain = drop (at + 1) email
            in if local_part = [] \<or> length local_part > 64 then Inl (Validation ''invalid email'')
               else if starts_with CHR ''.'' domain then Inl (Validation ''invalid email'')
               else case rfind_char CHR ''.'' domain of
                 None \<Rightarrow> Inl (Validation ''invalid email'')
               | Some dot \<Rightarrow>
                   if drop (dot + 1) domain = [] then Inl (Validation ''invalid email'') else Inr ())"

definition validate_password :: "string \<Rightarrow> api_error + unit" where
  "validate_password password =
     (if length password < 8 then Inl (Validation ''password must be at least 8 characters'')
      else if length password > 128 then Inl (Validation ''password too long'')
      else Inr ())"

text \<open>
  The address that is meant: one \<open>@\<close>, a local part of 1 to 64 bytes, a domain with a dot that is
  neither its first nor its last character, at most 254 bytes in all.
\<close>

definition well_formed_email :: "string \<Rightarrow> bool" where
  "well_formed_email e \<longleftrightarrow> length e \<le> 254 \<and>
     (\<exists>l d. e = l @ CHR ''@'' # d \<and> CHR ''@'' \<notin> set l \<and> CHR ''@'' \<notin> set d
        \<and> 1 \<le> length l \<and> length l \<le> 64
        \<and> CHR ''.'' \<in> set d \<and> hd d \<noteq> CHR ''.'' \<and> last d \<noteq> CHR ''.'')"

lemma validate_email_parts:
  assumes "CHR ''@'' \<notin> set l"
  shows "validate_email (l @ CHR ''@'' # d) = Inr () \<longleftrightarrow>
    length (l @ CHR ''@'' # d) \<le> 254 \<and> CHR ''@'' \<notin> set d \<and> 1 \<le> length l \<and> length l \<le> 64
    \<and> CHR ''.'' \<in> set d \<and> hd d \<noteq> CHR ''.'' \<and> last d \<noteq> CHR ''.''"
proof -
  have dot: "(case rfind_char CHR ''.'' d of None \<Rightarrow> Inl (Validation ''invalid email'')
      | Some dot \<Rightarrow> if drop (dot + 1) d = [] then Inl (Validation ''invalid email'') else Inr ()) = Inr ()
      \<longleftrightarrow> CHR ''.'' \<in> set d \<and> last d \<noteq> CHR ''.''"
    using rfind_char_None_iff [of "CHR ''.''" d] rfind_char_rest(1) [of "CHR ''.''" d]
    by (cases "rfind_char CHR ''.'' d") auto
  have start: "starts_with CHR ''.'' d \<longleftrightarrow> d \<noteq> [] \<and> hd d = CHR ''.''"
    by (cases d) (auto simp: starts_with_def)
  have unfolded: "validate_email (l @ CHR ''@'' # d) = Inr () \<longleftrightarrow>
    length (l @ CHR ''@'' # d) \<le> 254 \<and> CHR ''@'' \<notin> set d \<and> \<not> (l = [] \<or> length l > 64)
    \<and> \<not> starts_with CHR ''.'' d
    \<and> (case rfind_char CHR ''.'' d of None \<Rightarrow> Inl (Validation ''invalid email'')
      | Some dot \<Rightarrow> if drop (dot + 1) d = [] then Inl (Validation ''invalid email'') else Inr ()) = Inr ()"
    unfolding validate_email_def find_char_split [OF assms] by (simp add: Let_def)
  show ?thesis unfolding unfolded dot start by (cases l) auto
qed

lemma validate_email_iff: "validate_email e = Inr () \<longleftrightarrow> well_formed_email e"
proof
  assume ok: "validate_email e = Inr ()"
  then obtain i where "find_char CHR ''@'' e = Some i"
    by (auto simp: validate_email_def split: if_splits option.splits)
  note f = find_char_SomeD [OF this]
  from ok f validate_email_parts [OF f(2), of "drop (i + 1) e"]
  show "well_formed_email e" unfolding well_formed_email_def by metis
next
  assume "well_formed_email e"
  then show "validate_email e = Inr ()"
    unfolding well_formed_email_def using validate_email_parts by metis
qed

lemma validate_email_error: "validate_email e = Inl err \<Longrightarrow> \<exists>msg. err = Validation msg"
  by (auto simp: validate_email_def Let_def split: if_splits option.splits)

lemma validate_password_iff: "validate_password p = Inr () \<longleftrightarrow> 8 \<le> length p \<and> length p \<le> 128"
  by (auto simp: validate_password_def)

section \<open>The request bodies\<close>

text \<open>A check that fails ends the validation, the operator \<open>?\<close> on a pure result.\<close>

definition thenR :: "('e + 'a) \<Rightarrow> ('e + 'b) \<Rightarrow> 'e + 'b" where
  "thenR r k = (case r of Inl e \<Rightarrow> Inl e | Inr _ \<Rightarrow> k)"

lemma thenR_Inr_iff: "thenR r (Inr ()) = Inr () \<longleftrightarrow> (\<exists>x. r = Inr x)"
  by (auto simp: thenR_def split: sum.splits)

lemma thenR_simps [simp]: "thenR (Inl e) k = Inl e" "thenR (Inr x) k = k"
  by (simp_all add: thenR_def)

record register_request =
  reg_email :: string
  reg_password :: string

definition register_validate :: "register_request \<Rightarrow> api_error + unit" where
  "register_validate b =
     thenR (validate_email (reg_email b)) (thenR (validate_password (reg_password b)) (Inr ()))"

record login_request =
  login_email :: string
  login_password :: string

definition login_validate :: "login_request \<Rightarrow> api_error + unit" where
  "login_validate b =
     thenR (validate_email (login_email b))
       (if login_password b = [] then Inl (Validation ''password is required'')
        else if length (login_password b) > 128 then Inl (Validation ''password too long'')
        else Inr ())"

record refresh_request =
  refresh_token :: string

definition refresh_validate :: "refresh_request \<Rightarrow> api_error + unit" where
  "refresh_validate b =
     (if refresh_token b = [] then Inl (Validation ''refresh_token is required'') else Inr ())"

record logout_request =
  logout_token :: string

definition logout_validate :: "logout_request \<Rightarrow> api_error + unit" where
  "logout_validate b =
     (if logout_token b = [] then Inl (Validation ''refresh_token is required'') else Inr ())"

record change_password_request =
  current_password :: string
  new_password :: string

definition change_password_validate :: "change_password_request \<Rightarrow> api_error + unit" where
  "change_password_validate b =
     (if current_password b = [] then Inl (Validation ''current_password is required'')
      else if length (current_password b) > 128 then Inl (Validation ''current_password too long'')
      else thenR (validate_password (new_password b)) (Inr ()))"

record reset_request_body =
  rr_email :: string

definition reset_request_validate :: "reset_request_body \<Rightarrow> api_error + unit" where
  "reset_request_validate b = thenR (validate_email (rr_email b)) (Inr ())"

record reset_confirm_body =
  rc_token :: string
  rc_new_password :: string

definition reset_confirm_validate :: "reset_confirm_body \<Rightarrow> api_error + unit" where
  "reset_confirm_validate b =
     (if rc_token b = [] then Inl (Validation ''token is required'')
      else thenR (validate_password (rc_new_password b)) (Inr ()))"

lemmas validate_defs = register_validate_def login_validate_def refresh_validate_def
  logout_validate_def change_password_validate_def reset_request_validate_def
  reset_confirm_validate_def

lemma sum_unit_iff: "(\<exists>x. r = Inr x) \<longleftrightarrow> r = Inr ()" for r :: "'e + unit"
  by auto

text \<open>What each validation admits.\<close>

lemma validate_iffs:
  "register_validate rg = Inr () \<longleftrightarrow> well_formed_email (reg_email rg)
     \<and> 8 \<le> length (reg_password rg) \<and> length (reg_password rg) \<le> 128"
  "login_validate lg = Inr () \<longleftrightarrow> well_formed_email (login_email lg)
     \<and> login_password lg \<noteq> [] \<and> length (login_password lg) \<le> 128"
  "refresh_validate rf = Inr () \<longleftrightarrow> refresh_token rf \<noteq> []"
  "logout_validate lo = Inr () \<longleftrightarrow> logout_token lo \<noteq> []"
  "change_password_validate cp = Inr () \<longleftrightarrow> current_password cp \<noteq> []
     \<and> length (current_password cp) \<le> 128 \<and> 8 \<le> length (new_password cp) \<and> length (new_password cp) \<le> 128"
  "reset_request_validate rr = Inr () \<longleftrightarrow> well_formed_email (rr_email rr)"
  "reset_confirm_validate rc = Inr () \<longleftrightarrow> rc_token rc \<noteq> []
     \<and> 8 \<le> length (rc_new_password rc) \<and> length (rc_new_password rc) \<le> 128"
  unfolding validate_defs thenR_def validate_email_iff [symmetric] validate_password_def
  by (auto split: sum.splits)

lemma validate_errors:
  "register_validate rg = Inl e \<Longrightarrow> \<exists>msg. e = Validation msg"
  "login_validate lg = Inl e \<Longrightarrow> \<exists>msg. e = Validation msg"
  "refresh_validate rf = Inl e \<Longrightarrow> \<exists>msg. e = Validation msg"
  "logout_validate lo = Inl e \<Longrightarrow> \<exists>msg. e = Validation msg"
  "change_password_validate cp = Inl e \<Longrightarrow> \<exists>msg. e = Validation msg"
  "reset_request_validate rr = Inl e \<Longrightarrow> \<exists>msg. e = Validation msg"
  "reset_confirm_validate rc = Inl e \<Longrightarrow> \<exists>msg. e = Validation msg"
  by (auto simp: validate_defs thenR_def validate_password_def
      split: sum.splits if_splits dest!: validate_email_error)

end
