(* ===== verification/App_State.thy ===== *)
theory App_State
  imports Lockout_Store Jwt Password Requests
begin

text \<open>
  The state that a request acts on, \<open>world\<close>: the clock, the database, the cache, the state of the
  outside (random generators, connections) and the mails captured so far. \<open>AppState\<close> of
  \<open>src/lib.rs\<close> is the record \<open>app_state\<close>; with each handle (pool, cache client, signing and hashing
  services) it holds the operations of the crate behind it. \<open>src/email.rs\<close>, the mail client, is here
  because the state holds it. A request is handled at one instant.
\<close>

section \<open>The mail client\<close>

datatype email_client = Postmark string string | Capture

text \<open>The constructors; the vector that \<open>capturing\<close> returns is the part \<open>sent\<close> of the state.\<close>

definition email_client_new :: "string \<Rightarrow> string \<Rightarrow> email_client" where
  "email_client_new api_key from_email = Postmark api_key from_email"

definition email_client_capturing :: "email_client \<times> (string \<times> string) list" where
  "email_client_capturing = (Capture, [])"

datatype email_error = Unreachable http_error | Postmark_Returned nat string

definition newline :: string where
  "newline = [CHR 0x0A]"

definition reset_mail :: "string \<Rightarrow> string \<Rightarrow> string \<Rightarrow> json_object" where
  "reset_mail from_email to reset_link =
     [(''From'', from_email), (''To'', to), (''Subject'', ''Reset your password''),
      (''TextBody'', ''Use the link below to reset your password.'' @ newline
         @ ''It expires in 15 minutes.'' @ newline @ newline @ reset_link),
      (''MessageStream'', ''outbound'')]"

definition is_success :: "http_response \<Rightarrow> bool" where
  "is_success res \<longleftrightarrow> 200 \<le> http_status res \<and> http_status res < 300"

definition send_password_reset ::
    "('g, 'z) env_lib_scheme \<Rightarrow> email_client \<Rightarrow> string \<Rightarrow> string
      \<Rightarrow> ('g \<times> (string \<times> string) list, email_error, unit) io" where
  "send_password_reset E client to reset_link = (\<lambda>(g, sent). case client of
       Postmark api_key from_email \<Rightarrow>
         (case http_post E ''https://api.postmarkapp.com/email''
                 [(''X-Postmark-Server-Token'', api_key)] (reset_mail from_email to reset_link) g of
            (Inl e, g') \<Rightarrow> (Inl (Unreachable e), (g', sent))
          | (Inr res, g') \<Rightarrow>
              if \<not> is_success res
              then (Inl (Postmark_Returned (http_status res)
                      (case http_text res of None \<Rightarrow> [] | Some txt \<Rightarrow> txt)), (g', sent))
              else (Inr (), (g', sent)))
     | Capture \<Rightarrow> (Inr (), (g, sent @ [(to, reset_link)])))"

section \<open>The state\<close>

record ('r, 'g) app_state =
  st_redis :: "'r redis_api"
  st_uuid :: uuid_lib
  st_env :: "'g env_lib"
  st_digest :: digest_lib
  st_to_str :: "string \<Rightarrow> string option"
  st_jwt_crate :: jwt_lib
  st_argon2_crate :: argon2_lib
  st_jwt :: jwt_manager
  st_passwords :: password_service
  st_email :: email_client
  st_app_base_url :: string

record ('r, 'g) world =
  clock :: instant
  db :: database
  cache :: 'r
  gen :: 'g
  sent :: "(string \<times> string) list"

definition on_cache :: "(instant \<Rightarrow> ('r, 'e, 'a) io) \<Rightarrow> (('r, 'g) world, 'e, 'a) io" where
  "on_cache m = (\<lambda>w. case m (clock w) (cache w) of (x, c) \<Rightarrow> (x, w\<lparr>cache := c\<rparr>))"

definition on_db :: "(instant \<Rightarrow> (database \<times> 'g, 'e, 'a) io) \<Rightarrow> (('r, 'g) world, 'e, 'a) io" where
  "on_db m = (\<lambda>w. case m (clock w) (db w, gen w) of (x, (d, g)) \<Rightarrow> (x, w\<lparr>db := d, gen := g\<rparr>))"

definition on_gen :: "(instant \<Rightarrow> ('g, 'e, 'a) io) \<Rightarrow> (('r, 'g) world, 'e, 'a) io" where
  "on_gen m = (\<lambda>w. case m (clock w) (gen w) of (x, g) \<Rightarrow> (x, w\<lparr>gen := g\<rparr>))"

definition on_mail ::
    "('g \<times> (string \<times> string) list, 'e, 'a) io \<Rightarrow> (('r, 'g) world, 'e, 'a) io" where
  "on_mail m = (\<lambda>w. case m (gen w, sent w) of (x, (g, s)) \<Rightarrow> (x, w\<lparr>gen := g, sent := s\<rparr>))"

definition now :: "(('r, 'g) world, 'e, instant) io" where
  "now = (\<lambda>w. (Inr (clock w), w))"

lemma on_cache_iff:
  "on_cache m w = (x, w') \<longleftrightarrow> (\<exists>c. m (clock w) (cache w) = (x, c) \<and> w' = w\<lparr>cache := c\<rparr>)"
  by (auto simp: on_cache_def split: prod.splits)

lemma on_db_iff:
  "on_db m w = (x, w') \<longleftrightarrow>
    (\<exists>d g. m (clock w) (db w, gen w) = (x, (d, g)) \<and> w' = w\<lparr>db := d, gen := g\<rparr>)"
  by (auto simp: on_db_def split: prod.splits)

lemma on_gen_iff:
  "on_gen m w = (x, w') \<longleftrightarrow> (\<exists>g. m (clock w) (gen w) = (x, g) \<and> w' = w\<lparr>gen := g\<rparr>)"
  by (auto simp: on_gen_def split: prod.splits)

lemma on_mail_iff:
  "on_mail m w = (x, w') \<longleftrightarrow>
    (\<exists>g s. m (gen w, sent w) = (x, (g, s)) \<and> w' = w\<lparr>gen := g, sent := s\<rparr>)"
  by (auto simp: on_mail_def split: prod.splits)

lemma now_iff: "now w = (x, w') \<longleftrightarrow> x = Inr (clock w) \<and> w' = w"
  by (auto simp: now_def)

lemmas on_iffs = on_cache_iff on_db_iff on_gen_iff on_mail_iff now_iff

text \<open>No part of a handler moves the clock, and each touches its own component only.\<close>

lemma frames_clock [steps_rules]:
  "frames clock (on_cache m)" "frames clock (on_db n)" "frames clock (on_gen p)"
  "frames clock (on_mail q)" "frames clock now"
  by (rule stepsI; auto simp: on_iffs)+

lemma frames_db [steps_rules]:
  "frames db (on_cache m)" "frames db (on_gen p)" "frames db (on_mail q)" "frames db now"
  by (rule stepsI; auto simp: on_iffs)+

lemma frames_cache [steps_rules]:
  "frames cache (on_db n)" "frames cache (on_gen p)" "frames cache (on_mail q)" "frames cache now"
  by (rule stepsI; auto simp: on_iffs)+

lemma frames_sent [steps_rules]:
  "frames sent (on_cache m)" "frames sent (on_db n)" "frames sent (on_gen p)" "frames sent now"
  by (rule stepsI; auto simp: on_iffs)+

text \<open>An invariant of a component, as an invariant of the whole state.\<close>

lemma keeps_on_cache:
  "(\<And>t. keeps (I t) (m t)) \<Longrightarrow> keeps (\<lambda>w. I (clock w) (cache w)) (on_cache m)"
  by (rule stepsI) (auto simp: on_iffs steps_def, metis snd_conv)

lemma keeps_on_db:
  "(\<And>t. keeps (\<lambda>s. I (fst s)) (m t)) \<Longrightarrow> keeps (\<lambda>w. I (db w)) (on_db m)"
  by (rule stepsI) (auto simp: on_iffs steps_def, metis fst_conv snd_conv)

lemma keeps_of_frames: "frames f m \<Longrightarrow> keeps (\<lambda>s. I (f s)) m"
  by (simp add: steps_def)

lemma keeps_of_frames2: "frames f m \<Longrightarrow> frames g m \<Longrightarrow> keeps (\<lambda>s. I (f s) (g s)) m"
  by (simp add: steps_def)

end
