(* ===== verification/Middleware.thy ===== *)
theory Middleware
  imports App_State
begin

text \<open>
  \<open>src/middleware/mod.rs\<close>: the extractor that authenticates a request by its bearer token, and the
  rate limiter. The limiter is shown to be a fixed-window counter; the last part is what happens to a
  counter that has lost its deadline.
\<close>

section \<open>The bearer token\<close>

datatype auth_error = MissingToken | InvalidAuthToken

fun auth_error_response :: "auth_error \<Rightarrow> response" where
  "auth_error_response MissingToken = respond 401 (Text ''missing authorization token'')"
| "auth_error_response InvalidAuthToken = respond 401 (Text ''invalid or expired token'')"

fun strip_prefix :: "string \<Rightarrow> string \<Rightarrow> string option" where
  "strip_prefix [] s = Some s"
| "strip_prefix (p # ps) [] = None"
| "strip_prefix (p # ps) (c # cs) = (if p = c then strip_prefix ps cs else None)"

lemma strip_prefix_iff: "strip_prefix p s = Some r \<longleftrightarrow> s = p @ r"
  by (induction p s rule: strip_prefix.induct) auto

text \<open>
  The header value is read as text by \<open>HeaderValue::to_str\<close> of the http crate, a parameter; where it
  fails the header counts as missing.
\<close>

definition auth_user ::
    "('r, 'g) app_state \<Rightarrow> string option \<Rightarrow> instant \<Rightarrow> auth_error + claims" where
  "auth_user St authorization t =
     (case Option.bind authorization (st_to_str St) of
        None \<Rightarrow> Inl MissingToken
      | Some auth_header \<Rightarrow>
          (case strip_prefix ''Bearer '' auth_header of
             None \<Rightarrow> Inl MissingToken
           | Some token \<Rightarrow>
               (case verify_access (st_jwt_crate St) (st_jwt St) token t of
                  Inl _ \<Rightarrow> Inl InvalidAuthToken
                | Inr claims \<Rightarrow> Inr claims)))"

section \<open>The rate limiter\<close>

definition RATE_LIMIT_MAX :: u64 where
  "RATE_LIMIT_MAX = 5"

definition RATE_LIMIT_WINDOW_SECS :: int where
  "RATE_LIMIT_WINDOW_SECS = 60"

definition check_rate_limit :: "'r redis_api \<Rightarrow> string \<Rightarrow> instant \<Rightarrow> ('r, redis_error, bool) io" where
  "check_rate_limit R key t =
     bindE (rd_connect R) (\<lambda>_.
     bindE (rd_query R (INCRBY key 1) (to_u64 R) t) (\<lambda>count.
     bindE (if count = 1
            then bindE (rd_exec R (EXPIRE key RATE_LIMIT_WINDOW_SECS) t) (\<lambda>_. okE ())
            else okE ()) (\<lambda>_.
     okE (RATE_LIMIT_MAX < count))))"

definition rate_key :: "string \<Rightarrow> string \<Rightarrow> string" where
  "rate_key route ip = ''rl:'' @ route @ '':'' @ ip"

text \<open>The middleware runs the rest of the stack, \<open>next\<close>, unless the limit is exceeded.\<close>

type_synonym ('r, 'g) service = "('r, 'g) world \<Rightarrow> response \<times> ('r, 'g) world"

definition rate_limit ::
    "('r, 'g) app_state \<Rightarrow> string option \<Rightarrow> string \<Rightarrow> ('r, 'g) service \<Rightarrow> ('r, 'g) service" where
  "rate_limit St connect_info route next_service w =
     (let ip = (case connect_info of None \<Rightarrow> ''unknown'' | Some ip \<Rightarrow> ip)
      in case on_cache (check_rate_limit (st_redis St) (rate_key route ip)) w of
           (Inr True, w') \<Rightarrow> (respond 429 (Text ''too many requests''), w')
         | (Inr False, w') \<Rightarrow> next_service w'
         | (Inl _, w') \<Rightarrow> next_service w')"

section \<open>The limiter is a fixed window\<close>

text \<open>The requests counted for a key at time \<open>t\<close>.\<close>

definition rate_count :: "instant \<Rightarrow> keyspace \<Rightarrow> string \<Rightarrow> int" where
  "rate_count t ks key = (case lookup t ks key of Some (RNum n, _) \<Rightarrow> n | _ \<Rightarrow> 0)"

text \<open>A key of the limiter holds nothing, or a number that the limiter counted to.\<close>

definition rate_ok :: "instant \<Rightarrow> keyspace \<Rightarrow> string \<Rightarrow> bool" where
  "rate_ok t ks key \<longleftrightarrow>
     (\<forall>v d. lookup t ks key = Some (v, d) \<longrightarrow> (\<exists>n. v = RNum n \<and> 1 \<le> n \<and> n < redis_max))"

lemma of_int_u64_less:
  assumes "0 \<le> n" "n < 2 ^ 63"
  shows "RATE_LIMIT_MAX < (of_int n :: u64) \<longleftrightarrow> 5 < n" and "(of_int n :: u64) = 1 \<longleftrightarrow> n = 1"
proof -
  have u: "uint (of_int n :: u64) = n"
    using assms by (simp add: uint_word_of_int take_bit_int_eq_self_iff)
  then show "RATE_LIMIT_MAX < (of_int n :: u64) \<longleftrightarrow> 5 < n"
    by (simp add: word_less_def RATE_LIMIT_MAX_def)
  show "(of_int n :: u64) = 1 \<longleftrightarrow> n = 1"
    using u by (metis of_int_1 uint_1_eq)
qed

text \<open>The outcomes of a run of checks of one key at the given times.\<close>

fun run_checks :: "'r redis_api \<Rightarrow> string \<Rightarrow> instant list \<Rightarrow> ('r, redis_error, bool list) io" where
  "run_checks R key [] = okE []"
| "run_checks R key (t # ts) =
     bindE (check_rate_limit R key t) (\<lambda>b. bindE (run_checks R key ts) (\<lambda>bs. okE (b # bs)))"

context redis_service begin

lemma check_rate_limit_ok:
  assumes ok: "rate_ok t (\<alpha> r) key" and run: "check_rate_limit R key t r = (Inr b, r')"
  shows "b \<longleftrightarrow> 5 \<le> rate_count t (\<alpha> r) key"
    and "lookup t (\<alpha> r) key = None \<Longrightarrow>
      \<alpha> r' = (\<alpha> r)(key \<mapsto> (RNum 1, Some (t + secs RATE_LIMIT_WINDOW_SECS)))"
    and "lookup t (\<alpha> r) key = Some (RNum n, d) \<Longrightarrow> \<alpha> r' = (\<alpha> r)(key \<mapsto> (RNum (n + 1), d))"
proof -
  obtain r1 count r2 where conn: "rd_connect R r = (Inr (), r1)"
    and incr: "rd_query R (INCRBY key 1) (to_u64 R) t r1 = (Inr count, r2)"
    and expire: "count = 1 \<Longrightarrow> \<exists>rep. rd_exec R (EXPIRE key RATE_LIMIT_WINDOW_SECS) t r2 = (Inr rep, r')"
    and other: "count \<noteq> 1 \<Longrightarrow> r' = r2"
    and b: "b \<longleftrightarrow> RATE_LIMIT_MAX < count"
    using run unfolding check_rate_limit_def by (auto elim!: bindE_InrE split: if_splits)
  have \<alpha>1: "\<alpha> r1 = \<alpha> r" using conn by (rule connect)
  obtain rep rep' where rep: "ks_exec (INCRBY key 1) t (\<alpha> r1) = (Inr rep', \<alpha> r2)"
      "same_reply rep rep'" "to_u64 R rep = Inr count"
    using incr by (rule query_InrE)
  have none: "count = 1 \<and> \<alpha> r2 = (\<alpha> r)(key \<mapsto> (RNum 1, None))" if "lookup t (\<alpha> r) key = None"
    using rep that by (auto simp: \<alpha>1 u64_num)
  have some: "count = of_int (n + 1) \<and> \<alpha> r2 = (\<alpha> r)(key \<mapsto> (RNum (n + 1), d))
      \<and> 1 \<le> n \<and> n + 1 < 2 ^ 63"
    if l: "lookup t (\<alpha> r) key = Some (RNum n, d)" for n d
  proof -
    from ok l have "1 \<le> n" "n < redis_max" by (auto simp: rate_ok_def)
    with rep l show ?thesis by (auto simp: \<alpha>1 u64_num redis_max_def split: if_splits)
  qed
  show "\<alpha> r' = (\<alpha> r)(key \<mapsto> (RNum 1, Some (t + secs RATE_LIMIT_WINDOW_SECS)))"
    if "lookup t (\<alpha> r) key = None"
    using none [OF that] expire
    by (auto dest!: exec_ok simp: RATE_LIMIT_WINDOW_SECS_def)
  show "\<alpha> r' = (\<alpha> r)(key \<mapsto> (RNum (n + 1), d))" if "lookup t (\<alpha> r) key = Some (RNum n, d)"
  proof -
    note c = some [OF that]
    then have "count \<noteq> 1" using of_int_u64_less(2) [of "n + 1"] by simp
    with c other show ?thesis by simp
  qed
  show "b \<longleftrightarrow> 5 \<le> rate_count t (\<alpha> r) key"
  proof (cases "lookup t (\<alpha> r) key")
    case None
    with none b show ?thesis by (simp add: rate_count_def RATE_LIMIT_MAX_def)
  next
    case (Some e)
    with ok obtain n d where l: "lookup t (\<alpha> r) key = Some (RNum n, d)"
      by (cases e) (auto simp: rate_ok_def)
    from some [OF l] b l of_int_u64_less(1) [of "n + 1"] show ?thesis
      by (auto simp: rate_count_def)
  qed
qed

text \<open>
  A counter that is alive throughout a run of requests, whatever its deadline, counts them all: the
  \<open>i\<close>-th is refused exactly if at least five were counted before it.
\<close>

lemma run_checks_live:
  assumes "run_checks R key ts r = (Inr bs, r')"
    and "\<alpha> r key = Some (RNum n, D)" and "1 \<le> n" and "n + int (length ts) < redis_max"
    and "\<forall>t \<in> set ts. live t D"
  shows "bs = map (\<lambda>i. 5 \<le> n + int i) [0..<length ts] \<and> \<alpha> r' key = Some (RNum (n + int (length ts)), D)"
  using assms
proof (induction ts arbitrary: r n bs)
  case Nil
  then show ?case by simp
next
  case (Cons t ts)
  from Cons.prems(1) obtain b r1 bs' where check: "check_rate_limit R key t r = (Inr b, r1)"
    and rest: "run_checks R key ts r1 = (Inr bs', r')" and bs: "bs = b # bs'"
    by (auto elim!: bindE_InrE)
  have l: "lookup t (\<alpha> r) key = Some (RNum n, D)" using Cons.prems(2,5) by (simp add: lookup_Some_iff)
  then have "rate_ok t (\<alpha> r) key" using Cons.prems(3,4) by (simp add: rate_ok_def)
  note c = check_rate_limit_ok [OF this check]
  have "\<alpha> r1 key = Some (RNum (n + 1), D)" using c(3) [OF l] by simp
  with rest Cons.prems have "bs' = map (\<lambda>i. 5 \<le> n + 1 + int i) [0..<length ts]
      \<and> \<alpha> r' key = Some (RNum (n + 1 + int (length ts)), D)"
    by (intro Cons.IH) auto
  moreover have "b \<longleftrightarrow> 5 \<le> n" using c(1) l by (simp add: rate_count_def)
  ultimately show ?case
    by (simp add: bs upt_conv_Cons map_Suc_upt [symmetric] comp_def algebra_simps del: upt_Suc)
qed

text \<open>The first check opens the window.\<close>

lemma run_checks_window:
  assumes run: "run_checks R key (t # ts) r = (Inr bs, r')"
    and fresh: "lookup t (\<alpha> r) key = None" and len: "int (length ts) + 1 < redis_max"
    and window: "\<forall>x \<in> set ts. t \<le> x \<and> x < t + secs RATE_LIMIT_WINDOW_SECS"
  shows "bs = map (\<lambda>i. 5 \<le> i) [0..<length (t # ts)]"
proof -
  from run obtain b r1 bs' where check: "check_rate_limit R key t r = (Inr b, r1)"
    and rest: "run_checks R key ts r1 = (Inr bs', r')" and bs: "bs = b # bs'"
    by (auto elim!: bindE_InrE)
  from fresh have "rate_ok t (\<alpha> r) key" by (simp add: rate_ok_def)
  note c = check_rate_limit_ok [OF this check]
  have "\<alpha> r1 key = Some (RNum 1, Some (t + secs RATE_LIMIT_WINDOW_SECS))" using c(2) [OF fresh] by simp
  from run_checks_live [OF rest this] len window
  have "bs' = map (\<lambda>i. 5 \<le> 1 + int i) [0..<length ts]" by simp
  moreover have "b \<longleftrightarrow> False" using c(1) fresh by (simp add: rate_count_def)
  ultimately show ?thesis
    by (simp add: bs upt_conv_Cons map_Suc_upt [symmetric] comp_def del: upt_Suc) 
qed

text \<open>
  If EXPIRE is not answered after the first INCR, the counter can be left without a deadline.
\<close>

lemma check_rate_limit_expire_lost:
  assumes "lookup t (\<alpha> r) key = None" and "rd_connect R r = (Inr (), r1)"
    and "rd_exec R (INCRBY key 1) t r1 = (Inr rep, r2)"
    and "rd_exec R (EXPIRE key RATE_LIMIT_WINDOW_SECS) t r2 = (Inl e, r')" and "\<alpha> r' = \<alpha> r2"
  shows "check_rate_limit R key t r = (Inl e, r')" and "\<alpha> r' key = Some (RNum 1, None)"
proof -
  have \<alpha>1: "\<alpha> r1 = \<alpha> r" using assms(2) by (rule connect)
  from exec_ok [OF assms(3)] assms(1) have rep: "rep = Num 1" "\<alpha> r2 = (\<alpha> r)(key \<mapsto> (RNum 1, None))"
    by (auto simp: \<alpha>1)
  from rep assms(5) show "\<alpha> r' key = Some (RNum 1, None)" by simp
  have "rd_query R (INCRBY key 1) (to_u64 R) t r1 = (Inr 1, r2)"
    using assms(3) rep u64_num [of 1] by (simp add: rd_query_def bindE_def)
  with assms(2,4) show "check_rate_limit R key t r = (Inl e, r')"
    by (simp add: check_rate_limit_def bindE_def)
qed

end

end
