(* ===== verification/Session_Contract.thy ===== *)
theory Session_Contract
  imports Token_Store Lockout_Store
begin

text \<open>
  What the handlers rely on of the token store, as an abstract session table: the locale
  \<open>session_table\<close>. The token store on any cache service satisfies it (\<open>sublocale\<close>), so that the
  facts about rotation, logout and revocation are proved once from the laws.
\<close>

locale session_table =
  fixes sessions :: "instant \<Rightarrow> 's \<Rightarrow> uuid \<Rightarrow> uuid option"
    and inv :: "instant \<Rightarrow> 's \<Rightarrow> bool"
    and store :: "uuid \<Rightarrow> uuid \<Rightarrow> instant \<Rightarrow> ('s, 'e, unit) io"
    and revoke :: "uuid \<Rightarrow> instant \<Rightarrow> ('s, 'e, uuid option) io"
    and revoke_all :: "uuid \<Rightarrow> instant \<Rightarrow> ('s, 'e, nat) io"
    and ttl :: int and orphans :: "uuid set"
  assumes inv_later: "inv t s \<Longrightarrow> t \<le> t' \<Longrightarrow> inv t' s"
    and expired: "inv t s \<Longrightarrow> sessions t' s j = Some u \<Longrightarrow> t \<le> t' \<Longrightarrow> sessions t s j = Some u"
    and store_law: "inv t s \<Longrightarrow> store j u t s = (Inr (), s') \<Longrightarrow> t \<le> t' \<Longrightarrow>
      inv t s' \<and> sessions t' s' = (sessions t' s)(j := if t' < t + secs ttl then Some u else None)"
    and revoke_law: "inv t s \<Longrightarrow> revoke j t s = (Inr v, s') \<Longrightarrow> t \<le> t' \<Longrightarrow>
      inv t s' \<and> v = sessions t s j \<and> sessions t' s' = (sessions t' s)(j := None)"
    and revoke_all_law: "inv t s \<Longrightarrow> revoke_all u t s = (Inr n, s') \<Longrightarrow> t \<le> t' \<Longrightarrow>
      inv t s' \<and> (\<forall>j. sessions t' s' j = Some u \<longrightarrow> j \<in> orphans)
      \<and> (\<forall>j v. sessions t' s' j = Some v \<longrightarrow> sessions t' s j = Some v)"
begin

text \<open>A session lives for its time to live and no longer.\<close>

lemma stored_session:
  assumes "inv t s" and "store j u t s = (Inr (), s1)" and "t \<le> t'" and "revoke j t' s1 = (Inr v, s2)"
  shows "v = (if t' < t + secs ttl then Some u else None)"
proof -
  note st = store_law [OF assms(1,2,3)]
  then have "inv t' s1" using inv_later assms(3) by blast
  from revoke_law [OF this assms(4), of t'] st show ?thesis by simp
qed

text \<open>Rotation: the old token is dead and the new one stands for the same user.\<close>

lemma rotate:
  assumes "inv t s" and "revoke j t s = (Inr v, s1)" and "store j' u t s1 = (Inr (), s2)" and "t \<le> t'"
  shows "inv t s2" and "v = sessions t s j"
    and "sessions t' s2 = (sessions t' s)(j := None, j' := if t' < t + secs ttl then Some u else None)"
  using revoke_law [OF assms(1,2,4)] store_law [OF _ assms(3,4)] by auto

text \<open>A revoked token stays dead: a second revocation at any later time finds nothing.\<close>

lemma revoke_once:
  assumes "inv t s" and "revoke j t s = (Inr v, s1)" and "t \<le> t'" and "revoke j t' s1 = (Inr v', s2)"
  shows "v' = None"
proof -
  note rv = revoke_law [OF assms(1,2,3)]
  then have "inv t' s1" using inv_later assms(3) by blast
  from revoke_law [OF this assms(4), of t'] rv show ?thesis by simp
qed

lemma revoke_all_dead:
  assumes "inv t s" and "revoke_all u t s = (Inr n, s1)" and "t \<le> t'"
    and "sessions t s j = Some u" and "j \<notin> orphans" and "revoke j t' s1 = (Inr v', s2)"
  shows "v' = None"
proof (rule ccontr)
  assume "v' \<noteq> None"
  note all = revoke_all_law [OF assms(1,2,3)]
  then have "inv t' s1" using inv_later assms(3) by blast
  with \<open>v' \<noteq> None\<close> obtain x where x: "sessions t' s1 j = Some x"
    using revoke_law [OF _ assms(6), of t'] by auto
  with all have "sessions t' s j = Some x" by blast
  from expired [OF assms(1) this assms(3)] assms(4) have "x = u" by simp
  with x all assms(5) show False by blast
qed

end

section \<open>The token store satisfies the contract\<close>

definition session_secs :: int where
  "session_secs = 7 * 24 * 3600"

definition refresh_ttl_secs :: u64 where
  "refresh_ttl_secs = 7 * 24 * 3600"

lemma refresh_ttl_secs [simp]:
  "uint refresh_ttl_secs = session_secs" "sint refresh_ttl_secs = session_secs" "0 < session_secs"
  by (simp_all add: refresh_ttl_secs_def session_secs_def)

sublocale session_cache \<subseteq> sessions: session_table
  "\<lambda>t r. session_of U t (\<alpha> r)" "\<lambda>t r. index_inv U session_secs X t (\<alpha> r)"
  "\<lambda>j u. store_refresh_token R U j u refresh_ttl_secs" "revoke_refresh_token R U"
  "revoke_all_sessions R U" session_secs X
  for X
proof unfold_locales
  fix t t' s s' j u v n
  show "index_inv U session_secs X t' (\<alpha> s)" if "index_inv U session_secs X t (\<alpha> s)" "t \<le> t'"
    using that by (rule index_inv_later)
  show "session_of U t (\<alpha> s) j = Some u"
    if "index_inv U session_secs X t (\<alpha> s)" "session_of U t' (\<alpha> s) j = Some u" "t \<le> t'"
  proof -
    have "well_typed U (\<alpha> s)" using that(1) by (simp add: index_inv_def)
    with that(2,3) show ?thesis by (auto simp: session_of_Some_iff intro: live_mono)
  qed
  assume inv: "index_inv U session_secs X t (\<alpha> s)" and le: "t \<le> t'"
  then have wt: "well_typed U (\<alpha> s)" by (simp add: index_inv_def)
  show "index_inv U session_secs X t (\<alpha> s') \<and> session_of U t' (\<alpha> s')
      = (session_of U t' (\<alpha> s))(j := if t' < t + secs session_secs then Some u else None)"
    if "store_refresh_token R U j u refresh_ttl_secs t s = (Inr (), s')"
    using store_index_ok [OF _ _ _ that] store_session_of [OF _ _ le that] inv by simp
  show "index_inv U session_secs X t (\<alpha> s') \<and> v = session_of U t (\<alpha> s) j
      \<and> session_of U t' (\<alpha> s') = (session_of U t' (\<alpha> s))(j := None)"
    if "revoke_refresh_token R U j t s = (Inr v, s')" for v
    using revoke_ok [OF wt that] le stepsD [OF revoke_index_keeps that] inv by blast
  show "index_inv U session_secs X t (\<alpha> s') \<and> (\<forall>j. session_of U t' (\<alpha> s') j = Some u \<longrightarrow> j \<in> X)
      \<and> (\<forall>j v. session_of U t' (\<alpha> s') j = Some v \<longrightarrow> session_of U t' (\<alpha> s) j = Some v)"
    if run: "revoke_all_sessions R U u t s = (Inr n, s')"
  proof (intro conjI allI impI)
    show "index_inv U session_secs X t (\<alpha> s')" using stepsD [OF revoke_all_index_keeps run] inv by blast
    show "\<And>j. session_of U t' (\<alpha> s') j = Some u \<Longrightarrow> j \<in> X"
      using revoke_all_complete [OF inv run _ le] by blast
    show "\<And>j v. session_of U t' (\<alpha> s') j = Some v \<Longrightarrow> session_of U t' (\<alpha> s) j = Some v"
      using revoke_all_ok(2) [OF wt run] by (auto split: if_splits)
  qed
qed

context session_cache begin

lemma store_then_revoke_twice:
  assumes "index_inv U session_secs X t (\<alpha> r)"
    and "store_refresh_token R U j u refresh_ttl_secs t r = (Inr (), r1)" and "t \<le> t'"
    and "revoke_refresh_token R U j t' r1 = (Inr v, r2)" and "t' \<le> t''"
    and "revoke_refresh_token R U j t'' r2 = (Inr v', r3)"
  shows "v = (if t' < t + secs session_secs then Some u else None) \<and> v' = None"
proof -
  have "index_inv U session_secs X t' (\<alpha> r1)"
    using sessions.store_law [OF assms(1,2,3)] sessions.inv_later assms(3) by blast
  with sessions.stored_session [OF assms(1-4)] sessions.revoke_once [OF _ assms(4-6)] show ?thesis by blast
qed

end

section \<open>The invariant of the cache\<close>

text \<open>Both stores keep it, whatever their calls return; their keys are disjoint.\<close>

definition cache_inv :: "uuid_lib \<Rightarrow> uuid set \<Rightarrow> instant \<Rightarrow> keyspace \<Rightarrow> bool" where
  "cache_inv U X t ks \<longleftrightarrow> index_inv U session_secs X t ks \<and> counters_ok ks"

lemma cache_inv_empty: "cache_inv U X t Map.empty"
  by (simp add: cache_inv_def index_inv_empty counters_ok_def)

lemma cache_inv_later: "cache_inv U X t ks \<Longrightarrow> t \<le> t' \<Longrightarrow> cache_inv U X t' ks"
  by (auto simp: cache_inv_def intro: index_inv_later)

lemma cache_inv_weaken: "cache_inv U X t ks \<Longrightarrow> X \<subseteq> Y \<Longrightarrow> cache_inv U Y t ks"
  by (auto simp: cache_inv_def intro: index_inv_weaken)

lemma index_inv_cong:
  assumes "\<And>j. ks' (refresh_key U j) = ks (refresh_key U j)"
    and "\<And>u. ks' (sessions_key U u) = ks (sessions_key U u)"
  shows "index_inv U T X t ks' \<longleftrightarrow> index_inv U T X t ks"
  unfolding index_inv_def well_typed_def bounded_def covered_def assms ..

lemma counters_ok_cong:
  "(\<And>e. ks' (lockout_key e) = ks (lockout_key e)) \<Longrightarrow> counters_ok ks' \<longleftrightarrow> counters_ok ks"
  by (simp add: counters_ok_def)

end
