(* ===== verification/Routes.thy ===== *)
theory Routes
  imports Middleware Session_Contract
begin

text \<open>
  \<open>src/routes/mod.rs\<close>: the handlers. Each is written in the order of the code, with \<open>bindE\<close> for
  every \<open>?\<close> and the early returns as branches; log lines are left to \<open>Event_Log\<close>. A handler that takes an
  \<open>AuthUser\<close> gets the claims that the extractor verified. The last section is what each handler can
  have done when it returned a success.
\<close>

section \<open>Conversions into \<open>api_error\<close>\<close>

definition domain_op :: "(domain_error + 'a) \<Rightarrow> (('r, 'g) world, api_error, 'a) io" where
  "domain_op r = mapErrE api_of_domain (liftE r)"

definition cache_op ::
    "(instant \<Rightarrow> ('r, data_error, 'a) io) \<Rightarrow> (('r, 'g) world, api_error, 'a) io" where
  "cache_op m = mapErrE api_of_data (on_cache m)"

definition db_op ::
    "(instant \<Rightarrow> (database \<times> 'g, data_error, 'a) io) \<Rightarrow> (('r, 'g) world, api_error, 'a) io" where
  "db_op m = mapErrE api_of_data (on_db m)"

definition gen_op ::
    "(instant \<Rightarrow> ('g, domain_error, 'a) io) \<Rightarrow> (('r, 'g) world, api_error, 'a) io" where
  "gen_op m = mapErrE api_of_domain (on_gen m)"

section \<open>The handlers\<close>

definition register ::
    "('r, 'g) app_state \<Rightarrow> register_request \<Rightarrow> (('r, 'g) world, api_error, response) io" where
  "register St b =
     bindE (liftE (register_validate b)) (\<lambda>_.
     bindE (gen_op (\<lambda>_. hash_of (st_argon2_crate St) (st_env St) (st_passwords St) (reg_password b))) (\<lambda>hash.
     bindE (db_op (create_user (st_env St) (reg_email b) hash)) (\<lambda>user.
     okE (respond 201 (Register_Response (user_id user) (user_email user))))))"

definition issue_tokens ::
    "('r, 'g) app_state \<Rightarrow> uuid \<Rightarrow> string \<Rightarrow> (('r, 'g) world, api_error, response) io" where
  "issue_tokens St uid email =
     bindE (gen_op (sign_access_token (st_jwt_crate St) (st_env St) (st_jwt St) uid email)) (\<lambda>access_token.
     bindE (gen_op (sign_refresh_token (st_jwt_crate St) (st_env St) (st_jwt St) uid email))
       (\<lambda>(refresh_token, refresh_jti).
     bindE (cache_op (store_refresh_token (st_redis St) (st_uuid St) refresh_jti uid refresh_ttl_secs)) (\<lambda>_.
     okE (respond 200 (Login_Response access_token refresh_token)))))"

definition login ::
    "('r, 'g) app_state \<Rightarrow> login_request \<Rightarrow> (('r, 'g) world, api_error, response) io" where
  "login St b =
     bindE (liftE (login_validate b)) (\<lambda>_.
     bindE (cache_op (is_locked (st_redis St) (login_email b))) (\<lambda>locked.
     if locked then errE Unauthorized else
     bindE (db_op (\<lambda>_. find_by_email (st_env St) (login_email b))) (\<lambda>found.
     case found of
       None \<Rightarrow> errE Unauthorized
     | Some user \<Rightarrow>
         bindE (domain_op (verify_hash (st_argon2_crate St) (st_passwords St) (login_password b)
                       (password_hash user))) (\<lambda>verified.
         if \<not> verified then
           bindE (cache_op (record_failure (st_redis St) (login_email b))) (\<lambda>attempts.
           errE Unauthorized)
         else
           bindE (cache_op (clear_failures (st_redis St) (login_email b))) (\<lambda>_.
           issue_tokens St (user_id user) (user_email user))))))"

text \<open>The new session of \<open>refresh\<close> is issued by the same three calls as that of \<open>login\<close>.\<close>

definition refresh ::
    "('r, 'g) app_state \<Rightarrow> refresh_request \<Rightarrow> (('r, 'g) world, api_error, response) io" where
  "refresh St b =
     bindE (liftE (refresh_validate b)) (\<lambda>_.
     bindE now (\<lambda>t.
     bindE (mapErrE (\<lambda>_. Unauthorized)
              (liftE (verify_refresh (st_jwt_crate St) (st_jwt St) (refresh_token b) t))) (\<lambda>claims.
     bindE (cache_op (revoke_refresh_token (st_redis St) (st_uuid St) (c_jti claims))) (\<lambda>revoked.
     bindE (ok_orE Unauthorized revoked) (\<lambda>_.
     issue_tokens St (c_sub claims) (c_email claims))))))"

definition me :: "claims \<Rightarrow> (('r, 'g) world, api_error, response) io" where
  "me claims = okE (respond 200 (Me_Response (c_sub claims) (c_email claims)))"

definition change_password ::
    "('r, 'g) app_state \<Rightarrow> claims \<Rightarrow> change_password_request \<Rightarrow> (('r, 'g) world, api_error, response) io" where
  "change_password St claims b =
     bindE (liftE (change_password_validate b)) (\<lambda>_.
     bindE (db_op (\<lambda>_. find_by_id (st_env St) (c_sub claims))) (\<lambda>found.
     bindE (ok_orE Unauthorized found) (\<lambda>user.
     bindE (domain_op (verify_hash (st_argon2_crate St) (st_passwords St) (current_password b)
                   (password_hash user))) (\<lambda>verified.
     if \<not> verified then errE Unauthorized else
     bindE (gen_op (\<lambda>_. hash_of (st_argon2_crate St) (st_env St) (st_passwords St) (new_password b))) (\<lambda>new_hash.
     bindE (db_op (update_password (st_env St) (c_sub claims) new_hash)) (\<lambda>_.
     okE (respond 204 No_Body)))))))"

definition delete_me ::
    "('r, 'g) app_state \<Rightarrow> claims \<Rightarrow> (('r, 'g) world, api_error, response) io" where
  "delete_me St claims =
     bindE (db_op (\<lambda>_. delete_by_id (st_env St) (c_sub claims))) (\<lambda>_.
     okE (respond 204 No_Body))"

definition health :: "('r, 'g) app_state \<Rightarrow> (('r, 'g) world, api_error, response) io" where
  "health St =
     bindE (attemptE (on_db (\<lambda>_. pg_run (st_env St) (\<lambda>d. (Inr (), d))))) (\<lambda>db_res.
     bindE (attemptE (on_cache (\<lambda>t. bindE (rd_connect (st_redis St)) (\<lambda>_. rd_exec (st_redis St) PING t))))
       (\<lambda>redis_res.
     let db_ok = (case db_res of Inl (_ :: sqlx_error) \<Rightarrow> False | Inr _ \<Rightarrow> True);
         redis_ok = (case redis_res of Inl (_ :: redis_error) \<Rightarrow> False | Inr _ \<Rightarrow> True)
     in okE (respond (if db_ok \<and> redis_ok then 200 else 503)
               (Health_Response (if db_ok then ''ok'' else ''error'')
                                (if redis_ok then ''ok'' else ''error'')))))"

definition logout_all ::
    "('r, 'g) app_state \<Rightarrow> claims \<Rightarrow> (('r, 'g) world, api_error, response) io" where
  "logout_all St claims =
     bindE (cache_op (revoke_all_sessions (st_redis St) (st_uuid St) (c_sub claims))) (\<lambda>count.
     okE (respond 204 No_Body))"

definition logout ::
    "('r, 'g) app_state \<Rightarrow> logout_request \<Rightarrow> (('r, 'g) world, api_error, response) io" where
  "logout St b =
     bindE (liftE (logout_validate b)) (\<lambda>_.
     bindE now (\<lambda>t.
     bindE (mapErrE (\<lambda>_. Unauthorized)
              (liftE (verify_refresh (st_jwt_crate St) (st_jwt St) (logout_token b) t))) (\<lambda>claims.
     bindE (cache_op (revoke_refresh_token (st_redis St) (st_uuid St) (c_jti claims))) (\<lambda>_.
     okE (respond 204 No_Body)))))"

definition token_digest :: "digest_lib \<Rightarrow> string \<Rightarrow> string" where
  "token_digest D token = hex_encode D (sha256 D token)"

definition generate_reset_token ::
    "digest_lib \<Rightarrow> ('g, 'z) env_lib_scheme \<Rightarrow> ('g, 'e, string \<times> string) io" where
  "generate_reset_token D E =
     bindE (drawE (fill_bytes E 32)) (\<lambda>bytes.
     let raw = hex_encode D bytes; hash = token_digest D raw in okE (raw, hash))"

definition reset_link :: "string \<Rightarrow> string \<Rightarrow> string" where
  "reset_link base raw = base @ ''/reset-password?token='' @ raw"

definition password_reset_request ::
    "('r, 'g) app_state \<Rightarrow> reset_request_body \<Rightarrow> (('r, 'g) world, api_error, response) io" where
  "password_reset_request St b =
     bindE (liftE (reset_request_validate b)) (\<lambda>_.
     bindE (db_op (\<lambda>_. find_by_email (st_env St) (rr_email b))) (\<lambda>found.
     bindE (case found of
         Some user \<Rightarrow>
           bindE (on_gen (\<lambda>_. generate_reset_token (st_digest St) (st_env St))) (\<lambda>(raw_token, hash).
           bindE now (\<lambda>t.
           bindE (db_op (\<lambda>_. create_reset_token (st_env St) (user_id user) hash (t + secs 900))) (\<lambda>_.
           bindE (attemptE (on_mail (send_password_reset (st_env St) (st_email St) (user_email user)
                    (reset_link (st_app_base_url St) raw_token))))
             (\<lambda>_ :: email_error + unit. okE ()))))
       | None \<Rightarrow> okE ()) (\<lambda>_.
     okE (respond 200 No_Body))))"

definition password_reset_confirm ::
    "('r, 'g) app_state \<Rightarrow> reset_confirm_body \<Rightarrow> (('r, 'g) world, api_error, response) io" where
  "password_reset_confirm St b =
     bindE (liftE (reset_confirm_validate b)) (\<lambda>_.
     let hash = token_digest (st_digest St) (rc_token b) in
     bindE (db_op (consume_reset_token (st_env St) hash)) (\<lambda>consumed.
     bindE (ok_orE (BadRequest ''invalid or expired reset token'') consumed) (\<lambda>uid.
     bindE (gen_op (\<lambda>_. hash_of (st_argon2_crate St) (st_env St) (st_passwords St) (rc_new_password b))) (\<lambda>new_hash.
     bindE (db_op (update_password (st_env St) uid new_hash)) (\<lambda>_.
     bindE (cache_op (revoke_all_sessions (st_redis St) (st_uuid St) uid)) (\<lambda>_.
     okE (respond 200 No_Body)))))))"

text \<open>axum turns the result of a handler into a response.\<close>

definition finish :: "(('r, 'g) world, api_error, response) io \<Rightarrow> ('r, 'g) service" where
  "finish m w = (case m w of (Inl e, w') \<Rightarrow> (into_response e, w') | (Inr res, w') \<Rightarrow> (res, w'))"

end
