(* ===== verification/Cache_Invariant.thy ===== *)
theory Cache_Invariant
  imports Session_Contract Middleware
begin

text \<open>
  Every call that the service makes on the cache keeps \<open>cache_inv\<close>, whatever it returns: the index of
  sessions stays complete and the failure counters stay within the limit. The one exception is a
  failed pipeline of \<open>store_refresh_token\<close>, after which the new jti is exempt.
\<close>

lemma cache_inv_frame:
  assumes "\<And>j. cmd_key c \<noteq> Some (refresh_key U j)" and "\<And>u. cmd_key c \<noteq> Some (sessions_key U u)"
    and "\<And>e. cmd_key c \<noteq> Some (lockout_key e)"
  shows "cache_inv U X t (snd (ks_exec c t' ks)) \<longleftrightarrow> cache_inv U X t ks"
  unfolding cache_inv_def using assms
  by (metis (no_types, lifting) index_inv_cong counters_ok_cong ks_exec_frame)

lemma index_inv_lockout_cmd:
  "cmd_key c = Some (lockout_key e) \<Longrightarrow> index_inv U T X t (snd (ks_exec c t' ks)) \<longleftrightarrow> index_inv U T X t ks"
  by (rule index_inv_cong) (simp_all add: ks_exec_frame del: ks_exec.simps)

lemma counters_session_cmd:
  "(\<And>e. cmd_key c \<noteq> Some (lockout_key e)) \<Longrightarrow> counters_ok (snd (ks_exec c t ks)) \<longleftrightarrow> counters_ok ks"
  by (rule counters_ok_cong) (simp add: ks_exec_frame)

lemma rate_key_other [simp]:
  "rate_key p ip \<noteq> refresh_str_key s" "rate_key p ip \<noteq> refresh_key U j" "rate_key p ip \<noteq> sessions_key U u" "rate_key p ip \<noteq> lockout_key e"
  by (simp_all add: rate_key_def refresh_key_def refresh_str_key_def sessions_key_def lockout_key_def)

section \<open>Commands on a failure counter\<close>

lemma cache_inv_GET: "cache_inv U X t ks \<Longrightarrow> cache_inv U X t (snd (ks_exec (GET k) t ks))"
  by (auto split: option.split redis_value.split)

lemma cache_inv_DEL_lockout:
  "cache_inv U X t ks \<Longrightarrow> cache_inv U X t (snd (ks_exec (DEL (lockout_key e)) t ks))"
  using index_inv_lockout_cmd [of "DEL (lockout_key e)" e U session_secs X t t ks]
  by (simp add: cache_inv_def counters_ok_remove)

lemma counters_INCRBY:
  assumes "counters_ok ks" and "lockout_failures t ks e < 10"
  shows "counters_ok (snd (ks_exec (INCRBY (lockout_key e) 1) t ks))"
  using assms(1)
proof (cases rule: counters_cases [of _ t e])
  case 1
  with assms(1) show ?thesis by (simp add: counters_ok_set)
next
  case (2 n d)
  with assms show ?thesis by (simp add: counters_ok_set)
qed

lemma counters_EXPIRE:
  assumes "counters_ok ks"
  shows "counters_ok (snd (ks_exec (EXPIRE (lockout_key e) w) t ks))"
  using assms
proof (cases rule: counters_cases [of _ t e])
  case 1
  with assms show ?thesis by simp
next
  case (2 n d)
  with assms show ?thesis by (simp add: counters_ok_set counters_ok_remove)
qed

lemma cache_inv_INCRBY:
  "cache_inv U X t ks \<Longrightarrow> lockout_failures t ks e < 10 \<Longrightarrow>
    cache_inv U X t (snd (ks_exec (INCRBY (lockout_key e) 1) t ks))"
  by (simp add: cache_inv_def counters_INCRBY index_inv_lockout_cmd [where e = e] del: ks_exec.simps)

lemma cache_inv_EXPIRE:
  "cache_inv U X t ks \<Longrightarrow> cache_inv U X t (snd (ks_exec (EXPIRE (lockout_key e) w) t ks))"
  by (simp add: cache_inv_def counters_EXPIRE index_inv_lockout_cmd [where e = e] del: ks_exec.simps)

section \<open>The operations\<close>

context session_cache begin

lemma keeps_is_locked: "keeps (\<lambda>r. cache_inv U X t (\<alpha> r)) (is_locked R e t)"
  unfolding is_locked_def by (intro steps_rules keeps_query cache_inv_GET)

lemma keeps_clear_failures: "keeps (\<lambda>r. cache_inv U X t (\<alpha> r)) (clear_failures R e t)"
  unfolding clear_failures_def by (intro steps_rules keeps_exec cache_inv_DEL_lockout)

lemma GET_state: "snd (ks_exec (GET k) t ks) = ks"
  by (auto split: option.split redis_value.split)

lemma is_locked_frame: "keeps (\<lambda>r. \<alpha> r = ks) (is_locked R e t)"
  unfolding is_locked_def by (intro steps_rules keeps_query) (simp add: GET_state del: ks_exec.simps)

lemma record_failure_keeps:
  assumes "cache_inv U X t (\<alpha> r)" and "lockout_failures t (\<alpha> r) e < 10"
    and "record_failure R e t r = (x, r')"
  shows "cache_inv U X t (\<alpha> r')"
  using assms(3) unfolding record_failure_def
proof (rule bindE_state [where Q = "\<lambda>r1. \<alpha> r1 = \<alpha> r"])
  show "\<alpha> r1 = \<alpha> r" if "mapErrE Cache (rd_connect R) r = (y, r1)" for y r1
    using that by (cases y) (auto simp: mapErrE_Inl_iff dest: connect)
  fix a r1 assume r1: "\<alpha> r1 = \<alpha> r"
    and run: "bindE (mapErrE Cache (rd_query R (INCRBY (lockout_key e) 1) (to_u32 R) t)) (\<lambda>count.
      bindE (mapErrE Cache (rd_exec R (EXPIRE (lockout_key e) LOCKOUT_WINDOW_SECS) t)) (\<lambda>_. okE count)) r1
      = (x, r')"
  from run show ?thesis
  proof (rule bindE_state [where Q = "\<lambda>r2. cache_inv U X t (\<alpha> r2)"])
    show "cache_inv U X t (\<alpha> r2)"
      if "mapErrE Cache (rd_query R (INCRBY (lockout_key e) 1) (to_u32 R) t) r1 = (y, r2)" for y r2
    proof -
      from that obtain z where "rd_query R (INCRBY (lockout_key e) 1) (to_u32 R) t r1 = (z, r2)"
        by (cases y) (auto simp: mapErrE_Inl_iff)
      then show ?thesis using query_state assms(1,2) cache_inv_INCRBY r1 by metis
    qed
  next
    fix c r2 assume "cache_inv U X t (\<alpha> r2)"
      and rest: "bindE (mapErrE Cache (rd_exec R (EXPIRE (lockout_key e) LOCKOUT_WINDOW_SECS) t))
        (\<lambda>_. okE c) r2 = (x, r')"
    moreover have "keeps (\<lambda>r. cache_inv U X t (\<alpha> r))
        (bindE (mapErrE Cache (rd_exec R (EXPIRE (lockout_key e) LOCKOUT_WINDOW_SECS) t)) (\<lambda>_. okE c))"
      by (intro steps_rules keeps_exec cache_inv_EXPIRE)
    ultimately show "cache_inv U X t (\<alpha> r')" using stepsD by fastforce
  qed
qed (use assms(1) in simp)

lemma keeps_check_rate_limit: "keeps (\<lambda>r. cache_inv U X t (\<alpha> r)) (check_rate_limit R (rate_key p ip) t)"
  unfolding check_rate_limit_def
  by (intro steps_rules keeps_query) (auto simp: cache_inv_frame intro!: steps_rules keeps_exec
      simp del: ks_exec.simps)

text \<open>The token store does not touch the counters.\<close>

lemma counters_pipe:
  "(\<And>c e. c \<in> set cs \<Longrightarrow> cmd_key c \<noteq> Some (lockout_key e)) \<Longrightarrow>
    keeps (\<lambda>r. counters_ok (\<alpha> r)) (rd_pipe R cs t)"
  by (rule keeps_pipe) (simp add: counters_session_cmd del: ks_exec.simps)

lemma keeps_counters_store: "keeps (\<lambda>r. counters_ok (\<alpha> r)) (store_refresh_token R U j u ttl t)"
  unfolding store_refresh_token_def
  by (intro steps_rules counters_pipe) (auto simp: store_cmds_def)

lemma keeps_counters_drop: "keeps (\<lambda>r. counters_ok (\<alpha> r)) (drop_from_index R U j val t)"
  unfolding drop_from_index_def
  by (auto split: option.split intro!: steps_rules keeps_exec simp: counters_session_cmd simp del: ks_exec.simps)

lemma keeps_counters_revoke: "keeps (\<lambda>r. counters_ok (\<alpha> r)) (revoke_refresh_token R U j t)"
  unfolding revoke_refresh_token_def
  by (intro steps_rules keeps_query keeps_counters_drop)
    (simp add: counters_session_cmd del: ks_exec.simps)

lemma keeps_counters_revoke_all: "keeps (\<lambda>r. counters_ok (\<alpha> r)) (revoke_all_sessions R U u t)"
proof -
  have "keeps (\<lambda>r. counters_ok (\<alpha> r)) (rd_pipe R (revoke_cmds U u js) t)" for js
    by (rule counters_pipe) (auto simp: revoke_cmds_def)
  then show ?thesis
    unfolding revoke_all_sessions_def
    by (auto intro!: steps_rules keeps_query simp: counters_session_cmd simp del: ks_exec.simps)
qed

lemma keeps_revoke: "keeps (\<lambda>r. cache_inv U X t (\<alpha> r)) (revoke_refresh_token R U j t)"
  unfolding cache_inv_def by (rule keeps_conj [OF revoke_index_keeps keeps_counters_revoke])

lemma keeps_revoke_all: "keeps (\<lambda>r. cache_inv U X t (\<alpha> r)) (revoke_all_sessions R U u t)"
  unfolding cache_inv_def by (rule keeps_conj [OF revoke_all_index_keeps keeps_counters_revoke_all])

lemma store_keeps:
  assumes "cache_inv U X t (\<alpha> r)" and "store_refresh_token R U j u refresh_ttl_secs t r = (x, r')"
  shows "cache_inv U (insert j X) t (\<alpha> r')" and "x = Inr () \<Longrightarrow> cache_inv U X t (\<alpha> r')"
  using assms stepsD [OF keeps_counters_store assms(2)] store_index_any [where ttl = refresh_ttl_secs and X = X and r = r]
    store_index_ok [where ttl = refresh_ttl_secs and X = X and r = r] unfolding cache_inv_def by simp_all

lemma failures_session_cmd:
  "(\<And>e. cmd_key c \<noteq> Some (lockout_key e)) \<Longrightarrow>
    lockout_failures t' (snd (ks_exec c t ks)) = lockout_failures t' ks"
  by (simp add: lockout_failures_def lookup_def ks_exec_frame fun_eq_iff)

lemma store_failures_frame:
  "keeps (\<lambda>r. lockout_failures t' (\<alpha> r) = f) (store_refresh_token R U j u ttl t)"
  unfolding store_refresh_token_def
  by (intro steps_rules keeps_pipe) (auto simp: store_cmds_def failures_session_cmd simp del: ks_exec.simps)

text \<open>
  No call but \<open>store_refresh_token\<close> makes a session, and that one only for its own jti: a session that
  is not there is not there afterwards.
\<close>

definition silent_cmd :: "redis_cmd \<Rightarrow> bool" where
  "silent_cmd c \<longleftrightarrow>
     (\<forall>j. cmd_key c = Some (refresh_key U j) \<longrightarrow> c = DEL (refresh_key U j) \<or> c = GETDEL (refresh_key U j))"

lemma silent_exec:
  assumes c: "silent_cmd c" and "session_of U t' (snd (ks_exec c t ks)) j = Some u"
  shows "session_of U t' ks j = Some u"
proof (cases "cmd_key c = Some (refresh_key U j)")
  case True
  have gone: "session_of U t' (ks(refresh_key U j := None)) j \<noteq> Some u" by (simp add: session_of_def)
  from True c have "c = DEL (refresh_key U j) \<or> c = GETDEL (refresh_key U j)"
    by (auto simp: silent_cmd_def)
  then show ?thesis
    using gone assms(2) by (auto split: option.splits redis_value.splits prod.splits)
next
  case False
  then have "snd (ks_exec c t ks) (refresh_key U j) = ks (refresh_key U j)" by (rule ks_exec_frame)
  then show ?thesis using assms(2) by (simp add: session_of_def lookup_def)
qed

lemma silent_cmds:
  "silent_cmd (GET (lockout_key e))" "silent_cmd (INCRBY (lockout_key e) n)" "silent_cmd PING"
  "silent_cmd (EXPIRE (lockout_key e) n)" "silent_cmd (DEL (lockout_key e))"
  "silent_cmd (INCRBY (rate_key p ip) n)" "silent_cmd (EXPIRE (rate_key p ip) n)"
  "silent_cmd (SREM (sessions_key U u) m)" "silent_cmd (SMEMBERS (sessions_key U u))"
  "silent_cmd (GETDEL (refresh_key U i))" "silent_cmd (DEL (refresh_str_key s))"
  "silent_cmd (DEL (sessions_key U u))"
  by (auto simp: silent_cmd_def refresh_key_def)

abbreviation creates_none :: "instant \<Rightarrow> uuid \<Rightarrow> uuid \<Rightarrow> ('r, 'e, 'a) io \<Rightarrow> bool" where
  "creates_none t' j u m \<equiv> keeps (\<lambda>r. session_of U t' (\<alpha> r) j \<noteq> Some u) m"

lemma creates_none_calls:
  "silent_cmd c \<Longrightarrow> creates_none t' j u (rd_exec R c t)"
  "silent_cmd c \<Longrightarrow> creates_none t' j u (rd_query R c conv t)"
  "(\<And>c. c \<in> set cs \<Longrightarrow> silent_cmd c) \<Longrightarrow> creates_none t' j u (rd_pipe R cs t)"
  by (rule keeps_exec keeps_query keeps_pipe; use silent_exec in blast)+

lemma creates_none_ops:
  "creates_none t' j u (is_locked R e t)" "creates_none t' j u (record_failure R e t)"
  "creates_none t' j u (clear_failures R e t)" "creates_none t' j u (check_rate_limit R (rate_key p ip) t)"
  "creates_none t' j u (drop_from_index R U i val t)"
  unfolding is_locked_def record_failure_def clear_failures_def check_rate_limit_def drop_from_index_def
  by (auto intro!: steps_rules creates_none_calls silent_cmds split: option.split)

lemma creates_none_revoke: "creates_none t' j u (revoke_refresh_token R U i t)"
  unfolding revoke_refresh_token_def
  by (intro steps_rules creates_none_calls silent_cmds creates_none_ops)

lemma silent_revoke_cmds: "c \<in> set (revoke_cmds U v js) \<Longrightarrow> silent_cmd c"
  by (auto simp: revoke_cmds_def silent_cmds)

lemma creates_none_revoke_all: "creates_none t' j u (revoke_all_sessions R U v t)"
  unfolding revoke_all_sessions_def
  by (auto intro!: steps_rules creates_none_calls silent_cmds dest: silent_revoke_cmds)

lemma creates_none_store: "i \<noteq> j \<Longrightarrow> creates_none t' j u (store_refresh_token R U i v ttl t)"
proof -
  assume "i \<noteq> j"
  have "session_of U t' (snd (ks_exec c t ks)) j = session_of U t' ks j" if "c \<in> set (store_cmds U i v ttl)" for c ks
  proof -
    have "snd (ks_exec c t ks) (refresh_key U j) = ks (refresh_key U j)"
      by (rule ks_exec_frame) (use that \<open>i \<noteq> j\<close> in \<open>auto simp: store_cmds_def\<close>)
    then show ?thesis by (simp add: session_of_def lookup_def)
  qed
  then show ?thesis
    unfolding store_refresh_token_def by (intro steps_rules keeps_pipe) simp
qed

end

end
