(* ===== verification/Auth_Service.thy ===== *)
theory Auth_Service
  imports Routes Cache_Invariant "HOL-Library.Sublist"
begin

text \<open>
  The handlers as operations on the whole state, under the documented behaviour of what they call:
  the locale \<open>auth_service\<close> combines the contracts of the cache, the UUID codec and the signing
  library with the freshness of random UUIDs. The relation \<open>evo N\<close> says what a handler may do: it
  keeps the invariant \<open>svc_inv N\<close> and revives no session. \<open>N\<close> are the jtis of the refresh tokens that
  were handed out; the jtis that were drawn but never handed out are exempt from the index.
\<close>

section \<open>The log of random UUIDs\<close>

text \<open>
  \<open>drawn g\<close>: the UUIDs that \<open>Uuid::new_v4\<close> has returned before the state \<open>g\<close>, the latest first. The
  locale only says that it is such a log. That they were all different, which is what the code relies
  on, is the condition \<open>distinct (drawn g)\<close> on a run.
\<close>

locale draw_log =
  fixes E :: "'g env_lib" and drawn :: "'g \<Rightarrow> uuid list"
  assumes log_new: "new_v4 E g = (u, g') \<Longrightarrow> drawn g' = u # drawn g"
    and log_next: "pg_next E g = (x, g') \<Longrightarrow> drawn g' = drawn g"
    and log_uuid: "pg_uuid E g = (v, g') \<Longrightarrow> drawn g' = drawn g"
    and log_salt: "new_salt E g = (s, g') \<Longrightarrow> drawn g' = drawn g"
    and log_fill: "fill_bytes E n g = (s, g') \<Longrightarrow> drawn g' = drawn g"
    and log_http: "http_post E url hs js g = (y, g') \<Longrightarrow> drawn g' = drawn g"
begin

abbreviation grows :: "('g, 'e, 'a) io \<Rightarrow> bool" where
  "grows m \<equiv> steps (\<lambda>g g'. suffix (drawn g) (drawn g')) m"

abbreviation grows_snd :: "('s \<times> 'g, 'e, 'a) io \<Rightarrow> bool" where
  "grows_snd m \<equiv> steps (\<lambda>s s'. suffix (drawn (snd s)) (drawn (snd s'))) m"

lemma grows_refl_trans [simp, steps_rules]:
  "reflp (\<lambda>g g'. suffix (drawn g) (drawn g'))" "transp (\<lambda>g g'. suffix (drawn g) (drawn g'))"
  "reflp (\<lambda>s s'. suffix (drawn (snd s)) (drawn (snd s')))"
  "transp (\<lambda>s s'. suffix (drawn (snd s)) (drawn (snd s')))"
  by (auto simp: reflp_def transp_def intro: suffix_order.trans)

lemma grows_draw:
  "grows (drawE (new_v4 E))" "grows (drawE (new_salt E))" "grows (drawE (fill_bytes E n))"
  using log_new log_salt log_fill
  by (auto simp: steps_def drawE_def suffix_ConsI split: prod.split)

lemma grows_hash_of: "grows (hash_of A E P pw)"
  unfolding hash_of_def by (intro steps_rules grows_draw)

lemma grows_sign: "grows (sign_with_claims J E M uid email ttl k t)"
  unfolding sign_with_claims_def Let_def by (intro steps_rules grows_draw)

lemma grows_sign_access: "grows (sign_access_token J E M uid email t)"
  unfolding sign_access_token_def by (auto intro!: steps_rules grows_sign split: prod.split)

lemma grows_sign_refresh: "grows (sign_refresh_token J E M uid email t)"
  unfolding sign_refresh_token_def by (auto intro!: steps_rules grows_sign split: prod.split)

lemma grows_generate: "grows (generate_reset_token D E)"
  unfolding generate_reset_token_def Let_def by (intro steps_rules grows_draw)

lemma grows_pg_run: "grows_snd (pg_run E stmt)"
  by (rule stepsI) (auto simp: pg_run_def dest: log_next split: prod.splits pg_outcome.splits)

lemma grows_pg_run_with_id: "grows_snd (pg_run_with_id E stmt)"
proof (rule stepsI)
  fix s x s' assume run: "pg_run_with_id E stmt s = (x, s')"
  obtain d g where s: "s = (d, g)" by (cases s)
  obtain u g1 where id: "pg_uuid E g = (u, g1)" by (cases "pg_uuid E g")
  with run s have "pg_run E (stmt u) (d, g1) = (x, s')" by (simp add: pg_run_with_id_def)
  from stepsD [OF grows_pg_run this] log_uuid [OF id]
  show "suffix (drawn (snd s)) (drawn (snd s'))" by (simp add: s)
qed

lemma grows_repositories:
  "grows_snd (create_user E e h t)" "grows_snd (find_by_email E e)" "grows_snd (find_by_id E i)"
  "grows_snd (update_password E i h t)" "grows_snd (delete_by_id E i)"
  "grows_snd (create_reset_token E i h t)" "grows_snd (consume_reset_token E h t)"
  unfolding create_user_def find_by_email_def find_by_id_def update_password_def delete_by_id_def
    create_reset_token_def consume_reset_token_def
  by (auto intro!: steps_rules grows_pg_run grows_pg_run_with_id)

lemma grows_mail: "steps (\<lambda>s s'. suffix (drawn (fst s)) (drawn (fst s'))) (send_password_reset E c to link)"
  by (rule stepsI)
    (auto simp: send_password_reset_def dest!: log_http
      split: prod.splits email_client.splits sum.splits if_splits)

end

section \<open>The repositories keep the constraints\<close>

lemma keeps_repositories:
  "keeps (\<lambda>s. db_ok (fst s)) (create_user L e h t)" "keeps (\<lambda>s. db_ok (fst s)) (find_by_email L e)"
  "keeps (\<lambda>s. db_ok (fst s)) (find_by_id L i)" "keeps (\<lambda>s. db_ok (fst s)) (update_password L i h t)"
  "keeps (\<lambda>s. db_ok (fst s)) (delete_by_id L i)" "keeps (\<lambda>s. db_ok (fst s)) (create_reset_token L i h t)"
  "keeps (\<lambda>s. db_ok (fst s)) (consume_reset_token L h t)"
  unfolding create_user_def find_by_email_def find_by_id_def update_password_def delete_by_id_def
    create_reset_token_def consume_reset_token_def
  by (auto intro!: steps_rules keeps_pg_run keeps_pg_run_with_id db_ok_rules)

section \<open>The service\<close>

locale auth_service =
  session_cache "st_redis St" \<alpha> "st_uuid St" + jwt_library "st_jwt_crate St" keypair
    + draw_log "st_env St" drawn
  for St :: "('r, 'g) app_state" and \<alpha> :: "'r \<Rightarrow> keyspace" and keypair and drawn +
  assumes keys: "keypair (encoding_key (st_jwt St)) (decoding_key (st_jwt St))"
    and lifetimes: "access_ttl (st_jwt St) = secs (15 * 60)" "refresh_ttl (st_jwt St) = secs session_secs"

definition svc_inv ::
    "('r, 'g) app_state \<Rightarrow> ('r \<Rightarrow> keyspace) \<Rightarrow> ('g \<Rightarrow> uuid list) \<Rightarrow> uuid set \<Rightarrow> ('r, 'g) world \<Rightarrow> bool" where
  "svc_inv St \<alpha> drawn N w \<longleftrightarrow> db_ok (db w) \<and> N \<subseteq> set (drawn (gen w))
     \<and> cache_inv (st_uuid St) (set (drawn (gen w)) - N) (clock w) (\<alpha> (cache w))"

definition revives_none ::
    "('r, 'g) app_state \<Rightarrow> ('r \<Rightarrow> keyspace) \<Rightarrow> ('g \<Rightarrow> uuid list) \<Rightarrow> ('r, 'g) world \<Rightarrow> ('r, 'g) world \<Rightarrow> bool" where
  "revives_none St \<alpha> drawn w w' \<longleftrightarrow>
     (\<forall>t j u. j \<in> set (drawn (gen w)) \<longrightarrow> session_of (st_uuid St) t (\<alpha> (cache w')) j = Some u \<longrightarrow>
        session_of (st_uuid St) t (\<alpha> (cache w)) j = Some u)"

definition evo ::
    "('r, 'g) app_state \<Rightarrow> ('r \<Rightarrow> keyspace) \<Rightarrow> ('g \<Rightarrow> uuid list) \<Rightarrow> uuid set \<Rightarrow>
      ('r, 'g) world \<Rightarrow> ('r, 'g) world \<Rightarrow> bool" where
  "evo St \<alpha> drawn N w w' \<longleftrightarrow> clock w' = clock w \<and> suffix (drawn (gen w)) (drawn (gen w'))
     \<and> (svc_inv St \<alpha> drawn N w \<longrightarrow> distinct (drawn (gen w')) \<longrightarrow>
          svc_inv St \<alpha> drawn N w' \<and> revives_none St \<alpha> drawn w w')"

lemma evo_same: "evo St \<alpha> drawn N w w"
  by (simp add: evo_def revives_none_def)

lemma evo_refl [simp, steps_rules]: "reflp (evo St \<alpha> drawn N)"
  by (simp add: evo_same reflp_def)

lemma suffix_distinct: "suffix xs ys \<Longrightarrow> distinct ys \<Longrightarrow> distinct xs"
  by (auto simp: suffix_def)

lemma evo_trans [simp, steps_rules]: "transp (evo St \<alpha> drawn N)"
proof (rule transpI)
  fix w w1 w2 assume a: "evo St \<alpha> drawn N w w1" "evo St \<alpha> drawn N w1 w2"
  then have s: "suffix (drawn (gen w)) (drawn (gen w1))" "suffix (drawn (gen w1)) (drawn (gen w2))"
    by (simp_all add: evo_def)
  from a suffix_distinct [OF s(2)] set_mono_suffix [OF s(1)]
  show "evo St \<alpha> drawn N w w2"
    unfolding evo_def revives_none_def by (fastforce intro: suffix_order.trans [OF s])
qed

lemma evoD:
  assumes "evo St \<alpha> drawn N w w'" and "svc_inv St \<alpha> drawn N w" and "distinct (drawn (gen w'))"
  shows "svc_inv St \<alpha> drawn N w'" and "clock w' = clock w"
    and "set (drawn (gen w)) \<subseteq> set (drawn (gen w'))" and "distinct (drawn (gen w))"
    and "j \<in> set (drawn (gen w)) \<Longrightarrow> session_of (st_uuid St) t (\<alpha> (cache w')) j = Some u \<Longrightarrow>
      session_of (st_uuid St) t (\<alpha> (cache w)) j = Some u"
  using assms by (auto simp: evo_def revives_none_def intro: suffix_distinct dest: set_mono_suffix)

text \<open>A change of the generator or of the database only.\<close>

lemma evo_other:
  assumes "cache w' = cache w" and "clock w' = clock w" and "suffix (drawn (gen w)) (drawn (gen w'))"
    and "db_ok (db w) \<Longrightarrow> db_ok (db w')"
  shows "evo St \<alpha> drawn N w w'"
proof -
  have "cache_inv (st_uuid St) (set (drawn (gen w')) - N) (clock w) (\<alpha> (cache w))"
    if "cache_inv (st_uuid St) (set (drawn (gen w)) - N) (clock w) (\<alpha> (cache w))"
    by (rule cache_inv_weaken [OF that]) (use set_mono_suffix [OF assms(3)] in blast)
  with assms set_mono_suffix [OF assms(3)] show ?thesis by (auto simp: evo_def svc_inv_def revives_none_def)
qed

text \<open>The jti of the refresh token that is issued next.\<close>

definition fresh_jti :: "('r, 'g) app_state \<Rightarrow> ('r, 'g) world \<Rightarrow> uuid" where
  "fresh_jti St w = fst (new_v4 (st_env St) (snd (new_v4 (st_env St) (gen w))))"

lemma evo_on_gen:
  fixes St :: "('r, 'g) app_state"
  assumes "\<And>t. steps (\<lambda>g g'. suffix (drawn g) (drawn g')) (m t)"
  shows "steps (evo St \<alpha> drawn N) (on_gen m)"
proof (rule stepsI)
  fix w :: "('r, 'g) world" and x w' assume "on_gen m w = (x, w')"
  then obtain g where "m (clock w) (gen w) = (x, g)" "w' = w\<lparr>gen := g\<rparr>" by (auto simp: on_gen_iff)
  with stepsD [OF assms this(1)] show "evo St \<alpha> drawn N w w'" by (intro evo_other) simp_all
qed

lemma evo_on_db:
  fixes St :: "('r, 'g) app_state"
  assumes "\<And>t. steps (\<lambda>s s'. suffix (drawn (snd s)) (drawn (snd s'))) (m t)"
    and "\<And>t. keeps (\<lambda>s. db_ok (fst s)) (m t)"
  shows "steps (evo St \<alpha> drawn N) (on_db m)"
proof (rule stepsI)
  fix w :: "('r, 'g) world" and x w' assume "on_db m w = (x, w')"
  then obtain d g where "m (clock w) (db w, gen w) = (x, (d, g))" "w' = w\<lparr>db := d, gen := g\<rparr>"
    by (auto simp: on_db_iff)
  with stepsD [OF assms(1) this(1)] stepsD [OF assms(2) this(1)]
  show "evo St \<alpha> drawn N w w'" by (intro evo_other) simp_all
qed

lemma evo_on_mail:
  fixes St :: "('r, 'g) app_state"
  assumes "steps (\<lambda>s s'. suffix (drawn (fst s)) (drawn (fst s'))) m"
  shows "steps (evo St \<alpha> drawn N) (on_mail m)"
proof (rule stepsI)
  fix w :: "('r, 'g) world" and x w' assume "on_mail m w = (x, w')"
  then obtain g s where "m (gen w, sent w) = (x, (g, s))" "w' = w\<lparr>gen := g, sent := s\<rparr>"
    by (auto simp: on_mail_iff)
  with stepsD [OF assms this(1)] show "evo St \<alpha> drawn N w w'" by (intro evo_other) simp_all
qed

lemma evo_on_cache:
  fixes St :: "('r, 'g) app_state"
  assumes "\<And>t X. keeps (\<lambda>r. cache_inv (st_uuid St) X t (\<alpha> r)) (m t)"
    and "\<And>t t' j u. keeps (\<lambda>r. session_of (st_uuid St) t' (\<alpha> r) j \<noteq> Some u) (m t)"
  shows "steps (evo St \<alpha> drawn N) (on_cache m)"
proof (rule stepsI)
  fix w :: "('r, 'g) world" and x w' assume "on_cache m w = (x, w')"
  then obtain c where m: "m (clock w) (cache w) = (x, c)" "w' = w\<lparr>cache := c\<rparr>"
    by (auto simp: on_cache_iff)
  have "session_of (st_uuid St) t (\<alpha> (cache w)) j = Some u"
    if "session_of (st_uuid St) t (\<alpha> c) j = Some u" for t j u
    using stepsD [OF assms(2) m(1)] that by blast
  moreover have "cache_inv (st_uuid St) X (clock w) (\<alpha> c)" if "cache_inv (st_uuid St) X (clock w) (\<alpha> (cache w))" for X
    using stepsD [OF assms(1) m(1)] that by blast
  ultimately show "evo St \<alpha> drawn N w w'"
    using m(2) by (simp add: evo_def svc_inv_def revives_none_def)
qed

context auth_service begin

abbreviation evolves :: "uuid set \<Rightarrow> (('r, 'g) world, 'e, 'a) io \<Rightarrow> bool" where
  "evolves N m \<equiv> steps (evo St \<alpha> drawn N) m"

lemma evolves_liftE: "evolves N (liftE q)" "evolves N (domain_op r)" "evolves N now"
  "evolves N (ok_orE e o')" "evolves N (okE a)" "evolves N (errE e)"
  unfolding domain_op_def by (intro steps_rules stepsI; auto simp: now_def evo_same)+

lemma evolves_gen:
  "evolves N (gen_op (\<lambda>_. hash_of A (st_env St) P pw))"
  "evolves N (gen_op (sign_access_token J (st_env St) M uid email))"
  "evolves N (gen_op (sign_refresh_token J (st_env St) M uid email))"
  "evolves N (on_gen (\<lambda>_. generate_reset_token D (st_env St)))"
  unfolding gen_op_def
  by (intro steps_rules evo_on_gen grows_hash_of grows_sign_access grows_sign_refresh grows_generate)+

lemma evolves_db:
  "evolves N (db_op (create_user (st_env St) e h))" "evolves N (db_op (\<lambda>_. find_by_email (st_env St) e))"
  "evolves N (db_op (\<lambda>_. find_by_id (st_env St) i))" "evolves N (db_op (update_password (st_env St) i h))"
  "evolves N (db_op (\<lambda>_. delete_by_id (st_env St) i))"
  "evolves N (db_op (\<lambda>_. create_reset_token (st_env St) i h x))"
  "evolves N (db_op (consume_reset_token (st_env St) h))"
  unfolding db_op_def by (intro steps_rules evo_on_db grows_repositories keeps_repositories)+

lemma evolves_cache:
  "evolves N (cache_op (is_locked (st_redis St) e))"
  "evolves N (cache_op (clear_failures (st_redis St) e))"
  "evolves N (cache_op (revoke_refresh_token (st_redis St) (st_uuid St) j))"
  "evolves N (cache_op (revoke_all_sessions (st_redis St) (st_uuid St) u))"
  "evolves N (on_cache (check_rate_limit (st_redis St) (rate_key p ip)))"
  unfolding cache_op_def
  by (intro steps_rules evo_on_cache keeps_is_locked keeps_clear_failures keeps_revoke keeps_revoke_all
      keeps_check_rate_limit creates_none_ops creates_none_revoke creates_none_revoke_all)+

lemma evolves_health_db: "evolves N (on_db (\<lambda>_. pg_run (st_env St) (\<lambda>d. (Inr (), d))))"
  by (intro evo_on_db grows_pg_run keeps_pg_run) simp

lemma evolves_health_cache:
  "evolves N (on_cache (\<lambda>t. bindE (rd_connect (st_redis St)) (\<lambda>_. rd_exec (st_redis St) PING t)))"
  by (intro evo_on_cache steps_rules keeps_exec creates_none_calls silent_cmds) simp

lemma evolves_mail: "evolves N (on_mail (send_password_reset (st_env St) c to link))"
  by (intro evo_on_mail grows_mail)

lemmas evolves_rules = evolves_liftE evolves_gen evolves_db evolves_cache evolves_health_db
  evolves_health_cache evolves_mail

text \<open>The handlers that issue no refresh token.\<close>

lemma evolves_register: "evolves N (register St b)"
  unfolding register_def by (intro steps_rules evolves_rules)

lemma evolves_me: "evolves N (me c)"
  unfolding me_def by (rule evolves_rules)

lemma evolves_change_password: "evolves N (change_password St c b)"
  unfolding change_password_def by (auto intro!: steps_rules evolves_rules)

lemma evolves_delete_me: "evolves N (delete_me St c)"
  unfolding delete_me_def by (intro steps_rules evolves_rules)

lemma evolves_health: "evolves N (health St)"
  unfolding health_def Let_def by (intro steps_rules evolves_rules)

lemma evolves_logout_all: "evolves N (logout_all St c)"
  unfolding logout_all_def by (intro steps_rules evolves_rules)

lemma evolves_logout: "evolves N (logout St b)"
  unfolding logout_def by (intro steps_rules evolves_rules)

lemma evolves_reset_request: "evolves N (password_reset_request St b)"
  unfolding password_reset_request_def
  by (auto intro!: steps_rules evolves_rules split: option.split prod.split)

lemma evolves_reset_confirm: "evolves N (password_reset_confirm St b)"
  unfolding password_reset_confirm_def Let_def by (intro steps_rules evolves_rules)

section \<open>Issuing a session\<close>

lemma sign_op_ok:
  assumes "gen_op (sign_access_token (st_jwt_crate St) (st_env St) (st_jwt St) uid email) w = (Inr a, w1)"
    and "gen_op (sign_refresh_token (st_jwt_crate St) (st_env St) (st_jwt St) uid email) w1 = (Inr (r, j), w2)"
  shows "cache w1 = cache w" "clock w1 = clock w" "db w1 = db w"
    and "cache w2 = cache w" "clock w2 = clock w" "db w2 = db w" "j = fresh_jti St w"
    and "drawn (gen w2) = j # drawn (gen w1)" "suffix (drawn (gen w)) (drawn (gen w1))"
    and "verify_access (st_jwt_crate St) (st_jwt St) a t =
      (if timestamp (clock w) + 900 < timestamp t - jwt_leeway (st_jwt_crate St)
       then Inl (InvalidToken Expired_Signature)
       else Inr \<lparr>c_sub = uid, c_email = email, c_iat = timestamp (clock w),
         c_exp = timestamp (clock w) + 900, c_jti = fst (new_v4 (st_env St) (gen w)), c_kind = Access\<rparr>)"
    and "verify_refresh (st_jwt_crate St) (st_jwt St) r t =
      (if timestamp (clock w) + session_secs < timestamp t - jwt_leeway (st_jwt_crate St)
       then Inl (InvalidToken Expired_Signature)
       else Inr \<lparr>c_sub = uid, c_email = email, c_iat = timestamp (clock w),
         c_exp = timestamp (clock w) + session_secs, c_jti = j, c_kind = Refresh\<rparr>)"
    and "verify_refresh (st_jwt_crate St) (st_jwt St) a t \<noteq> Inr c"
    and "verify_access (st_jwt_crate St) (st_jwt St) r t \<noteq> Inr c"
proof -
  from assms(1) obtain ca g1 where sa: "sign_with_claims (st_jwt_crate St) (st_env St) (st_jwt St) uid email
      (secs 900) Access (clock w) (gen w) = (Inr (a, ca), g1)" and w1: "w1 = w\<lparr>gen := g1\<rparr>"
    by (auto simp: gen_op_def on_gen_iff sign_access_token_def lifetimes elim!: bindE_InrE)
  from assms(2) obtain cr g2 where sr: "sign_with_claims (st_jwt_crate St) (st_env St) (st_jwt St) uid email
      (secs session_secs) Refresh (clock w) g1 = (Inr (r, cr), g2)" and w2: "w2 = w\<lparr>gen := g2\<rparr>"
    and j: "j = c_jti cr"
    by (auto simp: gen_op_def on_gen_iff sign_refresh_token_def lifetimes w1 elim!: bindE_InrE)
  note da = decode_signed [OF keys sa] and dr = decode_signed [OF keys sr]
  show "cache w1 = cache w" "clock w1 = clock w" "db w1 = db w"
    "cache w2 = cache w" "clock w2 = clock w" "db w2 = db w" by (simp_all add: w1 w2)
  show "j = fresh_jti St w" using da(2) dr(1) j by (simp add: fresh_jti_def)
  have "new_v4 (st_env St) g1 = (j, g2)" using dr(1,2) j by (simp add: prod_eq_iff)
  from log_new [OF this] show "drawn (gen w2) = j # drawn (gen w1)" by (simp add: w1 w2)
  from stepsD [OF grows_sign sa] show "suffix (drawn (gen w)) (drawn (gen w1))" by (simp add: w1)
  show "verify_access (st_jwt_crate St) (st_jwt St) a t =
      (if timestamp (clock w) + 900 < timestamp t - jwt_leeway (st_jwt_crate St)
       then Inl (InvalidToken Expired_Signature)
       else Inr \<lparr>c_sub = uid, c_email = email, c_iat = timestamp (clock w),
         c_exp = timestamp (clock w) + 900, c_jti = fst (new_v4 (st_env St) (gen w)), c_kind = Access\<rparr>)"
    using da(3) [of Access t] by (simp add: verify_access_def da(1))
  show "verify_refresh (st_jwt_crate St) (st_jwt St) r t =
      (if timestamp (clock w) + session_secs < timestamp t - jwt_leeway (st_jwt_crate St)
       then Inl (InvalidToken Expired_Signature)
       else Inr \<lparr>c_sub = uid, c_email = email, c_iat = timestamp (clock w),
         c_exp = timestamp (clock w) + session_secs, c_jti = j, c_kind = Refresh\<rparr>)"
    using dr(3) [of Refresh t] by (simp add: verify_refresh_def dr(1) j)
  show "verify_refresh (st_jwt_crate St) (st_jwt St) a t \<noteq> Inr c"
    using da(3) [of Refresh t] by (simp add: verify_refresh_def)
  show "verify_access (st_jwt_crate St) (st_jwt St) r t \<noteq> Inr c"
    using dr(3) [of Access t] by (simp add: verify_access_def)
qed

text \<open>Storing the session of a fresh jti.\<close>

lemma store_op:
  assumes inv1: "svc_inv St \<alpha> drawn N w1" and "svc_inv St \<alpha> drawn N w2"
    and same: "cache w2 = cache w1" "clock w2 = clock w1" and grow: "drawn (gen w2) = j # drawn (gen w1)"
    and j: "j \<notin> set (drawn (gen w1))"
    and run: "cache_op (store_refresh_token (st_redis St) (st_uuid St) j uid refresh_ttl_secs) w2 = (x, w3)"
  shows "svc_inv St \<alpha> drawn N w3" and "clock w3 = clock w2" and "gen w3 = gen w2" and "db w3 = db w2"
    and "revives_none St \<alpha> drawn w1 w3"
    and "x = Inr () \<Longrightarrow> svc_inv St \<alpha> drawn (insert j N) w3"
    and "x = Inr () \<Longrightarrow> clock w2 \<le> t \<Longrightarrow> session_of (st_uuid St) t (\<alpha> (cache w3))
      = (session_of (st_uuid St) t (\<alpha> (cache w1)))(j := if t < clock w2 + secs session_secs then Some uid else None)"
proof -
  let ?U = "st_uuid St" and ?X = "set (drawn (gen w1)) - N"
  obtain y c where st: "store_refresh_token (st_redis St) ?U j uid refresh_ttl_secs (clock w1) (cache w1) = (y, c)"
    and w3: "w3 = w2\<lparr>cache := c\<rparr>" and xy: "x = Inr () \<Longrightarrow> y = Inr ()"
    using run by (cases x) (auto simp: cache_op_def mapErrE_Inl_iff on_cache_iff same)
  show "clock w3 = clock w2" "gen w3 = gen w2" "db w3 = db w2" by (simp_all add: w3)
  have X: "cache_inv ?U ?X (clock w1) (\<alpha> (cache w1))" using inv1 by (simp add: svc_inv_def)
  have N: "N \<subseteq> set (drawn (gen w1))" "db_ok (db w2)" using inv1 assms(2) by (simp_all add: svc_inv_def)
  have "cache_inv ?U (insert j ?X) (clock w1) (\<alpha> c)" using X st by (rule store_keeps)
  then have "cache_inv ?U (set (drawn (gen w2)) - N) (clock w1) (\<alpha> c)"
    by (rule cache_inv_weaken) (use grow j N in auto)
  then show "svc_inv St \<alpha> drawn N w3" using N grow by (auto simp: svc_inv_def w3 same)
  show "revives_none St \<alpha> drawn w1 w3"
    unfolding revives_none_def w3
  proof (simp, intro allI impI)
    fix t i u assume "i \<in> set (drawn (gen w1))" and s: "session_of ?U t (\<alpha> c) i = Some u"
    then have "j \<noteq> i" using j by blast
    from stepsD [OF creates_none_store [OF this] st] s
    show "session_of ?U t (\<alpha> (cache w1)) i = Some u" by blast
  qed
  show "svc_inv St \<alpha> drawn (insert j N) w3" if "x = Inr ()"
  proof -
    have "cache_inv ?U ?X (clock w1) (\<alpha> c)" by (rule store_keeps(2) [OF X st xy [OF that]])
    then have "cache_inv ?U (set (drawn (gen w2)) - insert j N) (clock w1) (\<alpha> c)"
      by (rule cache_inv_weaken) (use grow j N in auto)
    then show ?thesis using N grow j by (auto simp: svc_inv_def w3 same)
  qed
  show "session_of ?U t (\<alpha> (cache w3))
      = (session_of ?U t (\<alpha> (cache w1)))(j := if t < clock w2 + secs session_secs then Some uid else None)"
    if "x = Inr ()" "clock w2 \<le> t"
  proof -
    have "store_refresh_token (st_redis St) ?U j uid refresh_ttl_secs (clock w1) (cache w1) = (Inr (), c)"
      using st xy that(1) by simp
    from store_session_of [OF _ _ _ this, of t] that(2) show ?thesis by (simp add: w3 same)
  qed
qed

lemma cache_op_frame:
  "cache_op m w = (x, w') \<Longrightarrow> clock w' = clock w \<and> gen w' = gen w \<and> db w' = db w"
  by (cases x) (auto simp: cache_op_def mapErrE_Inl_iff on_cache_iff)

lemma evolves_issue: "evolves N (issue_tokens St uid email)"
proof (rule stepsI)
  fix w x w' assume run: "issue_tokens St uid email w = (x, w')"
  show "evo St \<alpha> drawn N w w'"
    using run unfolding issue_tokens_def
  proof (cases rule: bindE_cases)
    case (fails e)
    from fails(1) show ?thesis by (rule stepsD [OF evolves_gen(2)])
  next
    case (returns a w1)
    note sa = returns(1)
    have e1: "evo St \<alpha> drawn N w w1" by (rule stepsD [OF evolves_gen(2) sa])
    from returns(2) have "evo St \<alpha> drawn N w1 w'"
    proof (cases rule: bindE_cases)
      case (fails e)
      from fails(1) show ?thesis by (rule stepsD [OF evolves_gen(3)])
    next
      case (returns p w2)
      obtain r j where p: "p = (r, j)" by (cases p)
      note sr = returns(1) [unfolded p]
      have e2: "evo St \<alpha> drawn N w1 w2" by (rule stepsD [OF evolves_gen(3) sr])
      obtain y where st: "cache_op (store_refresh_token (st_redis St) (st_uuid St) j uid refresh_ttl_secs) w2
          = (y, w')"
        using returns(2) p by (auto elim!: bindE_cases)
      note s = sign_op_ok [OF sa sr] and fr = cache_op_frame [OF st]
      have "svc_inv St \<alpha> drawn N w' \<and> revives_none St \<alpha> drawn w1 w'"
        if i1: "svc_inv St \<alpha> drawn N w1" and d: "distinct (drawn (gen w'))"
      proof -
        have i2: "svc_inv St \<alpha> drawn N w2" using evoD(1) [OF e2 i1] d fr by simp
        have "j \<notin> set (drawn (gen w1))" using d fr s(8) by simp
        from store_op [OF i1 i2 _ _ s(8) this st] s(1-6) show ?thesis by simp
      qed
      with fr s e2 show ?thesis by (simp add: evo_def)
    qed
    with e1 show ?thesis by (rule transpD [OF evo_trans])
  qed
qed

lemma issue_tokens_ok:
  assumes inv: "svc_inv St \<alpha> drawn N w" and fresh: "distinct (drawn (gen w'))"
    and run: "issue_tokens St uid email w = (Inr res, w')"
  obtains a r where "res = respond 200 (Login_Response a r)"
    and "svc_inv St \<alpha> drawn (insert (fresh_jti St w) N) w'" and "fresh_jti St w \<notin> set (drawn (gen w))"
    and "clock w' = clock w" and "db w' = db w"
    and "\<And>t. clock w \<le> t \<Longrightarrow> session_of (st_uuid St) t (\<alpha> (cache w'))
      = (session_of (st_uuid St) t (\<alpha> (cache w)))
          (fresh_jti St w := if t < clock w + secs session_secs then Some uid else None)"
    and "\<And>t. verify_access (st_jwt_crate St) (st_jwt St) a t =
      (if timestamp (clock w) + 900 < timestamp t - jwt_leeway (st_jwt_crate St)
       then Inl (InvalidToken Expired_Signature)
       else Inr \<lparr>c_sub = uid, c_email = email, c_iat = timestamp (clock w),
         c_exp = timestamp (clock w) + 900, c_jti = fst (new_v4 (st_env St) (gen w)), c_kind = Access\<rparr>)"
    and "\<And>t. verify_refresh (st_jwt_crate St) (st_jwt St) r t =
      (if timestamp (clock w) + session_secs < timestamp t - jwt_leeway (st_jwt_crate St)
       then Inl (InvalidToken Expired_Signature)
       else Inr \<lparr>c_sub = uid, c_email = email, c_iat = timestamp (clock w),
         c_exp = timestamp (clock w) + session_secs, c_jti = fresh_jti St w, c_kind = Refresh\<rparr>)"
    and "\<And>t c. verify_refresh (st_jwt_crate St) (st_jwt St) a t \<noteq> Inr c"
    and "\<And>t c. verify_access (st_jwt_crate St) (st_jwt St) r t \<noteq> Inr c"
proof -
  obtain a w1 r j w2 where
    sa: "gen_op (sign_access_token (st_jwt_crate St) (st_env St) (st_jwt St) uid email) w = (Inr a, w1)"
    and sr: "gen_op (sign_refresh_token (st_jwt_crate St) (st_env St) (st_jwt St) uid email) w1 = (Inr (r, j), w2)"
    and st: "cache_op (store_refresh_token (st_redis St) (st_uuid St) j uid refresh_ttl_secs) w2 = (Inr (), w')"
    and res: "res = respond 200 (Login_Response a r)"
    using run unfolding issue_tokens_def by (elim bindE_InrE) (auto elim!: bindE_InrE split: prod.splits)
  note s = sign_op_ok [OF sa sr]
  have d2: "distinct (drawn (gen w2))" using fresh cache_op_frame [OF st] by simp
  then have d1: "distinct (drawn (gen w1))" and j: "j \<notin> set (drawn (gen w1))" using s(8) by simp_all
  note i1 = evoD [OF stepsD [OF evolves_gen(2) sa] inv d1]
  note i2 = evoD [OF stepsD [OF evolves_gen(3) sr] i1(1) d2]
  note so = store_op [OF i1(1) i2(1) _ _ s(8) j st]
  have c: "cache w2 = cache w1" "clock w2 = clock w1" using s by simp_all
  note so = so [OF c]
  show thesis
  proof (rule that [OF res])
    show "svc_inv St \<alpha> drawn (insert (fresh_jti St w) N) w'" using so(6) s(7) by simp
    show "fresh_jti St w \<notin> set (drawn (gen w))" using s(7) j i1(3) by blast
    show "clock w' = clock w" "db w' = db w" using so(2,4) s by simp_all
    fix t assume t: "clock w \<le> t"
    show "session_of (st_uuid St) t (\<alpha> (cache w')) = (session_of (st_uuid St) t (\<alpha> (cache w)))
          (fresh_jti St w := if t < clock w + secs session_secs then Some uid else None)"
      using so(7) [of t] t s(1-7) by simp
  next
    fix t c
    show "verify_refresh (st_jwt_crate St) (st_jwt St) a t \<noteq> Inr c" by (rule s)
    show "verify_access (st_jwt_crate St) (st_jwt St) r t \<noteq> Inr c" by (rule s)
  qed (use s(10,11) s(7) in blast)+
qed

section \<open>Login and refresh\<close>

lemma evolves_record_failure:
  assumes below: "counters_ok (\<alpha> (cache w)) \<Longrightarrow> lockout_failures (clock w) (\<alpha> (cache w)) e < 10"
    and "cache_op (record_failure (st_redis St) e) w = (x, w')"
  shows "evo St \<alpha> drawn N w w'"
proof -
  obtain y c where m: "record_failure (st_redis St) e (clock w) (cache w) = (y, c)" "w' = w\<lparr>cache := c\<rparr>"
    using assms(2) by (cases x) (auto simp: cache_op_def mapErrE_Inl_iff on_cache_iff)
  have "session_of (st_uuid St) t (\<alpha> (cache w)) j = Some u"
    if "session_of (st_uuid St) t (\<alpha> c) j = Some u" for t j u
    using stepsD [OF creates_none_ops(2) m(1)] that by blast
  moreover have "cache_inv (st_uuid St) X (clock w) (\<alpha> c)"
    if "cache_inv (st_uuid St) X (clock w) (\<alpha> (cache w))" for X
  proof (rule record_failure_keeps [OF that _ m(1)])
    show "lockout_failures (clock w) (\<alpha> (cache w)) e < 10" using that below by (simp add: cache_inv_def)
  qed
  ultimately show ?thesis using m(2) by (simp add: evo_def svc_inv_def revives_none_def)
qed

lemma is_locked_op:
  assumes run: "cache_op (is_locked (st_redis St) e) w = (Inr b, w1)"
  shows "\<alpha> (cache w1) = \<alpha> (cache w)" "clock w1 = clock w" "db w1 = db w" "gen w1 = gen w"
    and "counters_ok (\<alpha> (cache w)) \<Longrightarrow> b \<longleftrightarrow> 10 \<le> lockout_failures (clock w) (\<alpha> (cache w)) e"
proof -
  from run obtain c where c: "is_locked (st_redis St) e (clock w) (cache w) = (Inr b, c)" "w1 = w\<lparr>cache := c\<rparr>"
    by (auto simp: cache_op_def on_cache_iff)
  then have \<alpha>: "\<alpha> c = \<alpha> (cache w)" using stepsD [OF is_locked_frame c(1)] by simp
  with c show "\<alpha> (cache w1) = \<alpha> (cache w)" "clock w1 = clock w" "db w1 = db w" "gen w1 = gen w" by simp_all
  show "b \<longleftrightarrow> 10 \<le> lockout_failures (clock w) (\<alpha> (cache w)) e" if "counters_ok (\<alpha> (cache w))"
    using is_locked_ok(1) [OF that c(1)] .
qed

lemma svc_counters: "svc_inv St \<alpha> drawn N w \<Longrightarrow> counters_ok (\<alpha> (cache w))"
  by (simp add: svc_inv_def cache_inv_def)

lemma find_by_email_op:
  assumes "db_op (\<lambda>_. find_by_email (st_env St) e) w = (x, w1)"
  shows "cache w1 = cache w" "clock w1 = clock w"
    and "x = Inr found \<Longrightarrow> db w1 = db w \<and> found = user_with_email (db w) e"
proof -
  obtain y d g where y: "find_by_email (st_env St) e (db w, gen w) = (y, (d, g))"
    and w1: "w1 = w\<lparr>db := d, gen := g\<rparr>" and x: "x = Inr found \<Longrightarrow> y = Inr found" for found
    using assms by (cases x) (auto simp: db_op_def mapErrE_Inl_iff on_db_iff)
  then show "cache w1 = cache w" "clock w1 = clock w" by simp_all
  show "db w1 = db w \<and> found = user_with_email (db w) e" if "x = Inr found"
    using find_by_email_ok [of "st_env St" e "(db w, gen w)" found "(d, g)"] y x [OF that] w1 by simp
qed

lemma evolves_wrong_password:
  assumes "counters_ok (\<alpha> (cache w)) \<Longrightarrow> lockout_failures (clock w) (\<alpha> (cache w)) e < 10"
    and "bindE (cache_op (record_failure (st_redis St) e)) (\<lambda>attempts. errE Unauthorized) w = (x, w')"
  shows "evo St \<alpha> drawn N w w'"
proof -
  obtain y where "cache_op (record_failure (st_redis St) e) w = (y, w')"
    using assms(2) by (auto elim!: bindE_cases)
  with assms(1) show ?thesis by (rule evolves_record_failure)
qed

lemma evolves_login: "evolves N (login St b)"
  unfolding login_def
proof (rule steps_bindE [OF evo_trans], rule evolves_rules, rule steps_bindE_then [OF evo_trans], rule evolves_rules)
  fix locked and s w :: "('r, 'g) world"
  let ?e = "login_email b"
  let ?check = "\<lambda>user. bindE (domain_op (verify_hash (st_argon2_crate St) (st_passwords St) (login_password b)
           (password_hash user))) (\<lambda>verified.
         if \<not> verified then bindE (cache_op (record_failure (st_redis St) ?e)) (\<lambda>attempts. errE Unauthorized)
         else bindE (cache_op (clear_failures (st_redis St) ?e)) (\<lambda>_.
           issue_tokens St (user_id user) (user_email user)))"
  assume l: "cache_op (is_locked (st_redis St) ?e) s = (Inr locked, w)"
  have open': "lockout_failures (clock w) (\<alpha> (cache w)) ?e < 10" if "counters_ok (\<alpha> (cache w))" "\<not> locked"
    using is_locked_op(1,2,5) [OF l] that by (simp add: not_le)
  have ok: "evolves N (bindE (cache_op (clear_failures (st_redis St) ?e)) (\<lambda>_. issue_tokens St u e))" for u e
    by (intro steps_rules evolves_rules evolves_issue)
  have check: "evo St \<alpha> drawn N v (snd (?check user v))"
    if "counters_ok (\<alpha> (cache v)) \<Longrightarrow> lockout_failures (clock v) (\<alpha> (cache v)) ?e < 10" for user v
  proof -
    obtain x v' where run: "?check user v = (x, v')" by fastforce
    then have "evo St \<alpha> drawn N v v'"
    proof (cases rule: bindE_cases)
      case (fails e)
      then show ?thesis by (auto intro: stepsD [OF evolves_liftE(2)])
    next
      case (returns ver v1)
      then have "v1 = v" by (simp add: domain_op_def)
      with returns(2) that stepsD [OF ok] show ?thesis
        by (auto split: if_splits intro: evolves_wrong_password)
    qed
    with run show ?thesis by simp
  qed
  show "evo St \<alpha> drawn N w (snd ((if locked then errE Unauthorized else
      bindE (db_op (\<lambda>_. find_by_email (st_env St) ?e)) (\<lambda>found. case found of None \<Rightarrow> errE Unauthorized
     | Some user \<Rightarrow> ?check user)) w))"
  proof (cases locked)
    case True
    then show ?thesis by (simp add: evo_same)
  next
    case False
    obtain x w' where run: "bindE (db_op (\<lambda>_. find_by_email (st_env St) ?e)) (\<lambda>found. case found of
        None \<Rightarrow> errE Unauthorized | Some user \<Rightarrow> ?check user) w = (x, w')" by fastforce
    then have "evo St \<alpha> drawn N w w'"
    proof (cases rule: bindE_cases)
      case (fails e)
      from fails(1) show ?thesis by (rule stepsD [OF evolves_db(2)])
    next
      case (returns found w1)
      have e1: "evo St \<alpha> drawn N w w1" using returns(1) by (rule stepsD [OF evolves_db(2)])
      note checked = check [of w1]
      have below: "lockout_failures (clock w1) (\<alpha> (cache w1)) ?e < 10" if "counters_ok (\<alpha> (cache w1))"
        using find_by_email_op [OF returns(1)] open' that False by simp
      have "evo St \<alpha> drawn N w1 w'"
      proof (cases found)
        case None
        with returns(2) show ?thesis by (simp add: evo_same)
      next
        case (Some user)
        with returns(2) checked [OF below, of user] show ?thesis by simp
      qed
      with e1 show ?thesis by (rule transpD [OF evo_trans])
    qed
    with run False show ?thesis by simp
  qed
qed

lemma evolves_refresh: "evolves N (refresh St b)"
  unfolding refresh_def by (intro steps_rules evolves_rules evolves_issue)

text \<open>What a successful login and a successful refresh have seen and done before the tokens are issued.\<close>

lemma login_ok:
  assumes inv: "svc_inv St \<alpha> drawn N w" and run: "login St b w = (Inr res, w')"
  obtains user w1 where "login_validate b = Inr ()" and "lockout_failures (clock w) (\<alpha> (cache w)) (login_email b) < 10"
    and "user_with_email (db w) (login_email b) = Some user"
    and "verify_hash (st_argon2_crate St) (st_passwords St) (login_password b) (password_hash user) = Inr True"
    and "evo St \<alpha> drawn N w w1" and "db w1 = db w" and "clock w1 = clock w"
    and "\<alpha> (cache w1) = (\<alpha> (cache w))(lockout_key (login_email b) := None)"
    and "issue_tokens St (user_id user) (user_email user) w1 = (Inr res, w')"
proof -
  let ?e = "login_email b"
  obtain v l v1 found v2 where v: "liftE (login_validate b) w = (Inr v, w)"
    and l: "cache_op (is_locked (st_redis St) ?e) w = (Inr l, v1)" and nl: "\<not> l"
    and f: "db_op (\<lambda>_. find_by_email (st_env St) ?e) v1 = (Inr found, v2)"
    and rest: "(case found of None \<Rightarrow> errE Unauthorized
       | Some user \<Rightarrow> bindE (domain_op (verify_hash (st_argon2_crate St) (st_passwords St) (login_password b)
             (password_hash user))) (\<lambda>verified.
           if \<not> verified then bindE (cache_op (record_failure (st_redis St) ?e)) (\<lambda>attempts. errE Unauthorized)
           else bindE (cache_op (clear_failures (st_redis St) ?e)) (\<lambda>_.
             issue_tokens St (user_id user) (user_email user)))) v2 = (Inr res, w')"
    using run unfolding login_def by (elim bindE_InrE) (auto elim!: bindE_InrE split: if_splits)
  note lo = is_locked_op [OF l] and fo = find_by_email_op [OF f]
  from rest obtain user v3 u where u: "found = Some user"
    and ver: "verify_hash (st_argon2_crate St) (st_passwords St) (login_password b) (password_hash user) = Inr True"
    and c: "cache_op (clear_failures (st_redis St) ?e) v2 = (Inr u, v3)"
    and i: "issue_tokens St (user_id user) (user_email user) v3 = (Inr res, w')"
    by (cases found) (auto simp: domain_op_def elim!: bindE_InrE split: if_splits)
  have e: "evo St \<alpha> drawn N w v3"
    using stepsD [OF evolves_cache(1) l, of N] stepsD [OF evolves_db(2) f, of N] stepsD [OF evolves_cache(2) c, of N]
    by (meson evo_trans transpD)
  from c obtain k where k: "clear_failures (st_redis St) ?e (clock v2) (cache v2) = (Inr u, k)" "v3 = v2\<lparr>cache := k\<rparr>"
    by (auto simp: cache_op_def on_cache_iff)
  show thesis
  proof (rule that [OF _ _ _ ver e _ _ _ i])
    show "login_validate b = Inr ()" using v by simp
    show "lockout_failures (clock w) (\<alpha> (cache w)) ?e < 10" using lo(5) [OF svc_counters [OF inv]] nl by simp
    show "user_with_email (db w) ?e = Some user" using fo(3) u lo by simp
    show "db v3 = db w" "clock v3 = clock w" using k(2) fo lo by simp_all
    show "\<alpha> (cache v3) = (\<alpha> (cache w))(lockout_key ?e := None)"
      using clear_failures_ok [OF k(1)] k(2) fo lo by simp
  qed
qed

lemma cache_op_iff:
  "cache_op m w = (Inr x, w') \<longleftrightarrow> (\<exists>c. m (clock w) (cache w) = (Inr x, c) \<and> w' = w\<lparr>cache := c\<rparr>)"
  by (auto simp: cache_op_def on_cache_iff)

lemma svc_typed: "svc_inv St \<alpha> drawn N w \<Longrightarrow> well_typed (st_uuid St) (\<alpha> (cache w))"
  by (simp add: svc_inv_def cache_inv_def index_inv_def)

lemma refresh_ok:
  assumes inv: "svc_inv St \<alpha> drawn N w" and run: "refresh St b w = (Inr res, w')"
  obtains c uid w1 where "refresh_validate b = Inr ()"
    and "verify_refresh (st_jwt_crate St) (st_jwt St) (refresh_token b) (clock w) = Inr c"
    and "session_of (st_uuid St) (clock w) (\<alpha> (cache w)) (c_jti c) = Some uid"
    and "evo St \<alpha> drawn N w w1" and "db w1 = db w" and "gen w1 = gen w" and "clock w1 = clock w"
    and "\<And>t. clock w \<le> t \<Longrightarrow> session_of (st_uuid St) t (\<alpha> (cache w1))
      = (session_of (st_uuid St) t (\<alpha> (cache w)))(c_jti c := None)"
    and "issue_tokens St (c_sub c) (c_email c) w1 = (Inr res, w')"
proof -
  obtain v c uid w1 where v: "liftE (refresh_validate b) w = (Inr v, w)"
    and c: "verify_refresh (st_jwt_crate St) (st_jwt St) (refresh_token b) (clock w) = Inr c"
    and r: "cache_op (revoke_refresh_token (st_redis St) (st_uuid St) (c_jti c)) w = (Inr (Some uid), w1)"
    and i: "issue_tokens St (c_sub c) (c_email c) w1 = (Inr res, w')"
    using run unfolding refresh_def by (elim bindE_InrE) (auto simp: now_def elim!: bindE_InrE)
  have e: "evo St \<alpha> drawn N w w1" using r by (rule stepsD [OF evolves_cache(3)])
  from r obtain k where k: "revoke_refresh_token (st_redis St) (st_uuid St) (c_jti c) (clock w) (cache w)
      = (Inr (Some uid), k)" "w1 = w\<lparr>cache := k\<rparr>"
    by (auto simp: cache_op_iff)
  note ro = revoke_ok [OF svc_typed [OF inv] k(1)]
  show thesis
  proof (rule that [OF _ c _ e _ _ _ _ i])
    show "refresh_validate b = Inr ()" using v by simp
    show "session_of (st_uuid St) (clock w) (\<alpha> (cache w)) (c_jti c) = Some uid" using ro(1) by simp
    show "db w1 = db w" "gen w1 = gen w" "clock w1 = clock w" using k(2) by simp_all
    show "\<And>t. clock w \<le> t \<Longrightarrow> session_of (st_uuid St) t (\<alpha> (cache w1))
      = (session_of (st_uuid St) t (\<alpha> (cache w)))(c_jti c := None)"
      using ro(2) k(2) by simp
  qed
qed

lemma issue_tokens_failures:
  assumes "issue_tokens St uid email w = (Inr res, w')"
  shows "lockout_failures t (\<alpha> (cache w')) = lockout_failures t (\<alpha> (cache w))"
proof -
  obtain a w1 r j w2 where
    sa: "gen_op (sign_access_token (st_jwt_crate St) (st_env St) (st_jwt St) uid email) w = (Inr a, w1)"
    and sr: "gen_op (sign_refresh_token (st_jwt_crate St) (st_env St) (st_jwt St) uid email) w1 = (Inr (r, j), w2)"
    and st: "cache_op (store_refresh_token (st_redis St) (st_uuid St) j uid refresh_ttl_secs) w2 = (Inr (), w')"
    using assms unfolding issue_tokens_def by (elim bindE_InrE) (auto elim!: bindE_InrE split: prod.splits)
  obtain c where "store_refresh_token (st_redis St) (st_uuid St) j uid refresh_ttl_secs (clock w2) (cache w2) = (Inr (), c)"
      "w' = w2\<lparr>cache := c\<rparr>"
    using st by (auto simp: cache_op_iff)
  with stepsD [OF store_failures_frame this(1)] sign_op_ok(4) [OF sa sr] show ?thesis by simp
qed

end

end
