(* ===== verification/Grpc.thy ===== *)
theory Grpc
  imports App_State
begin

text \<open>
  \<open>src/services/mod.rs\<close> and \<open>proto/auth.proto\<close>: the gRPC service by which other services check an
  access token. It holds the JWT manager only; tonic carries the request and the answer.
\<close>

record verify_token_response =
  vt_valid :: bool
  vt_user_id :: string
  vt_email :: string
  vt_roles :: "string list"

datatype grpc_status = Grpc_Status int string

record auth_service_impl =
  as_jwt :: jwt_manager

definition auth_service_impl_new :: "jwt_manager \<Rightarrow> auth_service_impl" where
  "auth_service_impl_new jwt = \<lparr>as_jwt = jwt\<rparr>"

definition verify_token ::
    "jwt_lib \<Rightarrow> uuid_lib \<Rightarrow> auth_service_impl \<Rightarrow> string \<Rightarrow> instant \<Rightarrow> grpc_status + verify_token_response" where
  "verify_token J U S token t =
     (case verify_access J (as_jwt S) token t of
        Inr claims \<Rightarrow> Inr \<lparr>vt_valid = True, vt_user_id = uuid_show U (c_sub claims),
                          vt_email = c_email claims, vt_roles = []\<rparr>
      | Inl _ \<Rightarrow> Inr \<lparr>vt_valid = False, vt_user_id = [], vt_email = [], vt_roles = []\<rparr>)"

end
