(* ===== verification/Router.thy ===== *)
theory Router
  imports Auth_Service Grpc
begin

text \<open>
  \<open>src/lib.rs\<close>: the two routers. A route is a path, the methods it serves and whether the rate
  limiter is layered on it. What a handler takes from a request (peer address, bearer token, JSON
  body) is extracted in the order of its parameters. Deserialisation and the texts of axum's own
  rejections are a parameter, \<open>axum_lib\<close>. A request that no route serves is answered by axum
  (404 or 405) and is \<open>None\<close> here.
\<close>

section \<open>Routes\<close>

datatype http_method = Get | Head | Post | Patch | Delete | Other_Method string

datatype endpoint =
    Ep_Health | Ep_Register | Ep_Login | Ep_Refresh | Ep_Logout | Ep_Me | Ep_Delete_Me
  | Ep_Change_Password | Ep_Logout_All | Ep_Reset_Request | Ep_Reset_Confirm

record route =
  rt_path :: string
  rt_methods :: "(http_method \<times> endpoint) list"
  rt_limited :: bool

definition route :: "string \<Rightarrow> (http_method \<times> endpoint) list \<Rightarrow> route" where
  "route path methods = \<lparr>rt_path = path, rt_methods = methods, rt_limited = False\<rparr>"

text \<open>\<open>get\<close> of axum also serves HEAD, with the body dropped by the server.\<close>

definition get :: "endpoint \<Rightarrow> (http_method \<times> endpoint) list" where
  "get e = [(Get, e), (Head, e)]"

definition post :: "endpoint \<Rightarrow> (http_method \<times> endpoint) list" where
  "post e = [(Post, e)]"

definition route_layer :: "route list \<Rightarrow> route list" where
  "route_layer rs = map (\<lambda>r. r\<lparr>rt_limited := True\<rparr>) rs"

definition build_router :: "route list" where
  "build_router =
     [route ''/health'' (get Ep_Health),
      route ''/register'' (post Ep_Register),
      route ''/login'' (post Ep_Login),
      route ''/refresh'' (post Ep_Refresh),
      route ''/logout'' (post Ep_Logout),
      route ''/me'' (get Ep_Me @ [(Delete, Ep_Delete_Me)]),
      route ''/me/password'' [(Patch, Ep_Change_Password)],
      route ''/me/sessions/revoke-all'' (post Ep_Logout_All),
      route ''/password-reset/request'' (post Ep_Reset_Request),
      route ''/password-reset/confirm'' (post Ep_Reset_Confirm)]"

definition build_production_router :: "route list" where
  "build_production_router =
     (let rate_limited = route_layer
            [route ''/login'' (post Ep_Login),
             route ''/register'' (post Ep_Register),
             route ''/password-reset/request'' (post Ep_Reset_Request)]
      in [route ''/health'' (get Ep_Health)] @ rate_limited @
         [route ''/refresh'' (post Ep_Refresh),
          route ''/logout'' (post Ep_Logout),
          route ''/me'' (get Ep_Me @ [(Delete, Ep_Delete_Me)]),
          route ''/me/password'' [(Patch, Ep_Change_Password)],
          route ''/me/sessions/revoke-all'' (post Ep_Logout_All),
          route ''/password-reset/confirm'' (post Ep_Reset_Confirm)])"

section \<open>Requests\<close>

record request =
  rq_method :: http_method
  rq_path :: string
  rq_peer :: "string option"
  rq_authorization :: "string option"
  rq_body :: string

text \<open>Each parser returns the body, or the status and text with which axum rejects it.\<close>

record axum_lib =
  missing_connect_info :: string
  json_register :: "string \<Rightarrow> (nat \<times> string) + register_request"
  json_login :: "string \<Rightarrow> (nat \<times> string) + login_request"
  json_refresh :: "string \<Rightarrow> (nat \<times> string) + refresh_request"
  json_logout :: "string \<Rightarrow> (nat \<times> string) + logout_request"
  json_change_password :: "string \<Rightarrow> (nat \<times> string) + change_password_request"
  json_reset_request :: "string \<Rightarrow> (nat \<times> string) + reset_request_body"
  json_reset_confirm :: "string \<Rightarrow> (nat \<times> string) + reset_confirm_body"

definition dispatch :: "route list \<Rightarrow> request \<Rightarrow> (endpoint \<times> bool) option" where
  "dispatch rs req = (case List.find (\<lambda>r. rt_path r = rq_path req) rs of
       None \<Rightarrow> None
     | Some r \<Rightarrow> map_option (\<lambda>e. (e, rt_limited r)) (map_of (rt_methods r) (rq_method req)))"

lemma dispatch_Nil: "dispatch [] req = None"
  by (simp add: dispatch_def)

lemma dispatch_Cons:
  "dispatch (r # rs) req = (if rt_path r = rq_path req
     then map_option (\<lambda>e. (e, rt_limited r)) (map_of (rt_methods r) (rq_method req)) else dispatch rs req)"
  by (simp add: dispatch_def)

lemmas route_tables = build_router_def build_production_router_def route_layer_def route_def get_def post_def

section \<open>Extractors\<close>

definition with_peer :: "axum_lib \<Rightarrow> request \<Rightarrow> ('r, 'g) service \<Rightarrow> ('r, 'g) service" where
  "with_peer L req h w = (case rq_peer req of
       None \<Rightarrow> (respond 500 (Text (missing_connect_info L)), w)
     | Some addr \<Rightarrow> h w)"

definition with_json ::
    "(string \<Rightarrow> (nat \<times> string) + 'b) \<Rightarrow> request \<Rightarrow> ('b \<Rightarrow> ('r, 'g) service) \<Rightarrow> ('r, 'g) service" where
  "with_json parse req h w = (case parse (rq_body req) of
       Inl (c, msg) \<Rightarrow> (respond c (Text msg), w)
     | Inr b \<Rightarrow> h b w)"

definition with_auth ::
    "('r, 'g) app_state \<Rightarrow> request \<Rightarrow> (claims \<Rightarrow> ('r, 'g) service) \<Rightarrow> ('r, 'g) service" where
  "with_auth St req h w = (case auth_user St (rq_authorization req) (clock w) of
       Inl e \<Rightarrow> (auth_error_response e, w)
     | Inr c \<Rightarrow> h c w)"

fun run_endpoint ::
    "('r, 'g) app_state \<Rightarrow> axum_lib \<Rightarrow> endpoint \<Rightarrow> request \<Rightarrow> ('r, 'g) service" where
  "run_endpoint St L Ep_Health req = finish (health St)"
| "run_endpoint St L Ep_Register req =
     with_peer L req (with_json (json_register L) req (\<lambda>b. finish (register St b)))"
| "run_endpoint St L Ep_Login req =
     with_peer L req (with_json (json_login L) req (\<lambda>b. finish (login St b)))"
| "run_endpoint St L Ep_Refresh req =
     with_peer L req (with_json (json_refresh L) req (\<lambda>b. finish (refresh St b)))"
| "run_endpoint St L Ep_Logout req =
     with_peer L req (with_json (json_logout L) req (\<lambda>b. finish (logout St b)))"
| "run_endpoint St L Ep_Me req = with_auth St req (\<lambda>c. finish (me c))"
| "run_endpoint St L Ep_Delete_Me req =
     with_auth St req (\<lambda>c. with_peer L req (finish (delete_me St c)))"
| "run_endpoint St L Ep_Change_Password req =
     with_auth St req (\<lambda>c. with_peer L req
       (with_json (json_change_password L) req (\<lambda>b. finish (change_password St c b))))"
| "run_endpoint St L Ep_Logout_All req =
     with_auth St req (\<lambda>c. with_peer L req (finish (logout_all St c)))"
| "run_endpoint St L Ep_Reset_Request req =
     with_peer L req (with_json (json_reset_request L) req (\<lambda>b. finish (password_reset_request St b)))"
| "run_endpoint St L Ep_Reset_Confirm req =
     with_peer L req (with_json (json_reset_confirm L) req (\<lambda>b. finish (password_reset_confirm St b)))"

definition serve ::
    "route list \<Rightarrow> ('r, 'g) app_state \<Rightarrow> axum_lib \<Rightarrow> request \<Rightarrow> ('r, 'g) world
      \<Rightarrow> (response \<times> ('r, 'g) world) option" where
  "serve rs St L req w = (case dispatch rs req of
       None \<Rightarrow> None
     | Some (e, limited) \<Rightarrow> Some
         (if limited then rate_limit St (rq_peer req) (rq_path req) (run_endpoint St L e req) w
          else run_endpoint St L e req w))"

lemma extractors_cases:
  "with_peer L req h w = (res, w') \<longleftrightarrow>
    (rq_peer req = None \<and> res = respond 500 (Text (missing_connect_info L)) \<and> w' = w)
    \<or> (rq_peer req \<noteq> None \<and> h w = (res, w'))"
  "with_json parse req k w = (res, w') \<longleftrightarrow>
    (\<exists>c msg. parse (rq_body req) = Inl (c, msg) \<and> res = respond c (Text msg) \<and> w' = w)
    \<or> (\<exists>b. parse (rq_body req) = Inr b \<and> k b w = (res, w'))"
  "with_auth St req f w = (res, w') \<longleftrightarrow>
    (\<exists>e. auth_user St (rq_authorization req) (clock w) = Inl e \<and> res = auth_error_response e \<and> w' = w)
    \<or> (\<exists>c. auth_user St (rq_authorization req) (clock w) = Inr c \<and> f c w = (res, w'))"
  by (auto simp: with_peer_def with_json_def with_auth_def split: option.splits sum.splits)

lemma finish_iff:
  "finish m w = (res, w') \<longleftrightarrow>
    m w = (Inr res, w') \<or> (\<exists>e. m w = (Inl e, w') \<and> res = into_response e)"
  by (auto simp: finish_def split: prod.splits sum.splits)

text \<open>The limiter never changes which service answers; it answers itself or hands the request on.\<close>

lemma rate_limit_cases:
  assumes "rate_limit St peer path next_service w = (res, w')"
  obtains w1 where "on_cache (check_rate_limit (st_redis St)
        (rate_key path (case peer of None \<Rightarrow> ''unknown'' | Some ip \<Rightarrow> ip))) w = (Inr True, w1)"
      "res = respond 429 (Text ''too many requests'')" "w' = w1"
  | b w1 where "on_cache (check_rate_limit (st_redis St)
        (rate_key path (case peer of None \<Rightarrow> ''unknown'' | Some ip \<Rightarrow> ip))) w = (b, w1)" "b \<noteq> Inr True"
      "next_service w1 = (res, w')"
  using assms unfolding rate_limit_def Let_def
  by (auto split: prod.splits sum.splits bool.splits if_splits)

end
