(* ===== verification/System.thy ===== *)
theory System
  imports Router
begin

text \<open>
  Runs of the service: requests served one after another and time passing, from an empty database
  and an empty cache, with any outcome of the calls to the outside. The ghost component of a state is
  the set \<open>H\<close> of the refresh tokens handed out so far, each as its jti and its user. The invariant
  \<open>sys_inv\<close> holds in every reachable state, and a session that is gone stays gone.
\<close>

section \<open>Steps\<close>

text \<open>The jti and the user of the refresh token in a response.\<close>

definition handed_out :: "('r, 'g) app_state \<Rightarrow> instant \<Rightarrow> response \<Rightarrow> (uuid \<times> uuid) set" where
  "handed_out St t res = (case body res of
       Login_Response a r \<Rightarrow>
         (case verify_refresh (st_jwt_crate St) (st_jwt St) r t of
            Inr c \<Rightarrow> {(c_jti c, c_sub c)}
          | Inl _ \<Rightarrow> {})
     | _ \<Rightarrow> {})"

type_synonym ('r, 'g) sys = "('r, 'g) world \<times> (uuid \<times> uuid) set"

inductive sys_step :: "route list \<Rightarrow> ('r, 'g) app_state \<Rightarrow> axum_lib \<Rightarrow> ('r, 'g) sys \<Rightarrow> ('r, 'g) sys \<Rightarrow> bool"
  for rs St L where
    request: "serve rs St L req w = Some (res, w') \<Longrightarrow>
      sys_step rs St L (w, H) (w', H \<union> handed_out St (clock w) res)"
  | tick: "0 \<le> d \<Longrightarrow> sys_step rs St L (w, H) (w\<lparr>clock := clock w + d\<rparr>, H)"

inductive_cases sys_stepE: "sys_step rs St L s s'"

inductive_simps sys_step_simps: "sys_step rs St L (w, H) (w', H')"

abbreviation runs :: "route list \<Rightarrow> ('r, 'g) app_state \<Rightarrow> axum_lib \<Rightarrow> ('r, 'g) sys \<Rightarrow> ('r, 'g) sys \<Rightarrow> bool" where
  "runs rs St L \<equiv> (sys_step rs St L)\<^sup>*\<^sup>*"

text \<open>The state at the first start: the migrations have run, nothing is stored.\<close>

definition initial :: "('r \<Rightarrow> keyspace) \<Rightarrow> ('r, 'g) world \<Rightarrow> bool" where
  "initial \<alpha> w \<longleftrightarrow> db w = empty_db \<and> \<alpha> (cache w) = Map.empty"

definition reachable ::
    "route list \<Rightarrow> ('r, 'g) app_state \<Rightarrow> axum_lib \<Rightarrow> ('r \<Rightarrow> keyspace) \<Rightarrow> ('r, 'g) sys \<Rightarrow> bool" where
  "reachable rs St L \<alpha> s \<longleftrightarrow> (\<exists>w. initial \<alpha> w \<and> runs rs St L (w, {}) s)"

section \<open>The invariant\<close>

definition sys_inv ::
    "('r, 'g) app_state \<Rightarrow> ('r \<Rightarrow> keyspace) \<Rightarrow> ('g \<Rightarrow> uuid list) \<Rightarrow> ('r, 'g) sys \<Rightarrow> bool" where
  "sys_inv St \<alpha> drawn s \<longleftrightarrow> svc_inv St \<alpha> drawn (fst ` snd s) (fst s)
     \<and> (\<forall>(j, u) \<in> snd s. \<forall>t v. clock (fst s) \<le> t \<longrightarrow>
          session_of (st_uuid St) t (\<alpha> (cache (fst s))) j = Some v \<longrightarrow> v = u)"

text \<open>What may happen between two states of a run: no session of a drawn jti comes back.\<close>

definition sys_evo ::
    "('r, 'g) app_state \<Rightarrow> ('r \<Rightarrow> keyspace) \<Rightarrow> ('g \<Rightarrow> uuid list) \<Rightarrow> ('r, 'g) sys \<Rightarrow> ('r, 'g) sys \<Rightarrow> bool" where
  "sys_evo St \<alpha> drawn s s' \<longleftrightarrow> clock (fst s) \<le> clock (fst s') \<and> snd s \<subseteq> snd s'
     \<and> suffix (drawn (gen (fst s))) (drawn (gen (fst s'))) \<and> revives_none St \<alpha> drawn (fst s) (fst s')"

lemma sys_evo_refl: "sys_evo St \<alpha> drawn s s"
  by (simp add: sys_evo_def revives_none_def)

lemma sys_evo_trans: "sys_evo St \<alpha> drawn s s1 \<Longrightarrow> sys_evo St \<alpha> drawn s1 s2 \<Longrightarrow> sys_evo St \<alpha> drawn s s2"
  unfolding sys_evo_def revives_none_def by (meson order_trans suffix_order.trans set_mono_suffix subsetD)

lemma handed_out_none:
  assumes "\<And>a r. body res \<noteq> Login_Response a r" shows "handed_out St t res = {}"
  using assms by (auto simp: handed_out_def split: body.split)

lemma no_login_response [simp]:
  "body (into_response e) \<noteq> Login_Response a r" "body (auth_error_response ae) \<noteq> Login_Response a r"
  by (cases e; simp) (cases ae; simp)

text \<open>Only login and refresh answer with tokens.\<close>

lemma token_answers:
  "register St rb w = (Inr res, w') \<Longrightarrow> body res \<noteq> Login_Response a r"
  "me c w = (Inr res, w') \<Longrightarrow> body res \<noteq> Login_Response a r"
  "change_password St c cb w = (Inr res, w') \<Longrightarrow> body res \<noteq> Login_Response a r"
  "delete_me St c w = (Inr res, w') \<Longrightarrow> body res \<noteq> Login_Response a r"
  "health St w = (Inr res, w') \<Longrightarrow> body res \<noteq> Login_Response a r"
  "logout_all St c w = (Inr res, w') \<Longrightarrow> body res \<noteq> Login_Response a r"
  "logout St lb w = (Inr res, w') \<Longrightarrow> body res \<noteq> Login_Response a r"
  "password_reset_request St qb w = (Inr res, w') \<Longrightarrow> body res \<noteq> Login_Response a r"
  "password_reset_confirm St kb w = (Inr res, w') \<Longrightarrow> body res \<noteq> Login_Response a r"
  unfolding register_def me_def change_password_def delete_me_def health_def logout_all_def logout_def
    password_reset_request_def password_reset_confirm_def Let_def
  by (auto elim!: bindE_InrE split: if_splits)

lemma finish_no_tokens:
  assumes "finish m w = (res, w')" and "\<And>res. m w = (Inr res, w') \<Longrightarrow> body res \<noteq> Login_Response a r"
  shows "body res \<noteq> Login_Response a r"
  using assms by (auto simp: finish_iff)

context auth_service begin

lemma handed_out_issue:
  assumes "res = respond 200 (Login_Response a r)"
    and "\<And>t. verify_refresh (st_jwt_crate St) (st_jwt St) r t =
      (if timestamp t0 + session_secs < timestamp t - jwt_leeway (st_jwt_crate St)
       then Inl (InvalidToken Expired_Signature)
       else Inr \<lparr>c_sub = uid, c_email = email, c_iat = timestamp t0,
         c_exp = timestamp t0 + session_secs, c_jti = j, c_kind = Refresh\<rparr>)"
  shows "handed_out St t0 res = {(j, uid)}"
proof -
  have "0 \<le> jwt_leeway (st_jwt_crate St)" by (simp add: jwt_leeway_def new_leeway)
  then have "\<not> timestamp t0 + session_secs < timestamp t0 - jwt_leeway (st_jwt_crate St)"
    by (simp add: session_secs_def)
  with assms show ?thesis by (simp add: handed_out_def)
qed

text \<open>What one request does to the ghost set: nothing, or it hands out one fresh token.\<close>

definition hands_out :: "uuid set \<Rightarrow> ('r, 'g) world \<Rightarrow> response \<Rightarrow> ('r, 'g) world \<Rightarrow> bool" where
  "hands_out N w res w' \<longleftrightarrow> handed_out St (clock w) res = {}
     \<or> (\<exists>j u. handed_out St (clock w) res = {(j, u)} \<and> svc_inv St \<alpha> drawn (insert j N) w' \<and> j \<notin> set (drawn (gen w))
          \<and> (\<forall>t. clock w \<le> t \<longrightarrow> session_of (st_uuid St) t (\<alpha> (cache w')) j
               = (if t < clock w + secs session_secs then Some u else None)))"

lemma hands_out_issue:
  assumes inv: "svc_inv St \<alpha> drawn N w" and fresh: "distinct (drawn (gen w'))"
    and e: "evo St \<alpha> drawn N w w1" and run: "issue_tokens St uid email w1 = (Inr res, w')"
  shows "hands_out N w res w'"
proof -
  have "evo St \<alpha> drawn N w1 w'" using run by (rule stepsD [OF evolves_issue])
  then have "distinct (drawn (gen w1))" using fresh by (auto simp: evo_def intro: suffix_distinct)
  note i = evoD [OF e inv this]
  from i(1) fresh run obtain a r where res: "res = respond 200 (Login_Response a r)"
    and s: "svc_inv St \<alpha> drawn (insert (fresh_jti St w1) N) w'" "fresh_jti St w1 \<notin> set (drawn (gen w1))"
    and ses: "\<And>t. clock w1 \<le> t \<Longrightarrow> session_of (st_uuid St) t (\<alpha> (cache w'))
      = (session_of (st_uuid St) t (\<alpha> (cache w1)))
          (fresh_jti St w1 := if t < clock w1 + secs session_secs then Some uid else None)"
    and ver: "\<And>t. verify_refresh (st_jwt_crate St) (st_jwt St) r t =
      (if timestamp (clock w1) + session_secs < timestamp t - jwt_leeway (st_jwt_crate St)
       then Inl (InvalidToken Expired_Signature)
       else Inr \<lparr>c_sub = uid, c_email = email, c_iat = timestamp (clock w1),
         c_exp = timestamp (clock w1) + session_secs, c_jti = fresh_jti St w1, c_kind = Refresh\<rparr>)"
    by (rule issue_tokens_ok) blast
  have "handed_out St (clock w) res = {(fresh_jti St w1, uid)}"
    using handed_out_issue [OF res ver] i(2) by simp
  then show ?thesis
    unfolding hands_out_def using s ses i(2,3) by (intro disjI2 exI conjI) auto
qed

lemma hands_out_none: "(\<And>a r. body res \<noteq> Login_Response a r) \<Longrightarrow> hands_out N w res w'"
  by (simp add: hands_out_def handed_out_none)

lemma hands_out_text: "hands_out N w (respond c (Text msg)) w'"
  by (rule hands_out_none) simp

lemma hands_out_login:
  assumes "svc_inv St \<alpha> drawn N w" and "distinct (drawn (gen w'))" and "finish (login St b) w = (res, w')"
  shows "hands_out N w res w'"
proof (cases "login St b w = (Inr res, w')")
  case True
  with assms(1) show ?thesis by (rule login_ok) (rule hands_out_issue [OF assms(1,2)])
next
  case False
  with assms(3) show ?thesis by (auto simp: finish_iff intro!: hands_out_none)
qed

lemma hands_out_refresh:
  assumes "svc_inv St \<alpha> drawn N w" and "distinct (drawn (gen w'))" and "finish (refresh St b) w = (res, w')"
  shows "hands_out N w res w'"
proof (cases "refresh St b w = (Inr res, w')")
  case True
  with assms(1) show ?thesis by (rule refresh_ok) (rule hands_out_issue [OF assms(1,2)])
next
  case False
  with assms(3) show ?thesis by (auto simp: finish_iff intro!: hands_out_none)
qed

lemma evo_finish: "evolves N m \<Longrightarrow> finish m w = (res, w') \<Longrightarrow> evo St \<alpha> drawn N w w'"
  by (auto simp: finish_iff dest: stepsD)

lemmas evolves_handlers = evolves_register evolves_login evolves_refresh evolves_me
  evolves_change_password evolves_delete_me evolves_health evolves_logout_all evolves_logout
  evolves_reset_request evolves_reset_confirm

lemma evo_run_endpoint: "run_endpoint St L e req w = (res, w') \<Longrightarrow> evo St \<alpha> drawn N w w'"
  by (cases e) (auto simp: extractors_cases evo_same intro: evo_finish evolves_handlers)

lemma hands_out_run_endpoint:
  assumes inv: "svc_inv St \<alpha> drawn N w" and fresh: "distinct (drawn (gen w'))"
    and run: "run_endpoint St L e req w = (res, w')"
  shows "hands_out N w res w'"
proof (cases "e = Ep_Login \<or> e = Ep_Refresh")
  case True
  with run show ?thesis
    using hands_out_login [OF inv fresh] hands_out_refresh [OF inv fresh]
    by (auto simp: extractors_cases hands_out_text)
next
  case False
  have "body res \<noteq> Login_Response a r" for a r
    using run False by (cases e) (auto simp: extractors_cases finish_iff dest: token_answers)
  then show ?thesis by (rule hands_out_none)
qed

lemma serve_cases:
  assumes "serve rs St L req w = Some (res, w')"
  shows "evo St \<alpha> drawn N w w'"
    and "svc_inv St \<alpha> drawn N w \<Longrightarrow> distinct (drawn (gen w')) \<Longrightarrow> hands_out N w res w'"
proof -
  obtain e limited where d: "dispatch rs req = Some (e, limited)"
    and run: "(if limited then rate_limit St (rq_peer req) (rq_path req) (run_endpoint St L e req) w
          else run_endpoint St L e req w) = (res, w')"
    using assms by (auto simp: serve_def split: option.splits)
  have "evo St \<alpha> drawn N w w'
      \<and> (svc_inv St \<alpha> drawn N w \<longrightarrow> distinct (drawn (gen w')) \<longrightarrow> hands_out N w res w')"
  proof (cases limited)
    case False
    with run show ?thesis by (auto intro: evo_run_endpoint hands_out_run_endpoint)
  next
    case True
    with run have "rate_limit St (rq_peer req) (rq_path req) (run_endpoint St L e req) w = (res, w')" by simp
    then show ?thesis
    proof (cases rule: rate_limit_cases)
      case (1 w1)
      then show ?thesis by (auto intro: stepsD [OF evolves_cache(5)] hands_out_none)
    next
      case (2 b w1)
      have e1: "evo St \<alpha> drawn N w w1" using 2(1) by (rule stepsD [OF evolves_cache(5)])
      have e2: "evo St \<alpha> drawn N w1 w'" using 2(3) by (rule evo_run_endpoint)
      have "hands_out N w res w'" if inv: "svc_inv St \<alpha> drawn N w" and fresh: "distinct (drawn (gen w'))"
      proof -
        have "distinct (drawn (gen w1))" using e2 fresh by (auto simp: evo_def intro: suffix_distinct)
        note i1 = evoD [OF e1 inv this]
        have "hands_out N w1 res w'" using i1(1) fresh 2(3) by (rule hands_out_run_endpoint)
        then show ?thesis using i1(2,3) unfolding hands_out_def by auto
      qed
      with transpD [OF evo_trans e1 e2] show ?thesis by blast
    qed
  qed
  then show "evo St \<alpha> drawn N w w'"
    and "svc_inv St \<alpha> drawn N w \<Longrightarrow> distinct (drawn (gen w')) \<Longrightarrow> hands_out N w res w'" by simp_all
qed

section \<open>Every run keeps the invariant\<close>

lemma svc_inv_tick:
  assumes "svc_inv St \<alpha> drawn N w" and "0 \<le> d"
  shows "svc_inv St \<alpha> drawn N (w\<lparr>clock := clock w + d\<rparr>)"
  using assms cache_inv_later [of "st_uuid St" "set (drawn (gen w)) - N" "clock w" "\<alpha> (cache w)" "clock w + d"]
  by (simp add: svc_inv_def)

lemma sys_inv_initial: "initial \<alpha> w \<Longrightarrow> sys_inv St \<alpha> drawn (w, {})"
  by (simp add: initial_def sys_inv_def svc_inv_def db_ok_empty cache_inv_empty)

lemma sys_inv_request:
  assumes inv: "sys_inv St \<alpha> drawn (w, H)" and fresh: "distinct (drawn (gen w'))"
    and run: "serve rs St L req w = Some (res, w')"
  shows "sys_inv St \<alpha> drawn (w', H \<union> handed_out St (clock w) res)"
    and "sys_evo St \<alpha> drawn (w, H) (w', H \<union> handed_out St (clock w) res)"
proof -
  from inv have svc: "svc_inv St \<alpha> drawn (fst ` H) w"
    and own: "\<And>j u t v. (j, u) \<in> H \<Longrightarrow> clock w \<le> t \<Longrightarrow>
      session_of (st_uuid St) t (\<alpha> (cache w)) j = Some v \<Longrightarrow> v = u"
    by (auto simp: sys_inv_def)
  note sc = serve_cases(1) [OF run] serve_cases(2) [OF run svc fresh]
    and ev = evoD [OF serve_cases(1) [OF run] svc fresh]
  have in_log: "j \<in> set (drawn (gen w))" if "(j, u) \<in> H" for j u
    using svc that by (auto simp: svc_inv_def)
  have old: "v = u" if "(j, u) \<in> H" "clock w \<le> t" "session_of (st_uuid St) t (\<alpha> (cache w')) j = Some v" for j u t v
    using own [OF that(1,2)] ev(5) [OF in_log [OF that(1)] that(3)] by blast
  show "sys_evo St \<alpha> drawn (w, H) (w', H \<union> handed_out St (clock w) res)"
    using sc(1) svc fresh by (auto simp: sys_evo_def evo_def)
  from sc(2) consider "handed_out St (clock w) res = {}"
    | j u where "handed_out St (clock w) res = {(j, u)}" "svc_inv St \<alpha> drawn (insert j (fst ` H)) w'"
      "\<And>t. clock w \<le> t \<Longrightarrow> session_of (st_uuid St) t (\<alpha> (cache w')) j
        = (if t < clock w + secs session_secs then Some u else None)"
    unfolding hands_out_def by blast
  then show "sys_inv St \<alpha> drawn (w', H \<union> handed_out St (clock w) res)"
  proof cases
    case 1
    with ev(1,2) old show ?thesis by (auto simp: sys_inv_def)
  next
    case (2 j u)
    with ev(2) old show ?thesis by (auto simp: sys_inv_def split: if_splits)
  qed
qed

lemma sys_step_log: "sys_step rs St L s s' \<Longrightarrow> suffix (drawn (gen (fst s))) (drawn (gen (fst s')))"
  by (auto elim!: sys_stepE dest!: serve_cases(1) simp: evo_def)

lemma runs_log: "runs rs St L s s' \<Longrightarrow> suffix (drawn (gen (fst s))) (drawn (gen (fst s')))"
  by (induction rule: rtranclp_induct) (auto dest!: sys_step_log intro: suffix_order.trans)

lemma sys_step_keeps:
  assumes "sys_step rs St L s s'" and "sys_inv St \<alpha> drawn s" and "distinct (drawn (gen (fst s')))"
  shows "sys_inv St \<alpha> drawn s'" and "sys_evo St \<alpha> drawn s s'"
proof -
  have "sys_inv St \<alpha> drawn s' \<and> sys_evo St \<alpha> drawn s s'"
    using assms(1)
  proof (cases rule: sys_step.cases)
    case (request req w res w' H)
    with sys_inv_request assms(2,3) show ?thesis by (metis fst_conv)
  next
    case (tick d w H)
    with assms(2) have "svc_inv St \<alpha> drawn (fst ` H) (w\<lparr>clock := clock w + d\<rparr>)"
      by (auto simp: sys_inv_def intro: svc_inv_tick)
    moreover have "v = u" if "(j, u) \<in> H" "clock w + d \<le> t"
        "session_of (st_uuid St) t (\<alpha> (cache w)) j = Some v" for j u t v
    proof -
      from tick that(2) have "clock w \<le> t" by simp
      with assms(2) tick(1) that(1,3) show ?thesis by (fastforce simp: sys_inv_def)
    qed
    ultimately have "sys_inv St \<alpha> drawn s'" using tick(2) by (auto simp: sys_inv_def)
    with tick show ?thesis by (simp add: sys_evo_def revives_none_def)
  qed
  then show "sys_inv St \<alpha> drawn s'" and "sys_evo St \<alpha> drawn s s'" by simp_all
qed

lemma runs_keep:
  assumes "runs rs St L s s'" and "sys_inv St \<alpha> drawn s" and "distinct (drawn (gen (fst s')))"
  shows "sys_inv St \<alpha> drawn s'" and "sys_evo St \<alpha> drawn s s'"
proof -
  have "sys_inv St \<alpha> drawn s' \<and> sys_evo St \<alpha> drawn s s'"
    using assms(1,3)
  proof (induction rule: rtranclp_induct)
    case base
    with assms(2) show ?case by (simp add: sys_evo_refl)
  next
    case (step s1 s2)
    have "distinct (drawn (gen (fst s1)))" using sys_step_log [OF step(2)] step(4) by (rule suffix_distinct)
    with step.IH have "sys_inv St \<alpha> drawn s1" "sys_evo St \<alpha> drawn s s1" by simp_all
    with sys_step_keeps [OF step(2) _ step(4)] show ?case using sys_evo_trans by blast
  qed
  then show "sys_inv St \<alpha> drawn s'" and "sys_evo St \<alpha> drawn s s'" by simp_all
qed

lemma reachable_inv:
  "reachable rs St L \<alpha> s \<Longrightarrow> distinct (drawn (gen (fst s))) \<Longrightarrow> sys_inv St \<alpha> drawn s"
  unfolding reachable_def using runs_keep(1) sys_inv_initial by blast

text \<open>A handed-out token whose session is gone can never be exchanged again.\<close>

lemma dead_forever:
  assumes inv: "sys_inv St \<alpha> drawn (w, H)" and j: "(j, u) \<in> H"
    and dead: "\<And>t v. clock w \<le> t \<Longrightarrow> session_of (st_uuid St) t (\<alpha> (cache w)) j \<noteq> Some v"
    and later: "runs rs St L (w, H) (w', H')" and fresh: "distinct (drawn (gen w'))"
    and token: "verify_refresh (st_jwt_crate St) (st_jwt St) tok (clock w') = Inr c" "c_jti c = j"
  shows "refresh St \<lparr>refresh_token = tok\<rparr> w' \<noteq> (Inr res, w'')"
proof
  assume run: "refresh St \<lparr>refresh_token = tok\<rparr> w' = (Inr res, w'')"
  note k = runs_keep [OF later inv, unfolded fst_conv, OF fresh]
  have in_log: "j \<in> set (drawn (gen w))" using inv j by (auto simp: sys_inv_def svc_inv_def)
  have svc: "svc_inv St \<alpha> drawn (fst ` H') w'" using k(1) by (simp add: sys_inv_def)
  from svc run obtain c' uid where "verify_refresh (st_jwt_crate St) (st_jwt St) tok (clock w') = Inr c'"
    and s: "session_of (st_uuid St) (clock w') (\<alpha> (cache w')) (c_jti c') = Some uid"
    by (rule refresh_ok) auto
  with token have "session_of (st_uuid St) (clock w') (\<alpha> (cache w')) j = Some uid" by simp
  with k(2) in_log have "session_of (st_uuid St) (clock w') (\<alpha> (cache w)) j = Some uid" "clock w \<le> clock w'"
    by (auto simp: sys_evo_def revives_none_def)
  with dead show False by blast
qed

end

end
