(* ===== verification/Handler_Facts.thy ===== *)
theory Handler_Facts
  imports System
begin

text \<open>
  What each handler has seen and done when it answers with a success: the inversion of its chain of
  calls, in terms of the session table, the users and the reset tokens.
\<close>

section \<open>Operations on the database inside a handler\<close>

lemma db_op_InrE:
  assumes "db_op m w = (Inr x, w')"
  obtains d g where "m (clock w) (db w, gen w) = (Inr x, (d, g))" and "w' = w\<lparr>db := d, gen := g\<rparr>"
  using assms by (auto simp: db_op_def on_db_iff)

lemma gen_op_InrE:
  assumes "gen_op m w = (Inr x, w')"
  obtains g where "m (clock w) (gen w) = (Inr x, g)" and "w' = w\<lparr>gen := g\<rparr>"
  using assms by (auto simp: gen_op_def on_gen_iff)

lemma find_by_id_op:
  assumes "db_op (\<lambda>_. find_by_id L i) w = (Inr found, w1)"
  shows "found = user_with_id (db w) i" and "db w1 = db w" "cache w1 = cache w" "clock w1 = clock w"
proof -
  obtain d g where "find_by_id L i (db w, gen w) = (Inr found, (d, g))" and "w1 = w\<lparr>db := d, gen := g\<rparr>"
    using assms by (rule db_op_InrE)
  with find_by_id_ok [OF this(1)]
  show "found = user_with_id (db w) i" and "db w1 = db w" "cache w1 = cache w" "clock w1 = clock w"
    by simp_all
qed

lemma found_email_op:
  assumes "db_op (\<lambda>_. find_by_email L e) w = (Inr f, w1)"
  shows "f = user_with_email (db w) e \<and> w1 = w\<lparr>gen := snd (pg_next L (gen w))\<rparr>"
  using assms unfolding db_op_def
  by (auto simp: on_db_iff find_by_email_def pg_run_def select_user_def user_with_email_def
      split: prod.splits pg_outcome.splits)

lemma update_password_op:
  assumes "db_op (update_password L i h) w = (Inr y, w1)"
  shows "\<exists>u. user_with_id (db w) i = Some u \<and> user_with_id (db w1)
      = (user_with_id (db w))(i \<mapsto> u\<lparr>password_hash := h, updated_at := clock w\<rparr>)"
    and "reset_rows (db w1) = reset_rows (db w)" and "cache w1 = cache w" "clock w1 = clock w"
proof -
  obtain d g where run: "update_password L i h (clock w) (db w, gen w) = (Inr y, (d, g))"
    and w1: "w1 = w\<lparr>db := d, gen := g\<rparr>"
    using assms by (rule db_op_InrE)
  from update_password_ok(1) [OF run] show "\<exists>u. user_with_id (db w) i = Some u \<and> user_with_id (db w1)
      = (user_with_id (db w))(i \<mapsto> u\<lparr>password_hash := h, updated_at := clock w\<rparr>)"
    by (simp add: w1)
  from update_password_ok(2) [OF run] show "reset_rows (db w1) = reset_rows (db w)"
    by (simp add: w1 update_user_password_def)
  show "cache w1 = cache w" "clock w1 = clock w" by (simp_all add: w1)
qed

lemma reset_owner_cong: "reset_rows d = reset_rows d' \<Longrightarrow> reset_owner d = reset_owner d'"
  by (simp add: reset_owner_def fun_eq_iff)

lemma hash_op:
  assumes "gen_op (\<lambda>_. hash_of A E P pw) w = (Inr h, w1)"
  shows "\<exists>g g'. hash_of A E P pw g = (Inr h, g')" and "db w1 = db w" "cache w1 = cache w" "clock w1 = clock w"
  using assms by (auto elim!: gen_op_InrE)

section \<open>Accounts\<close>

lemma register_ok:
  assumes ok: "db_ok (db w)" and run: "register St b w = (Inr res, w')"
  obtains u where "res = respond 201 (Register_Response (user_id u) (reg_email b))"
    and "well_formed_email (reg_email b)" and "8 \<le> length (reg_password b)" "length (reg_password b) \<le> 128"
    and "user_email u = reg_email b" and "created_at u = clock w"
    and "\<exists>g g'. hash_of (st_argon2_crate St) (st_env St) (st_passwords St) (reg_password b) g = (Inr (password_hash u), g')"
    and "user_with_email (db w) (reg_email b) = None" and "user_with_id (db w) (user_id u) = None"
    and "db w' = (db w)\<lparr>users := users (db w) @ [u]\<rparr>" and "cache w' = cache w" and "db_ok (db w')"
proof -
  obtain h w1 u where v: "register_validate b = Inr ()"
    and h: "gen_op (\<lambda>_. hash_of (st_argon2_crate St) (st_env St) (st_passwords St) (reg_password b)) w = (Inr h, w1)"
    and c: "db_op (create_user (st_env St) (reg_email b) h) w1 = (Inr u, w')"
    and res: "res = respond 201 (Register_Response (user_id u) (user_email u))"
    using run unfolding register_def by (elim bindE_InrE) auto
  note ho = hash_op [OF h]
  obtain d g where cu: "create_user (st_env St) (reg_email b) h (clock w) (db w, gen w1) = (Inr u, (d, g))"
    and w': "w' = w1\<lparr>db := d, gen := g\<rparr>"
    using c ho by (auto elim: db_op_InrE)
  from ok have "db_ok (fst (db w, gen w1))" by simp
  note co = create_user_ok [OF this cu, unfolded fst_conv]
  show thesis
    by (rule that [of u]) (use res v ho co w' in \<open>auto simp: validate_iffs\<close>)
qed

lemma change_password_ok:
  assumes run: "change_password St c b w = (Inr res, w')"
  obtains u h where "res = respond 204 No_Body" and "change_password_validate b = Inr ()"
    and "user_with_id (db w) (c_sub c) = Some u"
    and "verify_hash (st_argon2_crate St) (st_passwords St) (current_password b) (password_hash u) = Inr True"
    and "\<exists>g g'. hash_of (st_argon2_crate St) (st_env St) (st_passwords St) (new_password b) g = (Inr h, g')"
    and "user_with_id (db w') = (user_with_id (db w))(c_sub c \<mapsto> u\<lparr>password_hash := h, updated_at := clock w\<rparr>)"
    and "cache w' = cache w"
proof -
  obtain w1 u h w2 y w3 where v: "change_password_validate b = Inr ()"
    and f: "db_op (\<lambda>_. find_by_id (st_env St) (c_sub c)) w = (Inr (Some u), w1)"
    and ver: "verify_hash (st_argon2_crate St) (st_passwords St) (current_password b) (password_hash u) = Inr True"
    and h: "gen_op (\<lambda>_. hash_of (st_argon2_crate St) (st_env St) (st_passwords St) (new_password b)) w1 = (Inr h, w2)"
    and up: "db_op (update_password (st_env St) (c_sub c) h) w2 = (Inr y, w')"
    and res: "res = respond 204 No_Body"
    using run unfolding change_password_def
    by (elim bindE_InrE) (auto simp: domain_op_def elim!: bindE_InrE split: if_splits)
  note fo = find_by_id_op [OF f] and ho = hash_op [OF h] and uo = update_password_op [OF up]
  show thesis
    by (rule that [OF res v _ ver ho(1)]) (use fo ho uo in auto)
qed

lemma delete_me_ok:
  assumes run: "delete_me St c w = (Inr res, w')"
  shows "res = respond 204 No_Body" and "db w' = snd (delete_user (c_sub c) (db w))"
    and "cache w' = cache w" and "clock w' = clock w"
  using run unfolding delete_me_def
  by (auto elim!: bindE_InrE db_op_InrE dest!: delete_by_id_ok)

text \<open>The outcome of a registration once the password is hashed and the database answers.\<close>

lemma register_outcome_served:
  assumes v: "register_validate b = Inr ()"
    and h: "hash_of (st_argon2_crate St) (st_env St) (st_passwords St) (reg_password b) (gen w) = (Inr h, g)"
    and i: "pg_uuid (st_env St) g = (i, g1)" and served: "pg_next (st_env St) g1 = (Pg_Served, g2)"
  shows "register St b w = (if user_with_email (db w) (reg_email b) = None \<and> user_with_id (db w) i = None
      then (Inr (respond 201 (Register_Response i (reg_email b))),
        w\<lparr>db := (db w)\<lparr>users := users (db w) @ [\<lparr>user_id = i, user_email = reg_email b, password_hash = h,
             created_at = clock w, updated_at = clock w\<rparr>]\<rparr>, gen := g2\<rparr>)
      else (Inl Conflict, w\<lparr>gen := g2\<rparr>))"
proof -
  have taken: "(\<exists>u \<in> set (users (db w)). user_id u = i \<or> user_email u = reg_email b)
      \<longleftrightarrow> \<not> (user_with_email (db w) (reg_email b) = None \<and> user_with_id (db w) i = None)"
    by (auto simp: user_with_email_None_iff user_with_id_None_iff)
  show ?thesis
    using v h i served
    by (auto simp: register_def bindE_def gen_op_def on_gen_def mapErrE_def db_op_def on_db_def create_user_def
        pg_run_with_id_def pg_run_def insert_user_def Let_def taken)
qed

text \<open>
  A reset request answers 200 for every well-formed address. For a user it draws a token, stores its
  hash and sends the link, in this order, and answers 200 whatever became of the mail.
\<close>

lemma reset_request_found:
  assumes run: "password_reset_request St b w = (Inr res, w')"
  obtains "res = respond 200 No_Body" "cache w' = cache w" "clock w' = clock w"
      "user_with_email (db w) (rr_email b) = None" "db w' = db w" "sent w' = sent w"
  | u bytes raw g1 g2 y where "res = respond 200 No_Body" "cache w' = cache w" "clock w' = clock w"
      "user_with_email (db w) (rr_email b) = Some u"
      "fill_bytes (st_env St) 32 (snd (pg_next (st_env St) (gen w))) = (bytes, g1)"
      "raw = hex_encode (st_digest St) bytes"
      "create_reset_token (st_env St) (user_id u) (token_digest (st_digest St) raw) (clock w + secs 900)
        (db w, g1) = (Inr (), (db w', g2))"
      "send_password_reset (st_env St) (st_email St) (rr_email b) (reset_link (st_app_base_url St) raw)
        (g2, sent w) = (y, (gen w', sent w'))"
proof -
  obtain found w1 w2 where f: "db_op (\<lambda>_. find_by_email (st_env St) (rr_email b)) w = (Inr found, w1)"
    and m: "(case found of
         Some user \<Rightarrow>
           bindE (on_gen (\<lambda>_. generate_reset_token (st_digest St) (st_env St))) (\<lambda>(raw_token, hash).
           bindE now (\<lambda>t.
           bindE (db_op (\<lambda>_. create_reset_token (st_env St) (user_id user) hash (t + secs 900))) (\<lambda>_.
           bindE (attemptE (on_mail (send_password_reset (st_env St) (st_email St) (user_email user)
                    (reset_link (st_app_base_url St) raw_token))))
             (\<lambda>_ :: email_error + unit. okE ()))))
       | None \<Rightarrow> okE ()) w1 = (Inr (), w')"
    and res: "res = respond 200 No_Body"
    using run unfolding password_reset_request_def by (elim bindE_InrE) auto
  have fo: "found = user_with_email (db w) (rr_email b)" "w1 = w\<lparr>gen := snd (pg_next (st_env St) (gen w))\<rparr>"
    using found_email_op [OF f] by simp_all
  show thesis
  proof (cases found)
    case None
    with m fo res show thesis by (intro that(1)) auto
  next
    case (Some u)
    then have u: "user_with_email (db w) (rr_email b) = Some u" using fo(1) by simp
    from m obtain bytes g1 y g2 where
      draw: "fill_bytes (st_env St) 32 (gen w1) = (bytes, g1)"
      and c: "create_reset_token (st_env St) (user_id u) (token_digest (st_digest St) (hex_encode (st_digest St) bytes))
        (clock w1 + secs 900) (db w1, g1) = (Inr (), (db w', g2))"
      and send: "send_password_reset (st_env St) (st_email St) (user_email u)
          (reset_link (st_app_base_url St) (hex_encode (st_digest St) bytes)) (g2, sent w1) = (y, (gen w', sent w'))"
      and frame: "cache w' = cache w1" "clock w' = clock w1"
      unfolding Some
      by (auto elim!: bindE_InrE db_op_InrE simp: on_gen_iff now_iff generate_reset_token_def Let_def attemptE_def
          on_mail_iff drawE_def bindE_def split: prod.splits sum.splits)
    show thesis
      by (rule that(2) [OF res _ _ u _ refl]) (use draw c send frame fo(2) user_with_email_Some(2) [OF u] in simp_all)
  qed
qed

lemma create_reset_token_owner:
  assumes "create_reset_token L i h x (d, g) = (Inr (), (d', g'))"
  shows "users d' = users d"
    and "reset_owner d' t = (reset_owner d t)(h := if t < x then Some i else None)"
proof -
  obtain k where ins: "insert_reset_row k i h x d = (Inr (), d')"
    using create_reset_token_ok [OF assms] by auto
  then show "users d' = users d" by (auto simp: insert_reset_row_def split: if_splits)
  show "reset_owner d' t = (reset_owner d t)(h := if t < x then Some i else None)"
    using insert_reset_row_owner [OF ins] by simp
qed

section \<open>Sessions\<close>

context auth_service begin

text \<open>After a revocation of all sessions of \<open>u\<close>, no handed-out token stands for \<open>u\<close>.\<close>

lemma revoke_all_op:
  assumes inv: "svc_inv St \<alpha> drawn N w" and j: "j \<in> N" and t: "clock w \<le> t"
    and run: "cache_op (revoke_all_sessions (st_redis St) (st_uuid St) u) w = (Inr n, w')"
  shows "session_of (st_uuid St) t (\<alpha> (cache w')) j \<noteq> Some u"
proof
  assume s: "session_of (st_uuid St) t (\<alpha> (cache w')) j = Some u"
  obtain c where c: "revoke_all_sessions (st_redis St) (st_uuid St) u (clock w) (cache w) = (Inr n, c)"
      "w' = w\<lparr>cache := c\<rparr>"
    using run by (auto simp: cache_op_iff)
  have "index_inv (st_uuid St) session_secs (set (drawn (gen w)) - N) (clock w) (\<alpha> (cache w))"
    using inv by (simp add: svc_inv_def cache_inv_def)
  from revoke_all_complete [OF this c(1) _ t, of j] s c(2) j show False by simp
qed

lemma logout_all_ok:
  assumes "svc_inv St \<alpha> drawn N w" and "logout_all St c w = (Inr res, w')" and "j \<in> N" and "clock w \<le> t"
  shows "session_of (st_uuid St) t (\<alpha> (cache w')) j \<noteq> Some (c_sub c)"
proof -
  obtain n where "cache_op (revoke_all_sessions (st_redis St) (st_uuid St) (c_sub c)) w = (Inr n, w')"
    using assms(2) unfolding logout_all_def by (auto elim: bindE_InrE)
  with assms show ?thesis by (blast dest: revoke_all_op)
qed

lemma logout_ok:
  assumes inv: "svc_inv St \<alpha> drawn N w" and run: "logout St b w = (Inr res, w')"
  obtains c where "verify_refresh (st_jwt_crate St) (st_jwt St) (logout_token b) (clock w) = Inr c"
    and "res = respond 204 No_Body" and "db w' = db w" and "clock w' = clock w"
    and "\<And>t. clock w \<le> t \<Longrightarrow> session_of (st_uuid St) t (\<alpha> (cache w'))
      = (session_of (st_uuid St) t (\<alpha> (cache w)))(c_jti c := None)"
proof -
  obtain c v k where c: "verify_refresh (st_jwt_crate St) (st_jwt St) (logout_token b) (clock w) = Inr c"
    and r: "revoke_refresh_token (st_redis St) (st_uuid St) (c_jti c) (clock w) (cache w) = (Inr v, k)"
    and w': "w' = w\<lparr>cache := k\<rparr>" and res: "res = respond 204 No_Body"
    using run unfolding logout_def
    by (elim bindE_InrE) (auto simp: now_def cache_op_iff elim!: bindE_InrE)
  from revoke_ok(2) [OF svc_typed [OF inv] r] show thesis
    by (intro that [OF c res]) (simp_all add: w')
qed

lemma reset_confirm_ok:
  assumes inv: "svc_inv St \<alpha> drawn N w" and run: "password_reset_confirm St b w = (Inr res, w')"
  obtains uid u h where "res = respond 200 No_Body" and "reset_confirm_validate b = Inr ()"
    and "reset_owner (db w) (clock w) (token_digest (st_digest St) (rc_token b)) = Some uid"
    and "\<exists>g g'. hash_of (st_argon2_crate St) (st_env St) (st_passwords St) (rc_new_password b) g = (Inr h, g')"
    and "user_with_id (db w) uid = Some u"
    and "user_with_id (db w') = (user_with_id (db w))(uid \<mapsto> u\<lparr>password_hash := h, updated_at := clock w\<rparr>)"
    and "\<And>t. clock w \<le> t \<Longrightarrow> reset_owner (db w') t
      = (reset_owner (db w) t)(token_digest (st_digest St) (rc_token b) := None)"
    and "\<And>j t. distinct (drawn (gen w')) \<Longrightarrow> j \<in> N \<Longrightarrow> clock w \<le> t \<Longrightarrow>
      session_of (st_uuid St) t (\<alpha> (cache w')) j \<noteq> Some uid"
proof -
  let ?hash = "token_digest (st_digest St) (rc_token b)"
  obtain uid w1 h w2 y w3 n where v: "reset_confirm_validate b = Inr ()"
    and c: "db_op (consume_reset_token (st_env St) ?hash) w = (Inr (Some uid), w1)"
    and h: "gen_op (\<lambda>_. hash_of (st_argon2_crate St) (st_env St) (st_passwords St) (rc_new_password b)) w1 = (Inr h, w2)"
    and up: "db_op (update_password (st_env St) uid h) w2 = (Inr y, w3)"
    and rv: "cache_op (revoke_all_sessions (st_redis St) (st_uuid St) uid) w3 = (Inr n, w')"
    and res: "res = respond 200 No_Body"
    using run unfolding password_reset_confirm_def Let_def
    by (elim bindE_InrE) (auto elim!: bindE_InrE)
  note ho = hash_op [OF h] and uo = update_password_op [OF up] and fr = cache_op_frame [OF rv]
  from c obtain d g where ct: "consume_reset_token (st_env St) ?hash (clock w) (db w, gen w) = (Inr (Some uid), (d, g))"
    and w1: "w1 = w\<lparr>db := d, gen := g\<rparr>" by (auto elim: db_op_InrE)
  note co = consume_reset_token_ok [OF ct, unfolded fst_conv]
  have same: "user_with_id d = user_with_id (db w)"
    by (simp add: co consume_reset_row_def user_with_id_def fun_eq_iff)
  from uo(1) obtain u where u: "user_with_id (db w) uid = Some u"
      "user_with_id (db w3) = (user_with_id (db w))(uid \<mapsto> u\<lparr>password_hash := h, updated_at := clock w\<rparr>)"
    using ho w1 same by auto
  have e3: "evo St \<alpha> drawn N w w3"
    using stepsD [OF evolves_db(7) c, of N] stepsD [OF evolves_gen(1) h, of N] stepsD [OF evolves_db(4) up, of N]
    by (meson evo_trans transpD)
  show thesis
  proof (rule that [OF res v _ ho(1) u(1)])
    show "reset_owner (db w) (clock w) ?hash = Some uid" using co(1) by simp
    show "user_with_id (db w') = (user_with_id (db w))(uid \<mapsto> u\<lparr>password_hash := h, updated_at := clock w\<rparr>)"
      using u fr by simp
    show "\<And>t. clock w \<le> t \<Longrightarrow> reset_owner (db w') t = (reset_owner (db w) t)(?hash := None)"
    proof -
      fix t assume "clock w \<le> t"
      from reset_owner_consumed [OF this] have "reset_owner d t = (reset_owner (db w) t)(?hash := None)"
        by (simp add: co)
      moreover have "reset_owner (db w') = reset_owner d"
        by (rule reset_owner_cong) (use fr uo ho w1 in simp)
      ultimately show "reset_owner (db w') t = (reset_owner (db w) t)(?hash := None)" by simp
    qed
    fix j t assume d: "distinct (drawn (gen w'))" and j: "j \<in> N" and t: "clock w \<le> t"
    have "svc_inv St \<alpha> drawn N w3" "clock w3 = clock w" using evoD(1,2) [OF e3 inv] d fr by simp_all
    with revoke_all_op [OF _ j _ rv] t show "session_of (st_uuid St) t (\<alpha> (cache w')) j \<noteq> Some uid" by simp
  qed
qed

text \<open>The old token of a refresh is dead afterwards, the new one stands for the user of the claims.\<close>

lemma refresh_rotates:
  assumes inv: "svc_inv St \<alpha> drawn N w" and fresh: "distinct (drawn (gen w'))"
    and run: "refresh St b w = (Inr res, w')"
    and c: "verify_refresh (st_jwt_crate St) (st_jwt St) (refresh_token b) (clock w) = Inr c"
    and j: "c_jti c \<in> set (drawn (gen w))" and t: "clock w \<le> t"
  shows "session_of (st_uuid St) t (\<alpha> (cache w')) (c_jti c) = None"
proof -
  from inv run obtain c' w1 where c': "verify_refresh (st_jwt_crate St) (st_jwt St) (refresh_token b) (clock w) = Inr c'"
    and e: "evo St \<alpha> drawn N w w1" and w1: "gen w1 = gen w"
    and s: "\<And>t. clock w \<le> t \<Longrightarrow> session_of (st_uuid St) t (\<alpha> (cache w1))
      = (session_of (st_uuid St) t (\<alpha> (cache w)))(c_jti c' := None)"
    and i: "issue_tokens St (c_sub c') (c_email c') w1 = (Inr res, w')"
    by (rule refresh_ok) blast
  have e2: "evo St \<alpha> drawn N w1 w'" using i by (rule stepsD [OF evolves_issue])
  then have "distinct (drawn (gen w1))" using fresh by (auto simp: evo_def intro: suffix_distinct)
  from evoD(1) [OF e inv this] have "svc_inv St \<alpha> drawn N w1" .
  from evoD(5) [OF e2 this fresh, of "c_jti c" t] s [OF t] j w1 c c' show ?thesis
    by (cases "session_of (st_uuid St) t (\<alpha> (cache w')) (c_jti c)") auto
qed

text \<open>The three ways in which a handed-out token dies, and that each is for good.\<close>

lemma leeway_nonneg: "0 \<le> jwt_leeway (st_jwt_crate St)"
  by (simp add: jwt_leeway_def new_leeway)

text \<open>The tokens just issued are good, and the session of the refresh token is new.\<close>

lemma issue_tokens_alive:
  assumes inv: "svc_inv St \<alpha> drawn N w" and fresh: "distinct (drawn (gen w'))"
    and run: "issue_tokens St uid email w = (Inr res, w')"
  obtains a r j where "res = respond 200 (Login_Response a r)"
    and "\<And>t. timestamp t \<le> timestamp (clock w) + 900 \<Longrightarrow>
      \<exists>c. verify_access (st_jwt_crate St) (st_jwt St) a t = Inr c \<and> c_sub c = uid \<and> c_email c = email"
    and "\<And>t. timestamp t \<le> timestamp (clock w) + session_secs \<Longrightarrow>
      \<exists>c. verify_refresh (st_jwt_crate St) (st_jwt St) r t = Inr c \<and> c_jti c = j \<and> c_sub c = uid"
    and "j \<notin> set (drawn (gen w))" and "db w' = db w" and "clock w' = clock w"
    and "\<And>t. clock w \<le> t \<Longrightarrow> session_of (st_uuid St) t (\<alpha> (cache w'))
      = (session_of (st_uuid St) t (\<alpha> (cache w))) (j := if t < clock w + secs session_secs then Some uid else None)"
    and "\<And>t. lockout_failures t (\<alpha> (cache w')) = lockout_failures t (\<alpha> (cache w))"
proof (rule issue_tokens_ok [OF inv fresh run])
  fix a r
  assume *: "res = respond 200 (Login_Response a r)"
    "fresh_jti St w \<notin> set (drawn (gen w))" "db w' = db w" "clock w' = clock w"
    "\<And>t. clock w \<le> t \<Longrightarrow> session_of (st_uuid St) t (\<alpha> (cache w'))
      = (session_of (st_uuid St) t (\<alpha> (cache w)))
          (fresh_jti St w := if t < clock w + secs session_secs then Some uid else None)"
    "\<And>t. verify_access (st_jwt_crate St) (st_jwt St) a t =
      (if timestamp (clock w) + 900 < timestamp t - jwt_leeway (st_jwt_crate St)
       then Inl (InvalidToken Expired_Signature)
       else Inr \<lparr>c_sub = uid, c_email = email, c_iat = timestamp (clock w),
         c_exp = timestamp (clock w) + 900, c_jti = fst (new_v4 (st_env St) (gen w)), c_kind = Access\<rparr>)"
    "\<And>t. verify_refresh (st_jwt_crate St) (st_jwt St) r t =
      (if timestamp (clock w) + session_secs < timestamp t - jwt_leeway (st_jwt_crate St)
       then Inl (InvalidToken Expired_Signature)
       else Inr \<lparr>c_sub = uid, c_email = email, c_iat = timestamp (clock w),
         c_exp = timestamp (clock w) + session_secs, c_jti = fresh_jti St w, c_kind = Refresh\<rparr>)"
  show thesis
    by (rule that [of a r "fresh_jti St w"])
      (use * leeway_nonneg issue_tokens_failures [OF run] in simp_all)
qed

text \<open>What an answered refresh hands out, for the subject of the old token.\<close>

lemma refresh_issues:
  assumes inv: "svc_inv St \<alpha> drawn N w" and fresh: "distinct (drawn (gen w'))"
    and run: "refresh St b w = (Inr (respond 200 (Login_Response a r)), w')"
  shows "\<exists>d. verify_refresh (st_jwt_crate St) (st_jwt St) (refresh_token b) (clock w) = Inr d
    \<and> (\<exists>c. verify_access (st_jwt_crate St) (st_jwt St) a (clock w') = Inr c \<and> c_sub c = c_sub d)
    \<and> (\<exists>d'. verify_refresh (st_jwt_crate St) (st_jwt St) r (clock w') = Inr d' \<and> c_sub d' = c_sub d
         \<and> session_of (st_uuid St) (clock w') (\<alpha> (cache w')) (c_jti d') = Some (c_sub d))"
proof -
  from inv run obtain d w1 where d: "verify_refresh (st_jwt_crate St) (st_jwt St) (refresh_token b) (clock w) = Inr d"
    and e: "evo St \<alpha> drawn N w w1"
    and i: "issue_tokens St (c_sub d) (c_email d) w1 = (Inr (respond 200 (Login_Response a r)), w')"
    by (rule refresh_ok) blast
  have "suffix (drawn (gen w1)) (drawn (gen w'))" using stepsD [OF evolves_issue i] by (simp add: evo_def)
  then have d1: "distinct (drawn (gen w1))" using fresh by (auto intro: suffix_distinct)
  show ?thesis
  proof (rule issue_tokens_alive [OF evoD(1) [OF e inv d1] fresh i])
    fix a' r' j
    assume *: "respond 200 (Login_Response a r) = respond 200 (Login_Response a' r')"
      "\<And>t. timestamp t \<le> timestamp (clock w1) + 900 \<Longrightarrow>
        \<exists>c. verify_access (st_jwt_crate St) (st_jwt St) a' t = Inr c \<and> c_sub c = c_sub d \<and> c_email c = c_email d"
      "\<And>t. timestamp t \<le> timestamp (clock w1) + session_secs \<Longrightarrow>
        \<exists>c. verify_refresh (st_jwt_crate St) (st_jwt St) r' t = Inr c \<and> c_jti c = j \<and> c_sub c = c_sub d"
      "clock w' = clock w1"
      "\<And>t. clock w1 \<le> t \<Longrightarrow> session_of (st_uuid St) t (\<alpha> (cache w'))
        = (session_of (st_uuid St) t (\<alpha> (cache w1))) (j := if t < clock w1 + secs session_secs then Some (c_sub d) else None)"
    from *(1) have "a' = a" "r' = r" by (simp_all add: respond_def)
    with *(2) [of "clock w1"] *(3) [of "clock w1"] *(5) [of "clock w1"] *(4) d show ?thesis
      by (fastforce simp: session_secs_def)
  qed
qed

lemma reachable_svc:
  assumes "reachable rs St L \<alpha> (w, H)" and "distinct (drawn (gen w))"
  shows "sys_inv St \<alpha> drawn (w, H)" and "svc_inv St \<alpha> drawn (fst ` H) w"
proof -
  show "sys_inv St \<alpha> drawn (w, H)" using reachable_inv [OF assms(1)] assms(2) by simp
  then show "svc_inv St \<alpha> drawn (fst ` H) w" by (simp add: sys_inv_def)
qed

lemma dies_for_good:
  assumes reach: "reachable rs St L \<alpha> (w, H)" and j: "(j, u) \<in> H"
    and e: "evo St \<alpha> drawn (fst ` H) w w1"
    and dead: "\<And>t. svc_inv St \<alpha> drawn (fst ` H) w \<Longrightarrow> distinct (drawn (gen w1)) \<Longrightarrow> clock w \<le> t \<Longrightarrow>
      session_of (st_uuid St) t (\<alpha> (cache w1)) j \<noteq> Some u"
    and later: "runs rs St L (w1, H) (w2, H2)" and fresh: "distinct (drawn (gen w2))"
    and token: "verify_refresh (st_jwt_crate St) (st_jwt St) tok (clock w2) = Inr c" "c_jti c = j"
  shows "refresh St \<lparr>refresh_token = tok\<rparr> w2 \<noteq> (Inr res, w3)"
proof -
  have d1: "distinct (drawn (gen w1))" using runs_log [OF later] fresh by (auto intro: suffix_distinct)
  then have "distinct (drawn (gen w))" using e by (auto simp: evo_def intro: suffix_distinct)
  note inv = reachable_svc [OF reach this]
  note k = evoD [OF e inv(2) d1]
  have in_log: "i \<in> set (drawn (gen w))" if "(i, v) \<in> H" for i v
    using inv(2) that by (auto simp: svc_inv_def)
  have own: "v' = v" if "(i, v) \<in> H" "clock w1 \<le> t" "session_of (st_uuid St) t (\<alpha> (cache w1)) i = Some v'" for i v t v'
  proof -
    have "session_of (st_uuid St) t (\<alpha> (cache w)) i = Some v'" using k(5) [OF in_log [OF that(1)] that(3)] .
    with that inv(1) k(2) show ?thesis by (fastforce simp: sys_inv_def)
  qed
  then have inv1: "sys_inv St \<alpha> drawn (w1, H)" using k(1) by (auto simp: sys_inv_def)
  have "session_of (st_uuid St) t (\<alpha> (cache w1)) j \<noteq> Some v" if "clock w1 \<le> t" for t v
  proof
    assume s: "session_of (st_uuid St) t (\<alpha> (cache w1)) j = Some v"
    then have "v = u" using own [OF j that] by blast
    with s dead [OF inv(2) d1, of t] k(2) that show False by simp
  qed
  from dead_forever [OF inv1 j this later fresh token] show ?thesis .
qed

end

end
