(* ===== verification/Availability.thy ===== *)
theory Availability
  imports Cache_Invariant
begin

text \<open>
  While the cache is up, the stores answer: under the invariant no command of theirs meets a key of
  the wrong type, and every reply has the type that the code reads. With the laws of the stores this
  gives the outcome of a handler, not only what a success implies.
\<close>

locale available_cache = session_cache R \<alpha> U + redis_available R \<alpha> up
  for R :: "'r redis_api" and \<alpha> and U and up
begin

lemma up_connect': "up r \<Longrightarrow> \<exists>r'. rd_connect R r = (Inr (), r') \<and> up r' \<and> \<alpha> r' = \<alpha> r"
  using up_connect connect by metis

lemma up_query:
  assumes "up r" and "fst (ks_exec c t (\<alpha> r)) = Inr rep'"
    and "\<And>rep. same_reply rep rep' \<Longrightarrow> \<exists>v. conv rep = Inr v"
  shows "\<exists>v r'. rd_query R c conv t r = (Inr v, r') \<and> up r'"
proof -
  obtain rep r' where run: "rd_exec R c t r = (Inr rep, r')" "up r'" using up_exec [OF assms(1,2)] by blast
  from exec_ok [OF this(1)] assms(2) have "same_reply rep rep'" by auto
  then obtain v where "conv rep = Inr v" using assms(3) by blast
  with run show ?thesis by (simp add: rd_query_def bindE_def)
qed

lemma is_locked_up:
  assumes "up r" and ok: "counters_ok (\<alpha> r)"
  shows "\<exists>b r'. is_locked R e t r = (Inr b, r') \<and> up r'"
proof -
  obtain r1 where r1: "rd_connect R r = (Inr (), r1)" "up r1" "\<alpha> r1 = \<alpha> r" using up_connect' assms(1) by blast
  have "\<exists>v r'. rd_query R (GET (lockout_key e)) (to_opt_u32 R) t r1 = (Inr v, r') \<and> up r'"
    using ok
  proof (cases rule: counters_cases [of _ t e])
    case 1
    then show ?thesis using r1 by (intro up_query [where rep' = Nil_Reply]) (auto simp: opt_u32_nil)
  next
    case (2 n d)
    then show ?thesis using r1 by (intro up_query [where rep' = "Bulk_Num n"]) (auto simp: opt_u32_num)
  qed
  then obtain v r' where "rd_query R (GET (lockout_key e)) (to_opt_u32 R) t r1 = (Inr v, r')" "up r'" by blast
  with r1 show ?thesis by (simp add: is_locked_def bindE_def mapErrE_def)
qed

lemma clear_failures_up:
  assumes "up r" shows "\<exists>r'. clear_failures R e t r = (Inr (), r') \<and> up r'"
proof -
  obtain r1 where r1: "rd_connect R r = (Inr (), r1)" "up r1" using up_connect' assms by blast
  obtain rep r' where "rd_exec R (DEL (lockout_key e)) t r1 = (Inr rep, r')" "up r'"
    using up_exec [OF r1(2), of "DEL (lockout_key e)" t] by auto
  with r1 show ?thesis by (simp add: clear_failures_def bindE_def mapErrE_def)
qed

lemma record_failure_up:
  assumes "up r" and ok: "counters_ok (\<alpha> r)" and below: "lockout_failures t (\<alpha> r) e < 10"
  shows "\<exists>c r'. record_failure R e t r = (Inr c, r') \<and> up r'"
proof -
  let ?n = "lockout_failures t (\<alpha> r) e + 1"
  obtain r1 where r1: "rd_connect R r = (Inr (), r1)" "up r1" "\<alpha> r1 = \<alpha> r" using up_connect' assms(1) by blast
  have n: "0 \<le> ?n" "?n < 2 ^ 32" using lockout_failures_bounds [OF ok, of t e] below by simp_all
  have incr: "fst (ks_exec (INCRBY (lockout_key e) 1) t (\<alpha> r1)) = Inr (Num ?n)
      \<and> (\<exists>d. snd (ks_exec (INCRBY (lockout_key e) 1) t (\<alpha> r1)) (lockout_key e) = Some (RNum ?n, d) \<and> live t d)"
    using ok below r1(3) by (cases rule: counters_cases [of _ t e]) (auto simp: redis_max_def)
  obtain v r2 where q: "rd_query R (INCRBY (lockout_key e) 1) (to_u32 R) t r1 = (Inr v, r2)" "up r2"
    using up_query [OF r1(2), of "INCRBY (lockout_key e) 1" t "Num ?n" "to_u32 R"] incr n
    by (auto simp: u32_num simp del: ks_exec.simps)
  then have "\<alpha> r2 = snd (ks_exec (INCRBY (lockout_key e) 1) t (\<alpha> r1))"
    by (auto elim!: query_InrE simp del: ks_exec.simps)
  with incr obtain d where "lookup t (\<alpha> r2) (lockout_key e) = Some (RNum ?n, d)"
    by (auto simp: lookup_Some_iff simp del: ks_exec.simps)
  then have "fst (ks_exec (EXPIRE (lockout_key e) LOCKOUT_WINDOW_SECS) t (\<alpha> r2)) = Inr (Num 1)"
    by (simp add: LOCKOUT_WINDOW_SECS_def)
  then obtain rep r3 where "rd_exec R (EXPIRE (lockout_key e) LOCKOUT_WINDOW_SECS) t r2 = (Inr rep, r3)" "up r3"
    using up_exec [OF q(2)] by blast
  with r1 q show ?thesis by (simp add: record_failure_def bindE_def mapErrE_def)
qed

lemma store_up:
  assumes "up r" and wt: "well_typed U (\<alpha> r)"
  shows "\<exists>r'. store_refresh_token R U j u refresh_ttl_secs t r = (Inr (), r') \<and> up r'"
proof -
  obtain r1 where r1: "rd_connect R r = (Inr (), r1)" "up r1" "\<alpha> r1 = \<alpha> r" using up_connect' assms(1) by blast
  have "ks_all_ok (store_cmds U j u refresh_ttl_secs) t (\<alpha> r1)"
    using typed_lookups(2) [OF wt, of t u] r1(3)
    by (elim disjE exE conjE) (auto simp: store_cmds_def session_secs_def)
  from up_pipe [OF r1(2) this] obtain r' where
    "rd_pipe R (store_cmds U j u refresh_ttl_secs) t r1 = (Inr (), r')" "up r'" by blast
  with r1 show ?thesis by (simp add: store_refresh_token_def bindE_def mapErrE_def)
qed

lemma revoke_up:
  assumes "up r" and wt: "well_typed U (\<alpha> r)"
  shows "\<exists>v r'. revoke_refresh_token R U j t r = (Inr v, r') \<and> up r'"
proof -
  obtain r1 where r1: "rd_connect R r = (Inr (), r1)" "up r1" "\<alpha> r1 = \<alpha> r" using up_connect' assms(1) by blast
  have "\<exists>v r2. rd_query R (GETDEL (refresh_key U j)) (to_opt_string R) t r1 = (Inr v, r2) \<and> up r2"
    using typed_lookups(1) [OF wt, of t j]
  proof (elim disjE exE)
    assume "lookup t (\<alpha> r) (refresh_key U j) = None"
    then show ?thesis using r1 by (intro up_query [where rep' = Nil_Reply]) (auto simp: opt_string_nil)
  next
    fix u d assume "lookup t (\<alpha> r) (refresh_key U j) = Some (RStr (uuid_show U u), d)"
    then show ?thesis using r1
      by (intro up_query [where rep' = "Bulk (uuid_show U u)"]) (auto simp: opt_string_bulk)
  qed
  then obtain v r2 where q: "rd_query R (GETDEL (refresh_key U j)) (to_opt_string R) t r1 = (Inr v, r2)" "up r2"
    by blast
  have "\<alpha> r2 = snd (ks_exec (GETDEL (refresh_key U j)) t (\<alpha> r1))"
    using getdel_reply(2) [OF _ q(1)] wt r1(3) by simp
  then have s2: "\<alpha> r2 (sessions_key U u) = \<alpha> r (sessions_key U u)" for u
    using r1(3) by (simp add: ks_exec_frame del: ks_exec.simps)
  have "\<exists>r'. drop_from_index R U j v t r2 = (Inr (), r') \<and> up r'"
  proof (cases "Option.bind v (uuid_parse U)")
    case None
    with q(2) show ?thesis by (auto simp: drop_from_index_def split: option.split)
  next
    case (Some u)
    have same: "lookup t (\<alpha> r2) (sessions_key U u) = lookup t (\<alpha> r) (sessions_key U u)"
      by (simp add: lookup_def s2)
    have "\<exists>rep. fst (ks_exec (SREM (sessions_key U u) (uuid_show U j)) t (\<alpha> r2)) = Inr rep"
      using typed_lookups(2) [OF wt, of t u] same by (elim disjE exE conjE) simp_all
    then obtain rep r3 where "rd_exec R (SREM (sessions_key U u) (uuid_show U j)) t r2 = (Inr rep, r3)" "up r3"
      using up_exec [OF q(2)] by blast
    with Some show ?thesis
      by (auto simp: drop_from_index_def bindE_def mapErrE_def split: option.splits bind_splits)
  qed
  with r1 q show ?thesis by (auto simp: revoke_refresh_token_def bindE_def mapErrE_def)
qed

lemma revoke_all_up:
  assumes "up r" and wt: "well_typed U (\<alpha> r)"
  shows "\<exists>n r'. revoke_all_sessions R U u t r = (Inr n, r') \<and> up r'"
proof -
  obtain r1 where r1: "rd_connect R r = (Inr (), r1)" "up r1" "\<alpha> r1 = \<alpha> r" using up_connect' assms(1) by blast
  have "\<exists>ms. fst (ks_exec (SMEMBERS (sessions_key U u)) t (\<alpha> r1)) = Inr (Arr ms)"
    using typed_lookups(2) [OF wt, of t u] r1(3) by (elim disjE exE conjE) simp_all
  then obtain ms where "fst (ks_exec (SMEMBERS (sessions_key U u)) t (\<alpha> r1)) = Inr (Arr ms)" ..
  moreover have "\<exists>v. to_strings R rep = Inr v" if "same_reply rep (Arr ms)" for rep
    using that by (auto simp: same_reply_Arr strings_arr)
  ultimately obtain js r2 where
    q: "rd_query R (SMEMBERS (sessions_key U u)) (to_strings R) t r1 = (Inr js, r2)" "up r2"
    using up_query [OF r1(2)] by blast
  obtain r3 where "rd_pipe R (revoke_cmds U u js) t r2 = (Inr (), r3)" "up r3"
    using up_pipe [OF q(2)] del_all_ok unfolding revoke_cmds_def by blast
  with r1 q show ?thesis by (simp add: revoke_all_sessions_def bindE_def mapErrE_def)
qed

end

end
