(* ===== verification/Handler_Outcome.thy ===== *)
theory Handler_Outcome
  imports Handler_Facts Availability
begin

text \<open>
  The outcome of login and refresh while cache and database answer and signing works: what the
  handler returns is a function of the abstract state. The locale \<open>available_service\<close> adds these
  conditions to \<open>auth_service\<close>; \<open>up\<close> and \<open>calm\<close> describe a period without an outage.
\<close>

locale available_service =
  auth_service St \<alpha> keypair drawn + available_cache "st_redis St" \<alpha> "st_uuid St" up
  for St :: "('r, 'g) app_state" and \<alpha> and keypair and drawn and up +
  fixes calm :: "'g \<Rightarrow> bool"
  assumes calm_next: "calm g \<Longrightarrow> pg_next (st_env St) g = (x, g') \<Longrightarrow> x = Pg_Served \<and> calm g'"
    and calm_v4: "calm g \<Longrightarrow> new_v4 (st_env St) g = (u, g') \<Longrightarrow> calm g'"
    and signing: "\<exists>tok. jwt_encode (st_jwt_crate St) EdDSA c (encoding_key (st_jwt St)) = Inr tok"

text \<open>What login decides: the user to whom it issues tokens, or the error.\<close>

definition login_spec ::
    "('r, 'g) app_state \<Rightarrow> ('r \<Rightarrow> keyspace) \<Rightarrow> login_request \<Rightarrow> ('r, 'g) world \<Rightarrow> api_error + user" where
  "login_spec St \<alpha> b w = (case login_validate b of
       Inl e \<Rightarrow> Inl e
     | Inr _ \<Rightarrow>
         if 10 \<le> lockout_failures (clock w) (\<alpha> (cache w)) (login_email b) then Inl Unauthorized
         else case user_with_email (db w) (login_email b) of
           None \<Rightarrow> Inl Unauthorized
         | Some user \<Rightarrow>
             (case verify_hash (st_argon2_crate St) (st_passwords St) (login_password b) (password_hash user) of
                Inl e \<Rightarrow> Inl (api_of_domain e)
              | Inr ok \<Rightarrow> if ok then Inr user else Inl Unauthorized))"

text \<open>What refresh decides: the claims for which it issues new tokens, or the error.\<close>

definition refresh_spec ::
    "('r, 'g) app_state \<Rightarrow> ('r \<Rightarrow> keyspace) \<Rightarrow> refresh_request \<Rightarrow> ('r, 'g) world \<Rightarrow> api_error + claims" where
  "refresh_spec St \<alpha> b w = (case refresh_validate b of
       Inl e \<Rightarrow> Inl e
     | Inr _ \<Rightarrow>
         (case verify_refresh (st_jwt_crate St) (st_jwt St) (refresh_token b) (clock w) of
            Inl _ \<Rightarrow> Inl Unauthorized
          | Inr c \<Rightarrow>
              (case session_of (st_uuid St) (clock w) (\<alpha> (cache w)) (c_jti c) of
                 None \<Rightarrow> Inl Unauthorized
               | Some _ \<Rightarrow> Inr c)))"

text \<open>Login requests one after another, with their results.\<close>

fun attempts ::
    "('r, 'g) app_state \<Rightarrow> login_request list \<Rightarrow> ('r, 'g) world \<Rightarrow> (api_error + response) list \<times> ('r, 'g) world" where
  "attempts St [] w = ([], w)"
| "attempts St (b # bs) w = (case login St b w of (r, w1) \<Rightarrow>
     (case attempts St bs w1 of (rs, w2) \<Rightarrow> (r # rs, w2)))"

text \<open>A well-formed login for the address \<open>e\<close> with a password that is not the user's.\<close>

definition wrong_password :: "('r, 'g) app_state \<Rightarrow> database \<Rightarrow> string \<Rightarrow> login_request \<Rightarrow> bool" where
  "wrong_password St d e b \<longleftrightarrow> login_validate b = Inr () \<and> login_email b = e
     \<and> (\<exists>user. user_with_email d e = Some user
          \<and> verify_hash (st_argon2_crate St) (st_passwords St) (login_password b) (password_hash user) = Inr False)"

lemma cache_op_run: "m (clock w) (cache w) = (Inr x, c) \<Longrightarrow> cache_op m w = (Inr x, w\<lparr>cache := c\<rparr>)"
  by (simp add: cache_op_def mapErrE_def on_cache_def)

context available_service begin

lemma sign_with_claims_up:
  assumes "new_v4 (st_env St) g = (j, g')"
  shows "\<exists>tok c. sign_with_claims (st_jwt_crate St) (st_env St) (st_jwt St) uid email ttl k t g
    = (Inr (tok, c), g') \<and> c_jti c = j"
proof -
  let ?c = "\<lparr>c_sub = uid, c_email = email, c_iat = timestamp t, c_exp = timestamp (t + ttl),
      c_jti = j, c_kind = k\<rparr>"
  obtain tok where "jwt_encode (st_jwt_crate St) EdDSA ?c (encoding_key (st_jwt St)) = Inr tok"
    using signing by blast
  with assms show ?thesis
    by (auto simp: sign_with_claims_def bindE_def mapErrE_def drawE_def Let_def)
qed

lemma sign_ops_up:
  assumes "calm (gen w)"
  obtains a w1 r j w2 where
    "gen_op (sign_access_token (st_jwt_crate St) (st_env St) (st_jwt St) uid email) w = (Inr a, w1)"
    and "gen_op (sign_refresh_token (st_jwt_crate St) (st_env St) (st_jwt St) uid email) w1 = (Inr (r, j), w2)"
    and "cache w2 = cache w" and "calm (gen w2)"
proof -
  obtain j1 g1 where g1: "new_v4 (st_env St) (gen w) = (j1, g1)" by fastforce
  obtain j2 g2 where g2: "new_v4 (st_env St) g1 = (j2, g2)" by fastforce
  have calm: "calm g2" using calm_v4 assms g1 g2 by blast
  obtain a ca where "sign_with_claims (st_jwt_crate St) (st_env St) (st_jwt St) uid email
      (access_ttl (st_jwt St)) Access (clock w) (gen w) = (Inr (a, ca), g1)"
    using sign_with_claims_up [OF g1] by blast
  then have a: "gen_op (sign_access_token (st_jwt_crate St) (st_env St) (st_jwt St) uid email) w
      = (Inr a, w\<lparr>gen := g1\<rparr>)"
    by (simp add: gen_op_def on_gen_def sign_access_token_def bindE_def mapErrE_def)
  obtain r cr where "sign_with_claims (st_jwt_crate St) (st_env St) (st_jwt St) uid email
      (refresh_ttl (st_jwt St)) Refresh (clock w) g1 = (Inr (r, cr), g2)" "c_jti cr = j2"
    using sign_with_claims_up [OF g2] by blast
  then have "gen_op (sign_refresh_token (st_jwt_crate St) (st_env St) (st_jwt St) uid email) (w\<lparr>gen := g1\<rparr>)
      = (Inr (r, j2), w\<lparr>gen := g2\<rparr>)"
    by (simp add: gen_op_def on_gen_def sign_refresh_token_def bindE_def mapErrE_def)
  from that [OF a this] calm show thesis by simp
qed

lemma issue_tokens_up:
  assumes "up (cache w)" and "calm (gen w)" and "well_typed (st_uuid St) (\<alpha> (cache w))"
  shows "\<exists>a r w'. issue_tokens St uid email w = (Inr (respond 200 (Login_Response a r)), w')
    \<and> up (cache w') \<and> calm (gen w')"
proof -
  from assms(2) obtain a w1 r j w2 where
    sa: "gen_op (sign_access_token (st_jwt_crate St) (st_env St) (st_jwt St) uid email) w = (Inr a, w1)"
    and sr: "gen_op (sign_refresh_token (st_jwt_crate St) (st_env St) (st_jwt St) uid email) w1 = (Inr (r, j), w2)"
    and w2: "cache w2 = cache w" "calm (gen w2)"
    by (rule sign_ops_up)
  obtain c where c: "store_refresh_token (st_redis St) (st_uuid St) j uid refresh_ttl_secs (clock w2) (cache w2)
      = (Inr (), c)" "up c"
    using store_up [of "cache w2"] assms(1,3) w2(1) by metis
  from sa sr cache_op_run [where m = "store_refresh_token _ _ j uid _", OF c(1)]
  have "issue_tokens St uid email w = (Inr (respond 200 (Login_Response a r)), w2\<lparr>cache := c\<rparr>)"
    by (simp add: issue_tokens_def bindE_def)
  with c(2) w2(2) show ?thesis by auto
qed

lemma find_by_email_up:
  assumes "calm (gen w)"
  obtains g where "db_op (\<lambda>_. find_by_email (st_env St) e) w
      = (Inr (user_with_email (db w) e), w\<lparr>gen := g\<rparr>)" and "calm g"
proof -
  obtain x g where g: "pg_next (st_env St) (gen w) = (x, g)" by fastforce
  with calm_next [OF assms] have "x = Pg_Served" "calm g" by blast+
  with g show thesis
    by (intro that [of g]) (simp_all add: db_op_def on_db_def mapErrE_def find_by_email_def pg_run_def
        select_user_def user_with_email_def)
qed

text \<open>A locked address, an unknown address and a wrong password are all answered alike.\<close>

lemma is_locked_step:
  assumes "up (cache w)" and ok: "counters_ok (\<alpha> (cache w))"
  obtains c where "cache_op (is_locked (st_redis St) e) w
      = (Inr (10 \<le> lockout_failures (clock w) (\<alpha> (cache w)) e), w\<lparr>cache := c\<rparr>)"
    and "up c" and "\<alpha> c = \<alpha> (cache w)"
proof -
  obtain b c where run: "is_locked (st_redis St) e (clock w) (cache w) = (Inr b, c)" and "up c"
    using is_locked_up [OF assms] by blast
  from is_locked_ok [OF ok run] \<open>up c\<close> cache_op_run [where m = "is_locked (st_redis St) e", OF run] show thesis
    by (intro that [of c]) simp_all
qed

lemma login_outcome_up:
  assumes inv: "svc_inv St \<alpha> drawn N w" and "up (cache w)" and "calm (gen w)"
  shows "case login_spec St \<alpha> b w of
      Inl e \<Rightarrow> \<exists>w'. login St b w = (Inl e, w')
    | Inr user \<Rightarrow> \<exists>a r w'. login St b w = (Inr (respond 200 (Login_Response a r)), w')"
proof (cases "login_validate b")
  case (Inl e)
  then show ?thesis by (simp add: login_spec_def login_def bindE_def)
next
  case (Inr v)
  let ?e = "login_email b" and ?ks = "\<alpha> (cache w)"
  have v: "login_validate b = Inr ()" using Inr by simp
  obtain c1 where l: "cache_op (is_locked (st_redis St) ?e) w
      = (Inr (10 \<le> lockout_failures (clock w) ?ks ?e), w\<lparr>cache := c1\<rparr>)" "up c1" "\<alpha> c1 = ?ks"
    using is_locked_step [OF assms(2) svc_counters [OF inv]] by blast
  obtain g where f: "db_op (\<lambda>_. find_by_email (st_env St) ?e) (w\<lparr>cache := c1\<rparr>)
      = (Inr (user_with_email (db w) ?e), w\<lparr>cache := c1, gen := g\<rparr>)" "calm g"
    using find_by_email_up [of "w\<lparr>cache := c1\<rparr>" ?e] assms(3) by auto
  let ?w2 = "w\<lparr>cache := c1, gen := g\<rparr>"
  show ?thesis
  proof (cases "10 \<le> lockout_failures (clock w) ?ks ?e")
    case True
    with v l show ?thesis by (simp add: login_spec_def login_def bindE_def)
  next
    case False
    show ?thesis
    proof (cases "user_with_email (db w) ?e")
      case None
      with v l f False show ?thesis by (simp add: login_spec_def login_def bindE_def)
    next
      case (Some user)
      show ?thesis
      proof (cases "verify_hash (st_argon2_crate St) (st_passwords St) (login_password b) (password_hash user)")
        case (Inl e)
        with v l f False Some show ?thesis
          by (simp add: login_spec_def login_def bindE_def domain_op_def mapErrE_def)
      next
        case (Inr ok)
        show ?thesis
        proof (cases ok)
          case False
          have "lockout_failures (clock w) (\<alpha> c1) ?e < 10" "counters_ok (\<alpha> c1)"
            using l(3) \<open>\<not> 10 \<le> lockout_failures (clock w) ?ks ?e\<close> svc_counters [OF inv] by simp_all
          from record_failure_up [OF l(2) this(2,1)] obtain n c2 where
            "record_failure (st_redis St) ?e (clock w) c1 = (Inr n, c2)" by blast
          then have "cache_op (record_failure (st_redis St) ?e) ?w2 = (Inr n, ?w2\<lparr>cache := c2\<rparr>)"
            by (intro cache_op_run) simp
          with v l f \<open>\<not> 10 \<le> _\<close> Some Inr False show ?thesis
            by (simp add: login_spec_def login_def bindE_def domain_op_def mapErrE_def)
        next
          case True
          obtain c2 where c2: "clear_failures (st_redis St) ?e (clock w) c1 = (Inr (), c2)" "up c2"
            using clear_failures_up [OF l(2)] by blast
          then have clr: "cache_op (clear_failures (st_redis St) ?e) ?w2 = (Inr (), ?w2\<lparr>cache := c2\<rparr>)"
            by (intro cache_op_run) simp
          have "well_typed (st_uuid St) (\<alpha> c2)"
            using svc_typed [OF inv] clear_failures_ok [OF c2(1)] l(3) by (simp add: well_typed_def)
          then have "\<exists>a r w'. issue_tokens St (user_id user) (user_email user) (?w2\<lparr>cache := c2\<rparr>)
              = (Inr (respond 200 (Login_Response a r)), w') \<and> up (cache w') \<and> calm (gen w')"
            using c2(2) f(2) by (intro issue_tokens_up) simp_all
          then obtain a r w' where "issue_tokens St (user_id user) (user_email user) (?w2\<lparr>cache := c2\<rparr>)
              = (Inr (respond 200 (Login_Response a r)), w')" by blast
          with v l f \<open>\<not> 10 \<le> _\<close> Some Inr True clr show ?thesis
            by (auto simp: login_spec_def login_def bindE_def domain_op_def mapErrE_def)
        qed
      qed
    qed
  qed
qed

lemma refresh_outcome_kept:
  assumes inv: "svc_inv St \<alpha> drawn N w" and "up (cache w)" and "calm (gen w)"
  shows "case refresh_spec St \<alpha> b w of
      Inl e \<Rightarrow> \<exists>w'. refresh St b w = (Inl e, w')
    | Inr c \<Rightarrow> \<exists>a r w'. refresh St b w = (Inr (respond 200 (Login_Response a r)), w')
        \<and> up (cache w') \<and> calm (gen w')"
proof (cases "refresh_validate b")
  case (Inl e)
  then show ?thesis by (simp add: refresh_spec_def refresh_def bindE_def)
next
  case (Inr v)
  then have v: "refresh_validate b = Inr ()" by simp
  show ?thesis
  proof (cases "verify_refresh (st_jwt_crate St) (st_jwt St) (refresh_token b) (clock w)")
    case (Inl e)
    with v show ?thesis by (simp add: refresh_spec_def refresh_def bindE_def now_def mapErrE_def)
  next
    case (Inr c)
    note wt = svc_typed [OF inv]
    obtain x k where r: "revoke_refresh_token (st_redis St) (st_uuid St) (c_jti c) (clock w) (cache w) = (Inr x, k)"
        "up k" using revoke_up [OF assms(2) wt] by blast
    then have op: "cache_op (revoke_refresh_token (st_redis St) (st_uuid St) (c_jti c)) w = (Inr x, w\<lparr>cache := k\<rparr>)"
      by (intro cache_op_run)
    have x: "x = session_of (st_uuid St) (clock w) (\<alpha> (cache w)) (c_jti c)" by (rule revoke_ok(1) [OF wt r(1)])
    show ?thesis
    proof (cases x)
      case None
      with v Inr op x show ?thesis by (simp add: refresh_spec_def refresh_def bindE_def now_def mapErrE_def)
    next
      case (Some u)
      have "index_inv (st_uuid St) session_secs (set (drawn (gen w)) - N) (clock w) (\<alpha> k)"
        using stepsD [OF revoke_index_keeps r(1)] inv by (auto simp: svc_inv_def cache_inv_def)
      then have "well_typed (st_uuid St) (\<alpha> k)" by (simp add: index_inv_def)
      then have "\<exists>a r w'. issue_tokens St (c_sub c) (c_email c) (w\<lparr>cache := k\<rparr>)
          = (Inr (respond 200 (Login_Response a r)), w') \<and> up (cache w') \<and> calm (gen w')"
        using r(2) assms(3) by (intro issue_tokens_up) simp_all
      moreover have "session_of (st_uuid St) (clock w) (\<alpha> (cache w)) (c_jti c) = Some u" using x Some by simp
      ultimately show ?thesis using v Inr op Some
        by (auto simp: refresh_spec_def refresh_def bindE_def now_def mapErrE_def)
    qed
  qed
qed

lemma refresh_outcome_up:
  assumes "svc_inv St \<alpha> drawn N w" and "up (cache w)" and "calm (gen w)"
  shows "case refresh_spec St \<alpha> b w of
      Inl e \<Rightarrow> \<exists>w'. refresh St b w = (Inl e, w')
    | Inr c \<Rightarrow> \<exists>a r w'. refresh St b w = (Inr (respond 200 (Login_Response a r)), w')"
  using refresh_outcome_kept [OF assms, of b] by (cases "refresh_spec St \<alpha> b w") auto

text \<open>A wrong password counts once; ten of them lock the address.\<close>

lemma login_wrong_password:
  assumes ok: "counters_ok (\<alpha> (cache w))" and "up (cache w)" and "calm (gen w)"
    and wrong: "wrong_password St (db w) e b" and below: "lockout_failures (clock w) (\<alpha> (cache w)) e < 10"
  obtains c g where "login St b w = (Inl Unauthorized, w\<lparr>cache := c, gen := g\<rparr>)"
    and "up c" and "calm g" and "counters_ok (\<alpha> c)"
    and "\<And>t. lockout_failures t (\<alpha> c) = (lockout_failures t (\<alpha> (cache w)))
      (e := if t < clock w + secs 900 then lockout_failures (clock w) (\<alpha> (cache w)) e + 1 else 0)"
proof -
  from wrong obtain user where v: "login_validate b = Inr ()" "login_email b = e"
    and u: "user_with_email (db w) e = Some user"
    and ver: "verify_hash (st_argon2_crate St) (st_passwords St) (login_password b) (password_hash user) = Inr False"
    by (auto simp: wrong_password_def)
  obtain c1 where l: "cache_op (is_locked (st_redis St) e) w
      = (Inr (10 \<le> lockout_failures (clock w) (\<alpha> (cache w)) e), w\<lparr>cache := c1\<rparr>)" "up c1" "\<alpha> c1 = \<alpha> (cache w)"
    using is_locked_step [OF assms(2) ok] by blast
  obtain g where f: "db_op (\<lambda>_. find_by_email (st_env St) e) (w\<lparr>cache := c1\<rparr>)
      = (Inr (Some user), w\<lparr>cache := c1, gen := g\<rparr>)" "calm g"
    using find_by_email_up [of "w\<lparr>cache := c1\<rparr>" e] assms(3) u by auto
  have ok1: "counters_ok (\<alpha> c1)" "lockout_failures (clock w) (\<alpha> c1) e < 10" using ok below l(3) by simp_all
  obtain n c2 where r: "record_failure (st_redis St) e (clock w) c1 = (Inr n, c2)" "up c2"
    using record_failure_up [OF l(2) ok1] by blast
  have "cache_op (record_failure (st_redis St) e) (w\<lparr>cache := c1, gen := g\<rparr>)
      = (Inr n, w\<lparr>cache := c1, gen := g, cache := c2\<rparr>)"
    using r by (intro cache_op_run) simp
  then have run: "login St b w = (Inl Unauthorized, w\<lparr>cache := c2, gen := g\<rparr>)"
    using v l f ver below by (simp add: login_def bindE_def domain_op_def mapErrE_def)
  note ro = record_failure_ok [OF ok1 r(1)]
  show thesis
  proof (rule that [OF run r(2) f(2)])
    have "0 \<le> lockout_failures (clock w) (\<alpha> c1) e" using ok1(1) by (rule lockout_failures_bounds)
    then show "counters_ok (\<alpha> c2)" using ok1 by (simp add: ro(1) counters_ok_set)
    show "lockout_failures t (\<alpha> c2) = (lockout_failures t (\<alpha> (cache w)))
      (e := if t < clock w + secs 900 then lockout_failures (clock w) (\<alpha> (cache w)) e + 1 else 0)" for t
      by (simp add: ro(1) lockout_failures_upd l(3) LOCKOUT_WINDOW_SECS_def)
  qed
qed

lemma attempts_count:
  assumes "counters_ok (\<alpha> (cache w))" and "up (cache w)" and "calm (gen w)"
    and "\<forall>b \<in> set bs. wrong_password St (db w) e b"
    and "lockout_failures (clock w) (\<alpha> (cache w)) e + int (length bs) \<le> 10"
  shows "\<exists>w'. attempts St bs w = (replicate (length bs) (Inl Unauthorized), w')
    \<and> counters_ok (\<alpha> (cache w')) \<and> up (cache w') \<and> calm (gen w') \<and> db w' = db w \<and> clock w' = clock w
    \<and> (bs \<noteq> [] \<longrightarrow> (\<forall>t. lockout_failures t (\<alpha> (cache w')) e
         = (if t < clock w + secs 900
            then lockout_failures (clock w) (\<alpha> (cache w)) e + int (length bs) else 0)))"
  using assms
proof (induction bs arbitrary: w)
  case Nil
  then show ?case by simp
next
  case (Cons b bs)
  have "wrong_password St (db w) e b" "lockout_failures (clock w) (\<alpha> (cache w)) e < 10"
    using Cons.prems(4,5) by simp_all
  from login_wrong_password [OF Cons.prems(1-3) this] obtain c g where
    run: "login St b w = (Inl Unauthorized, w\<lparr>cache := c, gen := g\<rparr>)"
    and c: "up c" "calm g" "counters_ok (\<alpha> c)"
    and f: "\<And>t. lockout_failures t (\<alpha> c) = (lockout_failures t (\<alpha> (cache w)))
      (e := if t < clock w + secs 900 then lockout_failures (clock w) (\<alpha> (cache w)) e + 1 else 0)"
    by blast
  let ?w1 = "w\<lparr>cache := c, gen := g\<rparr>"
  have now: "lockout_failures (clock w) (\<alpha> c) e = lockout_failures (clock w) (\<alpha> (cache w)) e + 1"
    using f by simp
  have "\<exists>w'. attempts St bs ?w1 = (replicate (length bs) (Inl Unauthorized), w')
    \<and> counters_ok (\<alpha> (cache w')) \<and> up (cache w') \<and> calm (gen w') \<and> db w' = db ?w1 \<and> clock w' = clock ?w1
    \<and> (bs \<noteq> [] \<longrightarrow> (\<forall>t. lockout_failures t (\<alpha> (cache w')) e
         = (if t < clock ?w1 + secs 900
            then lockout_failures (clock ?w1) (\<alpha> (cache ?w1)) e + int (length bs) else 0)))"
    by (rule Cons.IH) (use c Cons.prems(4,5) now in simp_all)
  then obtain w' where w': "attempts St bs ?w1 = (replicate (length bs) (Inl Unauthorized), w')"
    "counters_ok (\<alpha> (cache w'))" "up (cache w')" "calm (gen w')" "db w' = db w" "clock w' = clock w"
    "bs \<noteq> [] \<longrightarrow> (\<forall>t. lockout_failures t (\<alpha> (cache w')) e = (if t < clock w + secs 900
            then lockout_failures (clock w) (\<alpha> c) e + int (length bs) else 0))" by auto
  have "lockout_failures t (\<alpha> (cache w')) e = (if t < clock w + secs 900
            then lockout_failures (clock w) (\<alpha> (cache w)) e + int (length (b # bs)) else 0)" for t
    using w'(1,7) f now by (cases "bs = []") auto
  with w' run show ?case by simp
qed

end

end
