(* ===== verification/Redis_Reference.thy ===== *)
theory Redis_Reference
  imports Redis
begin

text \<open>
  A server that satisfies \<open>redis_service\<close>: the keyspace itself, with a schedule of outages. Each
  call takes the next entry of the schedule; a call may be dropped before it reaches the server, or
  run with its reply lost, and a pipeline may be cut after some of its commands. An empty schedule is
  a period without an outage. It shows that the hypotheses about the cache can hold, with and without
  failures, and the witnesses evaluate on it.
\<close>

datatype outage = Served | Dropped | Reply_Lost | Cut nat

type_synonym sim_redis = "keyspace \<times> outage list"

definition connection_lost :: redis_error where
  "connection_lost = Redis_Error ''connection lost''"

definition sim_next :: "sim_redis \<Rightarrow> outage \<times> sim_redis" where
  "sim_next r = (case snd r of [] \<Rightarrow> (Served, r) | x # xs \<Rightarrow> (x, (fst r, xs)))"

definition sim_connect :: "(sim_redis, redis_error, unit) io" where
  "sim_connect r = (case sim_next r of
       (Served, r') \<Rightarrow> (Inr (), r')
     | (_, r') \<Rightarrow> (Inl connection_lost, r'))"

definition sim_exec :: "redis_cmd \<Rightarrow> instant \<Rightarrow> (sim_redis, redis_error, reply) io" where
  "sim_exec c t r = (case sim_next r of
       (Served, (ks, xs)) \<Rightarrow> (fst (ks_exec c t ks), (snd (ks_exec c t ks), xs))
     | (Reply_Lost, (ks, xs)) \<Rightarrow> (Inl connection_lost, (snd (ks_exec c t ks), xs))
     | (_, r') \<Rightarrow> (Inl connection_lost, r'))"

definition sim_pipe :: "redis_cmd list \<Rightarrow> instant \<Rightarrow> (sim_redis, redis_error, unit) io" where
  "sim_pipe cs t r = (case sim_next r of
       (Served, (ks, xs)) \<Rightarrow>
         ((if ks_all_ok cs t ks then Inr () else Inl wrong_type), (ks_run cs t ks, xs))
     | (Reply_Lost, (ks, xs)) \<Rightarrow> (Inl connection_lost, (ks_run cs t ks, xs))
     | (Cut n, (ks, xs)) \<Rightarrow> (Inl connection_lost, (ks_run (take n cs) t ks, xs))
     | (Dropped, r') \<Rightarrow> (Inl connection_lost, r'))"

definition conversion_error :: redis_error where
  "conversion_error = Redis_Error ''response type not convertible''"

fun sim_to_u32 :: "reply \<Rightarrow> redis_error + u32" where
  "sim_to_u32 (Num n) = Inr (of_int n)"
| "sim_to_u32 _ = Inl conversion_error"

fun sim_to_u64 :: "reply \<Rightarrow> redis_error + u64" where
  "sim_to_u64 (Num n) = Inr (of_int n)"
| "sim_to_u64 _ = Inl conversion_error"

fun sim_to_opt_u32 :: "reply \<Rightarrow> redis_error + u32 option" where
  "sim_to_opt_u32 Nil_Reply = Inr None"
| "sim_to_opt_u32 (Bulk_Num n) =
     (if 0 \<le> n \<and> n < 2 ^ 32 then Inr (Some (of_int n)) else Inl conversion_error)"
| "sim_to_opt_u32 _ = Inl conversion_error"

fun sim_to_opt_string :: "reply \<Rightarrow> redis_error + string option" where
  "sim_to_opt_string Nil_Reply = Inr None"
| "sim_to_opt_string (Bulk s) = Inr (Some s)"
| "sim_to_opt_string _ = Inl conversion_error"

fun sim_to_strings :: "reply \<Rightarrow> redis_error + string list" where
  "sim_to_strings (Arr xs) = Inr xs"
| "sim_to_strings _ = Inl conversion_error"

fun sim_to_bool :: "reply \<Rightarrow> redis_error + bool" where
  "sim_to_bool (Num n) = Inr (n \<noteq> 0)"
| "sim_to_bool _ = Inl conversion_error"

definition sim_api :: "sim_redis redis_api" where
  "sim_api = \<lparr>rd_connect = sim_connect, rd_exec = sim_exec, rd_pipe = sim_pipe,
     to_u32 = sim_to_u32, to_u64 = sim_to_u64, to_opt_u32 = sim_to_opt_u32,
     to_opt_string = sim_to_opt_string, to_strings = sim_to_strings,
     to_bool = sim_to_bool\<rparr>"

lemma sim_api_simps [simp]:
  "rd_connect sim_api = sim_connect" "rd_exec sim_api = sim_exec" "rd_pipe sim_api = sim_pipe"
  "to_u32 sim_api = sim_to_u32" "to_u64 sim_api = sim_to_u64" "to_opt_u32 sim_api = sim_to_opt_u32"
  "to_opt_string sim_api = sim_to_opt_string" "to_strings sim_api = sim_to_strings"
  "to_bool sim_api = sim_to_bool"
  by (simp_all add: sim_api_def)

lemma sim_next_cases:
  obtains xs where "sim_next r = (Served, (fst r, xs))"
  | xs where "sim_next r = (Dropped, (fst r, xs))"
  | xs where "sim_next r = (Reply_Lost, (fst r, xs))"
  | n xs where "sim_next r = (Cut n, (fst r, xs))"
proof -
  obtain x r' where eq: "sim_next r = (x, r')" by (cases "sim_next r")
  then have "r' = (fst r, snd r')" by (auto simp: sim_next_def prod_eq_iff split: list.splits)
  with eq that show ?thesis by (cases x) metis+
qed

lemma sim_connect_state: "sim_connect r = (x, r') \<Longrightarrow> fst r' = fst r"
  by (cases r rule: sim_next_cases) (auto simp: sim_connect_def)

lemma sim_exec_ok: "sim_exec c t r = (Inr rep, r') \<Longrightarrow> ks_exec c t (fst r) = (Inr rep, fst r')"
  by (cases r rule: sim_next_cases) (auto simp: sim_exec_def prod_eq_iff)

lemma sim_exec_err:
  "sim_exec c t r = (Inl e, r') \<Longrightarrow> fst r' = fst r \<or> fst r' = snd (ks_exec c t (fst r))"
  by (cases r rule: sim_next_cases) (auto simp: sim_exec_def)

lemma sim_pipe_ok:
  "sim_pipe cs t r = (Inr u, r') \<Longrightarrow> ks_all_ok cs t (fst r) \<and> fst r' = ks_run cs t (fst r)"
  by (cases r rule: sim_next_cases) (auto simp: sim_pipe_def split: if_splits)

lemma sim_pipe_err: "sim_pipe cs t r = (Inl e, r') \<Longrightarrow> \<exists>n. fst r' = ks_run (take n cs) t (fst r)"
proof (cases r rule: sim_next_cases)
  case (1 xs)
  moreover assume "sim_pipe cs t r = (Inl e, r')"
  ultimately have "fst r' = ks_run (take (length cs) cs) t (fst r)"
    by (auto simp: sim_pipe_def split: if_splits)
  then show ?thesis ..
next
  case (2 xs)
  moreover assume "sim_pipe cs t r = (Inl e, r')"
  ultimately have "fst r' = ks_run (take 0 cs) t (fst r)" by (auto simp: sim_pipe_def)
  then show ?thesis ..
next
  case (3 xs)
  moreover assume "sim_pipe cs t r = (Inl e, r')"
  ultimately have "fst r' = ks_run (take (length cs) cs) t (fst r)" by (auto simp: sim_pipe_def)
  then show ?thesis ..
next
  case (4 n xs)
  moreover assume "sim_pipe cs t r = (Inl e, r')"
  ultimately have "fst r' = ks_run (take n cs) t (fst r)" by (auto simp: sim_pipe_def)
  then show ?thesis ..
qed

interpretation sim: redis_service sim_api fst
proof unfold_locales
  fix c t r rep r' assume "rd_exec sim_api c t r = (Inr rep, r')"
  then have "ks_exec c t (fst r) = (Inr rep, fst r')" by (simp add: sim_exec_ok)
  then show "\<exists>rep'. ks_exec c t (fst r) = (Inr rep', fst r') \<and> same_reply rep rep'" by auto
qed (simp_all add: sim_connect_state sim_exec_err sim_pipe_ok sim_pipe_err)

interpretation sim_up: redis_available sim_api fst "\<lambda>r. snd r = []"
  by unfold_locales (auto simp: sim_connect_def sim_exec_def sim_pipe_def sim_next_def)

end
