(* ===== verification/Jwt_Reference.thy ===== *)
theory Jwt_Reference
  imports Jwt
begin

text \<open>
  A signing library that satisfies \<open>jwt_library\<close> and \<open>strict_jwt_library\<close>: a token is the text of the
  claims followed by the key and a seal of fixed length, and a key matches itself. It carries no secrecy,
  which the locales do not speak of; it shows that the hypotheses can hold, and the witnesses evaluate on
  it. The leeway is 60 seconds, the default of the crate.
\<close>

definition int_text :: "int \<Rightarrow> string" where
  "int_text n = (if n < 0 then CHR ''-'' # nat_bits (nat (- n)) else nat_bits (nat n))"

fun text_int :: "string \<Rightarrow> int option" where
  "text_int s = (case s of
       [] \<Rightarrow> Some 0
     | c # cs \<Rightarrow> if c = CHR ''-'' then map_option (\<lambda>n. - int n) (bits_nat cs)
                else map_option int (bits_nat s))"

lemma set_nat_bits: "set (nat_bits n) \<subseteq> {CHR ''0'', CHR ''1''}"
proof (induction n rule: nat_bits.induct)
  case (1 n)
  show ?case
  proof (cases "n = 0")
    case True
    then show ?thesis by (simp add: nat_bits.simps)
  next
    case False
    with 1 show ?thesis by (subst nat_bits.simps) auto
  qed
qed

lemma text_int_text [simp]: "text_int (int_text n) = Some n"
proof (cases "n < 0")
  case True
  then show ?thesis by (simp add: int_text_def)
next
  case False
  show ?thesis
  proof (cases "nat_bits (nat n)")
    case Nil
    then have "bits_nat [] = Some (nat n)" by (metis bits_nat_bits)
    with False Nil show ?thesis by (simp add: int_text_def)
  next
    case (Cons c cs)
    then have "c \<noteq> CHR ''-''" using set_nat_bits [of "nat n"] by auto
    with False Cons show ?thesis by (simp add: int_text_def del: bits_nat.simps) (metis bits_nat_bits Cons int_nat_eq not_less)
  qed
qed

text \<open>Fields end with a semicolon.\<close>

definition field :: "string \<Rightarrow> string \<times> string" where
  "field s = (takeWhile (\<lambda>c. c \<noteq> CHR '';'') s, tl (dropWhile (\<lambda>c. c \<noteq> CHR '';'') s))"

lemma field_append: "CHR '';'' \<notin> set f \<Longrightarrow> field (f @ CHR '';'' # s) = (f, s)"
  unfolding field_def by (induction f) auto

lemma no_semicolon [simp]: "CHR '';'' \<notin> set (nat_bits n)"
  using set_nat_bits [of n] by auto

lemma no_semicolon_int [simp]: "CHR '';'' \<notin> set (int_text i)"
  by (simp add: int_text_def)

definition kind_text :: "token_kind \<Rightarrow> string" where
  "kind_text k = (case k of Access \<Rightarrow> ''access'' | Refresh \<Rightarrow> ''refresh'')"

text \<open>As long as a signature in base64url is.\<close>

definition seal :: string where
  "seal = replicate 86 CHR ''.''"

lemma length_seal [simp]: "length seal = 86"
  by (simp add: seal_def)

lemma seal_snoc: "\<exists>x. seal = x @ ''.''"
proof
  show "seal = replicate 85 CHR ''.'' @ ''.''"
    unfolding seal_def by (subst replicate_append_same) (simp flip: replicate_Suc)
qed

definition claims_text :: "claims \<Rightarrow> string \<Rightarrow> string" where
  "claims_text c key = nat_bits (unat (c_sub c)) @ CHR '';'' # int_text (c_iat c) @ CHR '';'' #
     int_text (c_exp c) @ CHR '';'' # nat_bits (unat (c_jti c)) @ CHR '';'' #
     kind_text (c_kind c) @ CHR '';'' # nat_bits (length (c_email c)) @ CHR '';'' # c_email c @ key @ seal"

definition text_claims :: "string \<Rightarrow> (claims \<times> string) option" where
  "text_claims s =
     (let (sub, s1) = field s; (iat, s2) = field s1; (ex, s3) = field s2; (jti, s4) = field s3;
          (k, s5) = field s4; (n, s6) = field s5
      in case (bits_nat sub, text_int iat, text_int ex, bits_nat jti, bits_nat n) of
           (Some sub, Some iat, Some ex, Some jti, Some n) \<Rightarrow>
             (if k = kind_text Access \<or> k = kind_text Refresh
              then Some (\<lparr>c_sub = of_nat sub, c_email = take n s6, c_iat = iat, c_exp = ex,
                          c_jti = of_nat jti, c_kind = (if k = kind_text Access then Access else Refresh)\<rparr>,
                         take (length s6 - n - 86) (drop n s6))
              else None)
         | _ \<Rightarrow> None)"

lemma text_claims_text: "text_claims (claims_text c key) = Some (c, key)"
proof -
  have "CHR '';'' \<notin> set (kind_text (c_kind c))" by (simp add: kind_text_def split: token_kind.split)
  moreover have "kind_text (c_kind c) = kind_text Access \<or> kind_text (c_kind c) = kind_text Refresh"
    by (cases "c_kind c") simp_all
  moreover have "(if kind_text (c_kind c) = kind_text Access then Access else Refresh) = c_kind c"
    by (cases "c_kind c") (simp_all add: kind_text_def)
  ultimately show ?thesis
    by (simp add: text_claims_def claims_text_def Let_def field_append del: text_int.simps)
qed

lemma claims_text_not_empty [simp]: "claims_text c key \<noteq> []"
  by (simp add: claims_text_def)

definition ref_validation :: "algorithm \<Rightarrow> validation" where
  "ref_validation a = \<lparr>v_algorithm = a, v_validate_exp = True, v_leeway = 60\<rparr>"

definition ref_encode :: "algorithm \<Rightarrow> claims \<Rightarrow> string \<Rightarrow> jwt_error + string" where
  "ref_encode a c key = (if a = EdDSA then Inr (claims_text c key) else Inl (Jwt_Error ''InvalidAlgorithm''))"

definition ref_decode :: "string \<Rightarrow> string \<Rightarrow> validation \<Rightarrow> int \<Rightarrow> jwt_error + claims" where
  "ref_decode token key v now = (case text_claims token of
       None \<Rightarrow> Inl (Jwt_Error ''InvalidToken'')
     | Some (c, k) \<Rightarrow>
         if k \<noteq> key \<or> v_algorithm v \<noteq> EdDSA \<or> claims_text c k \<noteq> token then Inl (Jwt_Error ''InvalidSignature'')
         else if v_validate_exp v \<and> c_exp c < now - v_leeway v then Inl Expired_Signature
         else Inr c)"

definition ref_jwt :: jwt_lib where
  "ref_jwt = \<lparr>encoding_key_from_ed_pem = Inr, decoding_key_from_ed_pem = Inr,
     validation_new = ref_validation, jwt_encode = ref_encode, jwt_decode = ref_decode\<rparr>"

lemma ref_jwt_simps [simp]:
  "encoding_key_from_ed_pem ref_jwt = Inr" "decoding_key_from_ed_pem ref_jwt = Inr"
  "validation_new ref_jwt = ref_validation" "jwt_encode ref_jwt = ref_encode"
  "jwt_decode ref_jwt = ref_decode"
  by (simp_all add: ref_jwt_def)

lemma length_claims_text: "86 < length (claims_text c key)"
  by (simp add: claims_text_def)

lemma claims_text_last: "claims_text c key = butlast (claims_text c key) @ ''.''"
proof -
  have "seal \<noteq> []" "last seal = CHR ''.''" using seal_snoc by (auto, metis last_snoc)
  then have "last (claims_text c key) = CHR ''.''" by (simp add: claims_text_def last_append)
  then show ?thesis by (metis append_butlast_last_id claims_text_not_empty)
qed

interpretation ref_jwt: strict_jwt_library ref_jwt "(=)"
proof -
  have "jwt_library ref_jwt (=)"
    by unfold_locales
      (auto simp: ref_validation_def ref_encode_def ref_decode_def text_claims_text
        split: option.splits if_splits)
  moreover have "strict_jwt_library_axioms ref_jwt (=)"
  proof
    show "jwt_encode ref_jwt a c ek = Inr token"
      if "ek = dk" "jwt_decode ref_jwt token dk v now = Inr c" "v_algorithm v = a" for ek dk token v now c a
      using that by (auto simp: ref_decode_def ref_encode_def split: option.splits if_splits)
  qed (auto simp: ref_encode_def length_claims_text split: if_splits, metis claims_text_last)
  ultimately show "strict_jwt_library ref_jwt (=)" by (rule strict_jwt_library.intro)
qed

end
