(* ===== verification/Reference_Service.thy ===== *)
theory Reference_Service
  imports Handler_Outcome Redis_Reference Jwt_Reference
begin

text \<open>
  A concrete service on the reference libraries: it shows that the hypotheses of the theorems can
  hold together, and the witnesses run requests on it. Its generator is a counter with the log of the
  UUIDs drawn and a schedule of database outcomes; the bodies of its requests are texts whose fields
  end with a semicolon.
\<close>

type_synonym ref_gen = "nat \<times> uuid list \<times> pg_outcome list"

definition ref_env :: "ref_gen env_lib" where
  "ref_env = \<lparr>pg_next = (\<lambda>(n, l, os). case os of [] \<Rightarrow> (Pg_Served, (n, l, [])) | x # xs \<Rightarrow> (x, (n, l, xs))),
     pg_uuid = (\<lambda>(n, l, os). (of_nat n, (n + 1, l, os))),
     new_v4 = (\<lambda>(n, l, os). (of_nat n, (n + 1, of_nat n # l, os))),
     new_salt = (\<lambda>g. (''salt'', g)),
     fill_bytes = (\<lambda>k (n, l, os). (nat_bits n, (n + 1, l, os))),
     http_post = (\<lambda>_ _ _ g. (Inr \<lparr>http_status = 200, http_text = None\<rparr>, g))\<rparr>"

definition ref_digest :: digest_lib where
  "ref_digest = \<lparr>sha256 = (\<lambda>s. CHR ''#'' # s), hex_encode = (\<lambda>s. s)\<rparr>"

definition ref_manager :: jwt_manager where
  "ref_manager = \<lparr>encoding_key = ''key'', decoding_key = ''key'',
     access_ttl = secs (15 * 60), refresh_ttl = secs (7 * 24 * 3600)\<rparr>"

definition ref_passwords :: password_service where
  "ref_passwords = \<lparr>argon2 = \<lparr>a_variant = Argon2id, a_version = 19,
     a_params = \<lparr>m_cost = 64 * 1024, t_cost = 3, p_cost = 4\<rparr>\<rparr>\<rparr>"

lemma ref_services:
  "from_ed25519_pem ref_jwt ''key'' ''key'' = Inr ref_manager"
  "password_service_new ref_argon2 = Some ref_passwords"
  by (simp_all add: from_ed25519_pem_def ref_manager_def password_service_new_def
      password_service_with_def ref_argon2_def ref_passwords_def)

definition ref_state :: "(sim_redis, ref_gen) app_state" where
  "ref_state = \<lparr>st_redis = sim_api, st_uuid = bits_uuid, st_env = ref_env, st_digest = ref_digest,
     st_to_str = Some, st_jwt_crate = ref_jwt, st_argon2_crate = ref_argon2, st_jwt = ref_manager,
     st_passwords = ref_passwords, st_email = Capture, st_app_base_url = ''https://app''\<rparr>"

definition ref_axum :: axum_lib where
  "ref_axum = \<lparr>missing_connect_info = ''missing extension'',
     json_register = (\<lambda>s. Inr \<lparr>reg_email = fst (field s), reg_password = snd (field s)\<rparr>),
     json_login = (\<lambda>s. Inr \<lparr>login_email = fst (field s), login_password = snd (field s)\<rparr>),
     json_refresh = (\<lambda>s. Inr \<lparr>refresh_token = s\<rparr>),
     json_logout = (\<lambda>s. Inr \<lparr>logout_token = s\<rparr>),
     json_change_password = (\<lambda>s. Inr \<lparr>current_password = fst (field s), new_password = snd (field s)\<rparr>),
     json_reset_request = (\<lambda>s. Inr \<lparr>rr_email = s\<rparr>),
     json_reset_confirm = (\<lambda>s. Inr \<lparr>rc_token = fst (field s), rc_new_password = snd (field s)\<rparr>)\<rparr>"

definition ref_world :: "(sim_redis, ref_gen) world" where
  "ref_world = \<lparr>clock = 0, db = empty_db, cache = (Map.empty, []), gen = (1, [], []), sent = []\<rparr>"

definition ref_drawn :: "ref_gen \<Rightarrow> uuid list" where
  "ref_drawn g = fst (snd g)"

lemma ref_state_simps [simp]:
  "st_redis ref_state = sim_api" "st_uuid ref_state = bits_uuid" "st_env ref_state = ref_env"
  "st_jwt_crate ref_state = ref_jwt" "st_argon2_crate ref_state = ref_argon2"
  "st_jwt ref_state = ref_manager" "st_passwords ref_state = ref_passwords"
  by (simp_all add: ref_state_def)

interpretation ref_cache: session_cache sim_api fst bits_uuid
  by unfold_locales

lemma ref_redis: "redis_service (st_redis ref_state) fst"
  by (simp add: ref_state_def sim.redis_service_axioms)

interpretation ref_log: draw_log ref_env ref_drawn
  by unfold_locales (auto simp: ref_env_def ref_drawn_def split: prod.splits list.splits)

interpretation ref: auth_service ref_state fst "(=)" ref_drawn
  by (simp add: auth_service_def auth_service_axioms_def ref_cache.session_cache_axioms
      ref_jwt.jwt_library_axioms ref_log.draw_log_axioms ref_manager_def session_secs_def)

text \<open>While no outage is scheduled, the reference service is available.\<close>

interpretation ref_up: available_service ref_state fst "(=)" ref_drawn "\<lambda>r. snd r = []"
  "\<lambda>g. snd (snd g) = []"
proof -
  have "available_service_axioms ref_state (\<lambda>g. snd (snd g) = [])"
    by unfold_locales (auto simp: ref_env_def ref_encode_def split: prod.splits list.splits)
  moreover have "available_cache sim_api fst bits_uuid (\<lambda>r. snd r = [])"
    by (simp add: available_cache_def ref_cache.session_cache_axioms sim_up.redis_available_axioms)
  ultimately show "available_service ref_state fst (=) ref_drawn (\<lambda>r. snd r = []) (\<lambda>g. snd (snd g) = [])"
    by (simp add: available_service_def ref.auth_service_axioms)
qed

text \<open>Runs on the reference service.\<close>

definition ref_request :: "http_method \<Rightarrow> string \<Rightarrow> string option \<Rightarrow> string \<Rightarrow> request" where
  "ref_request m path auth b = \<lparr>rq_method = m, rq_path = path, rq_peer = Some ''10.0.0.1'',
     rq_authorization = auth, rq_body = b\<rparr>"

definition ref_post :: "string \<Rightarrow> string \<Rightarrow> request" where
  "ref_post path b = ref_request Post path None b"

section \<open>Evaluation\<close>

text \<open>
  A call is evaluated from the inside: the first computation of a \<open>bindE\<close> before its continuation is
  touched (\<open>eval_cong\<close>). Keys of the cache, texts of UUIDs and tokens stay folded; their injectivity
  and round trips are simplification rules.
\<close>

lemmas eval_monad = bindE_eval mapErrE_def attemptE_def Let_def on_cache_def on_db_def on_gen_def
  on_mail_def now_def domain_op_def cache_op_def db_op_def gen_op_def drawE_def finish_def

lemmas eval_library = ref_env_def ref_digest_def ref_manager_def ref_passwords_def ref_argon2_def
  ref_encode_def ref_decode_def ref_validation_def text_claims_text secs_def timestamp_def
  sim_connect_def sim_exec_def sim_pipe_def sim_next_def lookup_def rd_query_def

lemmas eval_stores = store_cmds_def store_refresh_token_def revoke_refresh_token_def drop_from_index_def
  revoke_all_sessions_def revoke_cmds_def is_locked_def record_failure_def clear_failures_def
  LOCKOUT_MAX_def LOCKOUT_WINDOW_SECS_def check_rate_limit_def RATE_LIMIT_MAX_def RATE_LIMIT_WINDOW_SECS_def
  create_user_def find_by_email_def find_by_id_def update_password_def delete_by_id_def
  create_reset_token_def consume_reset_token_def pg_run_def pg_run_with_id_def insert_user_def
  select_user_def update_user_password_def delete_user_def insert_reset_row_def consume_reset_row_def
  consumable_def sql_update_def sql_delete_def

lemmas eval_services = hash_of_def verify_hash_def sign_access_token_def sign_refresh_token_def
  sign_with_claims_def verify_access_def verify_refresh_def decode_and_check_def send_password_reset_def
  session_secs_def auth_user_def

lemmas eval_requests = register_validate_def login_validate_def refresh_validate_def logout_validate_def
  change_password_validate_def reset_request_validate_def reset_confirm_validate_def thenR_def
  validate_email_def validate_password_def rfind_char_def starts_with_def

lemmas eval_handlers = register_def login_def issue_tokens_def refresh_def me_def change_password_def
  delete_me_def health_def logout_all_def logout_def token_digest_def generate_reset_token_def
  reset_link_def password_reset_request_def password_reset_confirm_def

lemmas eval_server = serve_def dispatch_def build_router_def route_def get_def post_def with_peer_def
  with_json_def with_auth_def ref_post_def ref_request_def ref_axum_def field_def

lemmas eval = eval_monad eval_library eval_stores eval_services eval_requests eval_handlers eval_server

section \<open>A registered user, and a session of that user\<close>

definition ref_user :: user where
  "ref_user = \<lparr>user_id = 1, user_email = ''a@b.c'', password_hash = ''salt$password1'',
     created_at = 0, updated_at = 0\<rparr>"

definition ref_registered :: "(sim_redis, ref_gen) world" where
  "ref_registered = \<lparr>clock = 0, db = \<lparr>users = [ref_user], reset_rows = []\<rparr>, cache = (Map.empty, []),
     gen = (2, [], []), sent = []\<rparr>"

definition ref_access :: string where
  "ref_access = claims_text \<lparr>c_sub = 1, c_email = ''a@b.c'', c_iat = 0, c_exp = 900, c_jti = 2,
     c_kind = Access\<rparr> ''key''"

definition ref_refresh_claims :: claims where
  "ref_refresh_claims = \<lparr>c_sub = 1, c_email = ''a@b.c'', c_iat = 0, c_exp = 604800, c_jti = 3,
     c_kind = Refresh\<rparr>"

definition ref_refresh :: string where
  "ref_refresh = claims_text ref_refresh_claims ''key''"

definition ref_session :: "(sim_redis, ref_gen) world" where
  "ref_session = ref_registered\<lparr>cache :=
     ([refresh_key bits_uuid 3 \<mapsto> (RStr (uuid_show bits_uuid 1), Some 604800000000),
       sessions_key bits_uuid 1 \<mapsto> (RSet [uuid_show bits_uuid 3], Some 604800000000)], []),
     gen := (4, [3, 2], [])\<rparr>"

lemmas ref_worlds = ref_world_def ref_registered_def ref_session_def ref_user_def empty_db_def
  ref_access_def ref_refresh_def ref_refresh_claims_def

lemma ref_register:
  "serve build_router ref_state ref_axum (ref_post ''/register'' ''a@b.c;password1'') ref_world
    = Some (respond 201 (Register_Response 1 ''a@b.c''), ref_registered)"
  by (simp add: eval ref_worlds cong: eval_cong)

lemma ref_login:
  "serve build_router ref_state ref_axum (ref_post ''/login'' ''a@b.c;password1'') ref_registered
    = Some (respond 200 (Login_Response ref_access ref_refresh), ref_session)"
  by (simp add: eval ref_worlds cong: eval_cong)

lemma ref_verify_refresh:
  "verify_refresh ref_jwt ref_manager ref_refresh t
    = (if 604860 < timestamp t then Inl (InvalidToken Expired_Signature) else Inr ref_refresh_claims)"
  by (simp add: eval ref_worlds)

definition ref_bearer :: string where
  "ref_bearer = ''Bearer '' @ ref_access"

definition ref_access_claims :: claims where
  "ref_access_claims = \<lparr>c_sub = 1, c_email = ''a@b.c'', c_iat = 0, c_exp = 900, c_jti = 2,
     c_kind = Access\<rparr>"

lemma ref_auth_user:
  "auth_user ref_state (Some ref_bearer) t
    = (if 960 < timestamp t then Inl InvalidAuthToken else Inr ref_access_claims)"
  by (simp add: eval ref_worlds ref_state_def ref_bearer_def ref_access_claims_def)

lemma ref_reachable: "reachable build_router ref_state ref_axum fst (ref_session, {(3, 1)})"
proof -
  have "sys_step build_router ref_state ref_axum (ref_world, {}) (ref_registered, {})"
    using sys_step.request [OF ref_register, of "{}"] by (simp add: handed_out_def)
  moreover have "handed_out ref_state (clock ref_registered) (respond 200 (Login_Response ref_access ref_refresh))
      = {(3, 1)}"
    by (simp add: handed_out_def ref_verify_refresh ref_refresh_claims_def ref_registered_def timestamp_def)
  then have "sys_step build_router ref_state ref_axum (ref_registered, {}) (ref_session, {(3, 1)})"
    using sys_step.request [OF ref_login, of "{}"] by simp
  ultimately have "runs build_router ref_state ref_axum (ref_world, {}) (ref_session, {(3, 1)})" by simp
  then show ?thesis by (auto simp: reachable_def initial_def ref_world_def intro!: exI [of _ ref_world])
qed

definition ref_logout_all_request :: request where
  "ref_logout_all_request = ref_request Post ''/me/sessions/revoke-all'' (Some ref_bearer) []"

definition ref_logged_out :: "(sim_redis, ref_gen) world" where
  "ref_logged_out = ref_session\<lparr>cache := (Map.empty, [])\<rparr>"

lemma ref_logout_all:
  "serve build_router ref_state ref_axum ref_logout_all_request ref_session
    = Some (respond 204 No_Body, ref_logged_out)"
  by (simp add: serve_def dispatch_def build_router_def route_def get_def post_def ref_logout_all_request_def
      ref_request_def with_auth_def ref_auth_user ref_session_def ref_registered_def timestamp_def
      with_peer_def eval_monad logout_all_def eval_stores eval_library ref_access_claims_def ref_logged_out_def
      refresh_key_def fun_eq_iff cong: eval_cong)

lemma ref_world_simps [simp]:
  "clock ref_session = 0" "clock ref_registered = 0" "clock ref_logged_out = 0"
  "db ref_session = db ref_registered" "db ref_logged_out = db ref_registered"
  "distinct (ref_drawn (gen ref_session))" "distinct (ref_drawn (gen ref_logged_out))"
  "c_jti ref_refresh_claims = 3" "c_sub ref_refresh_claims = 1" "c_sub ref_access_claims = 1"
  "timestamp 0 = 0"
  by (simp_all add: ref_worlds ref_logged_out_def ref_drawn_def ref_access_claims_def timestamp_def)

lemma ref_dispatch_logout_all:
  "dispatch build_router ref_logout_all_request = Some (Ep_Logout_All, False)"
  by (simp add: dispatch_def build_router_def route_def get_def post_def ref_logout_all_request_def
      ref_request_def)

lemma ref_logout_result:
  "logout ref_state \<lparr>logout_token = ref_refresh\<rparr> ref_session = (Inr (respond 204 No_Body), ref_logged_out)"
  by (simp add: eval ref_worlds ref_logged_out_def refresh_key_def cong: eval_cong)

text \<open>The session after the refresh token has been exchanged once.\<close>

definition ref_rotated :: "(sim_redis, ref_gen) world" where
  "ref_rotated = ref_session\<lparr>cache :=
     ([refresh_key bits_uuid 5 \<mapsto> (RStr (uuid_show bits_uuid 1), Some 604800000000),
       sessions_key bits_uuid 1 \<mapsto> (RSet [uuid_show bits_uuid 5], Some 604800000000)], []),
     gen := (6, [5, 4, 3, 2], [])\<rparr>"

lemma ref_rotated_simps [simp]: "clock ref_rotated = 0"
  by (simp add: ref_rotated_def)

definition ref_rotated_tokens :: "string \<times> string" where
  "ref_rotated_tokens = (claims_text (ref_access_claims\<lparr>c_jti := 4\<rparr>) ''key'',
     claims_text (ref_refresh_claims\<lparr>c_jti := 5\<rparr>) ''key'')"

lemma ref_refresh_result:
  "refresh ref_state \<lparr>refresh_token = ref_refresh\<rparr> ref_session
    = (Inr (respond 200 (Login_Response (fst ref_rotated_tokens) (snd ref_rotated_tokens))), ref_rotated)"
  by (simp add: eval ref_worlds ref_rotated_def ref_rotated_tokens_def ref_access_claims_def
      refresh_key_def cong: eval_cong)

text \<open>A reset token has been mailed to the user, and is then redeemed.\<close>

definition ref_reset_row :: reset_row where
  "ref_reset_row = \<lparr>row_id = 5, row_user_id = 1, token_hash = ''#001'', expires_at = 900000000,
     used_at = None\<rparr>"

definition ref_reset_sent :: "(sim_redis, ref_gen) world" where
  "ref_reset_sent = ref_session\<lparr>db := \<lparr>users = [ref_user], reset_rows = [ref_reset_row]\<rparr>,
     gen := (6, [3, 2], []), sent := [(''a@b.c'', ''https://app/reset-password?token=001'')]\<rparr>"

lemma ref_reset_request:
  "serve build_router ref_state ref_axum (ref_post ''/password-reset/request'' ''a@b.c'') ref_session
    = Some (respond 200 No_Body, ref_reset_sent)"
  by (simp add: eval ref_worlds ref_reset_sent_def ref_reset_row_def ref_state_def nat_bits.simps cong: eval_cong)

lemma ref_reset_reachable: "reachable build_router ref_state ref_axum fst (ref_reset_sent, {(3, 1)})"
proof -
  have "sys_step build_router ref_state ref_axum (ref_session, {(3, 1)}) (ref_reset_sent, {(3, 1)})"
    using sys_step.request [OF ref_reset_request, of "{(3, 1)}"] by (simp add: handed_out_def)
  with ref_reachable show ?thesis
    unfolding reachable_def by (meson rtranclp.rtrancl_into_rtrancl)
qed

definition ref_reset_done :: "(sim_redis, ref_gen) world" where
  "ref_reset_done = ref_reset_sent\<lparr>db :=
     \<lparr>users = [ref_user\<lparr>password_hash := ''salt$password2'', updated_at := 0\<rparr>],
      reset_rows = [ref_reset_row\<lparr>used_at := Some 0\<rparr>]\<rparr>, cache := (Map.empty, [])\<rparr>"

definition ref_confirm_body :: reset_confirm_body where
  "ref_confirm_body = \<lparr>rc_token = ''001'', rc_new_password = ''password2''\<rparr>"

lemma ref_confirm_result:
  "password_reset_confirm ref_state ref_confirm_body ref_reset_sent
    = (Inr (respond 200 No_Body), ref_reset_done)"
  by (simp add: eval ref_worlds ref_reset_sent_def ref_reset_row_def ref_reset_done_def ref_confirm_body_def
      ref_state_def refresh_key_def fun_eq_iff cong: eval_cong)

lemma ref_reset_simps [simp]:
  "clock ref_reset_sent = 0" "clock ref_reset_done = 0"
  "distinct (ref_drawn (gen ref_reset_sent))" "distinct (ref_drawn (gen ref_reset_done))"
  by (simp_all add: ref_reset_sent_def ref_reset_done_def ref_drawn_def)

lemma ref_session_alive:
  "session_of bits_uuid t (fst (cache ref_session)) 3 = (if t < 604800000000 then Some 1 else None)"
  by (simp add: session_of_def ref_session_def lookup_def)

lemma ref_owner: "reset_owner (db ref_reset_sent) 0 ''#001'' = Some 1"
  by (simp add: reset_owner_def ref_reset_sent_def ref_reset_row_def consumable_def)

lemma ref_digest_token: "token_digest (st_digest ref_state) s = CHR ''#'' # s"
  by (simp add: token_digest_def ref_state_def ref_digest_def)

text \<open>A second login of the user.\<close>

definition ref_second_login :: "(sim_redis, ref_gen) world" where
  "ref_second_login = snd (login ref_state \<lparr>login_email = ''a@b.c'', login_password = ''password1''\<rparr> ref_session)"

lemma ref_second_login_result:
  "login ref_state \<lparr>login_email = ''a@b.c'', login_password = ''password1''\<rparr> ref_session
      = (Inr (respond 200 (Login_Response (fst ref_rotated_tokens) (snd ref_rotated_tokens))), ref_second_login)"
  by (simp add: ref_second_login_def eval ref_worlds ref_rotated_tokens_def ref_access_claims_def
      refresh_key_def cong: eval_cong)

lemma ref_second_login_simps: "gen ref_second_login = (6, [5, 4, 3, 2], [])"
  by (simp add: ref_second_login_def eval ref_worlds refresh_key_def cong: eval_cong)

end
