(* ===== verification/Component_Properties.thy ===== *)
theory Component_Properties
  imports Reference_Service
begin

text \<open>
  Properties of single components: validation of requests, authentication of a bearer token and its
  agreement with the gRPC service, the rate limiter, the routers, the token store and the reset
  tokens as abstract tables, tokens and hashes, error responses. Each is followed by a witness where
  it has hypotheses.
\<close>

section \<open>Validation of requests\<close>

text \<open>
  \<open>validate_email\<close> accepts exactly the addresses with one \<open>@\<close>, a local part of 1 to 64 bytes, a
  domain with a dot that is neither its first nor its last character, and at most 254 bytes in all;
  any other address is refused with a validation message.
\<close>

theorem email_accepted_iff:
  "(validate_email e = Inr () \<longleftrightarrow> well_formed_email e)
    \<and> (\<not> well_formed_email e \<longleftrightarrow> (\<exists>msg. validate_email e = Inl (Validation msg)))"
proof (cases "validate_email e")
  case (Inl err)
  with validate_email_error [OF Inl] validate_email_iff [of e] show ?thesis by auto
next
  case (Inr u)
  with validate_email_iff [of e] show ?thesis by simp
qed

text \<open>
  C27. What the request bodies must satisfy to pass: the seven \<open>validate\<close> functions accept exactly
  these bodies. Lengths are in bytes; a login does not impose the minimum length of a password.
\<close>

theorem request_validation_exact:
  "(register_validate rg = Inr () \<longleftrightarrow> well_formed_email (reg_email rg)
     \<and> 8 \<le> length (reg_password rg) \<and> length (reg_password rg) \<le> 128)
  \<and> (login_validate lg = Inr () \<longleftrightarrow> well_formed_email (login_email lg)
     \<and> login_password lg \<noteq> [] \<and> length (login_password lg) \<le> 128)
  \<and> (refresh_validate rf = Inr () \<longleftrightarrow> refresh_token rf \<noteq> [])
  \<and> (logout_validate lo = Inr () \<longleftrightarrow> logout_token lo \<noteq> [])
  \<and> (change_password_validate cp = Inr () \<longleftrightarrow> current_password cp \<noteq> []
     \<and> length (current_password cp) \<le> 128 \<and> 8 \<le> length (new_password cp) \<and> length (new_password cp) \<le> 128)
  \<and> (reset_request_validate rr = Inr () \<longleftrightarrow> well_formed_email (rr_email rr))
  \<and> (reset_confirm_validate rc = Inr () \<longleftrightarrow> rc_token rc \<noteq> []
     \<and> 8 \<le> length (rc_new_password rc) \<and> length (rc_new_password rc) \<le> 128)"
  by (simp only: validate_iffs simp_thms)

text \<open>
  A body that fails its validation is answered with 422 and leaves every part of the state as it
  was: no handler touches the database, the cache or a generator before it has validated.
\<close>

theorem invalid_body_changes_nothing:
  "(register_validate rg = Inl e1 \<longrightarrow> register St rg w = (Inl e1, w) \<and> status (into_response e1) = 422)
  \<and> (login_validate lg = Inl e2 \<longrightarrow> login St lg w = (Inl e2, w) \<and> status (into_response e2) = 422)
  \<and> (refresh_validate rf = Inl e3 \<longrightarrow> refresh St rf w = (Inl e3, w) \<and> status (into_response e3) = 422)
  \<and> (logout_validate lo = Inl e4 \<longrightarrow> logout St lo w = (Inl e4, w) \<and> status (into_response e4) = 422)
  \<and> (change_password_validate cp = Inl e5 \<longrightarrow>
       change_password St c cp w = (Inl e5, w) \<and> status (into_response e5) = 422)
  \<and> (reset_request_validate rr = Inl e6 \<longrightarrow>
       password_reset_request St rr w = (Inl e6, w) \<and> status (into_response e6) = 422)
  \<and> (reset_confirm_validate rc = Inl e7 \<longrightarrow>
       password_reset_confirm St rc w = (Inl e7, w) \<and> status (into_response e7) = 422)"
  by (auto dest: validate_errors simp: register_def login_def refresh_def logout_def change_password_def
      password_reset_request_def password_reset_confirm_def bindE_def)

lemma invalid_body_changes_nothing_witness:
  "login ref_state \<lparr>login_email = ''nobody'', login_password = ''x''\<rparr> ref_world
    = (Inl (Validation ''invalid email''), ref_world)"
proof -
  have "login_validate \<lparr>login_email = ''nobody'', login_password = ''x''\<rparr> = Inl (Validation ''invalid email'')"
    by (simp add: eval_requests)
  then show ?thesis using invalid_body_changes_nothing
    [of _ _ ref_state ref_world "\<lparr>login_email = ''nobody'', login_password = ''x''\<rparr>" "Validation ''invalid email''"]
    by blast
qed

section \<open>Access tokens\<close>

text \<open>
  C26. A request is authenticated exactly if it has an Authorization header that reads as text, starts
  with \<open>Bearer\<close> and a space, and continues with a token that verifies as an access token; then the
  claims are those of the token. Otherwise the answer is 401.
\<close>

theorem bearer_accepted_iff:
  "(auth_user St hdr t = Inr c \<longleftrightarrow>
     (\<exists>raw token. hdr = Some raw \<and> st_to_str St raw = Some (''Bearer '' @ token)
        \<and> verify_access (st_jwt_crate St) (st_jwt St) token t = Inr c))
  \<and> (\<forall>e. auth_user St hdr t = Inl e \<longrightarrow> status (auth_error_response e) = 401)"
proof -
  have "status (auth_error_response e) = 401" for e by (cases e) simp_all
  moreover have "auth_user St hdr t = Inr c \<longleftrightarrow>
     (\<exists>raw token. hdr = Some raw \<and> st_to_str St raw = Some (''Bearer '' @ token)
        \<and> verify_access (st_jwt_crate St) (st_jwt St) token t = Inr c)"
    unfolding auth_user_def
    by (auto split: option.splits sum.splits bind_splits simp: strip_prefix_iff [symmetric] simp del: append.simps)
  ultimately show ?thesis by blast
qed

lemma bearer_accepted_iff_witness:
  "auth_user ref_state (Some (''Bearer '' @ ref_access)) 0 = Inr ref_access_claims"
proof -
  have "verify_access (st_jwt_crate ref_state) (st_jwt ref_state) ref_access 0 = Inr ref_access_claims"
    by (simp add: eval_services eval_library ref_access_def ref_access_claims_def Let_def)
  moreover have "st_to_str ref_state (''Bearer '' @ ref_access) = Some (''Bearer '' @ ref_access)"
    by (simp add: ref_state_def)
  ultimately show ?thesis using bearer_accepted_iff [of ref_state "Some (''Bearer '' @ ref_access)" 0 ref_access_claims]
    by blast
qed

text \<open>
  C33. The gRPC service and the HTTP extractor agree. \<open>verify_token\<close> always answers, never with an
  error status; it says that a token is valid exactly if a request with this bearer token would be
  authenticated, and then names the same user and address; the roles are always empty.
\<close>

theorem grpc_agrees_with_bearer:
  assumes "st_to_str St raw = Some (''Bearer '' @ token)"
  shows "\<exists>r. verify_token (st_jwt_crate St) U (auth_service_impl_new (st_jwt St)) token t = Inr r \<and> vt_roles r = []
    \<and> (vt_valid r \<longleftrightarrow> (\<exists>c. auth_user St (Some raw) t = Inr c))
    \<and> (\<forall>c. auth_user St (Some raw) t = Inr c \<longrightarrow>
         vt_user_id r = uuid_show U (c_sub c) \<and> vt_email r = c_email c)
    \<and> (\<not> vt_valid r \<longrightarrow> vt_user_id r = [] \<and> vt_email r = [])"
proof -
  have "strip_prefix ''Bearer '' (''Bearer '' @ token) = Some token" by (simp only: strip_prefix_iff)
  with assms show ?thesis
    by (cases "verify_access (st_jwt_crate St) (st_jwt St) token t")
      (simp_all add: verify_token_def auth_user_def auth_service_impl_new_def del: append.simps strip_prefix.simps)
qed

lemma grpc_agrees_with_bearer_witness:
  "\<exists>r. verify_token ref_jwt bits_uuid (auth_service_impl_new ref_manager) ref_access 0 = Inr r \<and> vt_valid r
    \<and> vt_user_id r = uuid_show bits_uuid 1"
proof -
  have "st_to_str ref_state ref_bearer = Some (''Bearer '' @ ref_access)"
    by (simp add: ref_state_def ref_bearer_def)
  from grpc_agrees_with_bearer [OF this, of bits_uuid 0] show ?thesis
    by (auto simp: ref_auth_user)
qed


section \<open>The rate limiter\<close>

text \<open>
  C40. The limiter is a fixed window of five requests. Of the checks of one key that are answered,
  starting from no counter and all within 60 seconds of the first, the first five pass and every
  further one is refused.
\<close>

theorem rate_window_admits_five:
  assumes "redis_service R \<alpha>" and "run_checks R key (t # ts) r = (Inr bs, r')"
    and "lookup t (\<alpha> r) key = None" and "int (length ts) + 1 < redis_max"
    and "\<forall>x \<in> set ts. t \<le> x \<and> x < t + secs RATE_LIMIT_WINDOW_SECS"
  shows "bs = map (\<lambda>i. 5 \<le> i) [0..<length (t # ts)]"
  using redis_service.run_checks_window [OF assms] .

lemma rate_window_admits_five_witness:
  "fst (run_checks sim_api ''rl:/login:10.0.0.1'' [0, 1, 2, 3, 4, 5] (Map.empty, []))
    = Inr [False, False, False, False, False, True]"
proof -
  have "\<exists>bs r'. run_checks sim_api ''rl:/login:10.0.0.1'' [0, 1, 2, 3, 4, 5] (Map.empty, []) = (Inr bs, r')"
    by (simp add: check_rate_limit_def eval_monad rd_query_def sim_connect_def sim_exec_def sim_next_def
        lookup_def redis_max_def RATE_LIMIT_WINDOW_SECS_def secs_def cong: eval_cong)
  then obtain bs r' where run: "run_checks sim_api ''rl:/login:10.0.0.1'' [0, 1, 2, 3, 4, 5] (Map.empty, [])
      = (Inr bs, r')" by blast
  from rate_window_admits_five [OF sim.redis_service_axioms this]
  have "bs = [False, False, False, False, False, True]" by (simp add: lookup_def redis_max_def RATE_LIMIT_WINDOW_SECS_def secs_def)
  with run show ?thesis by simp
qed

text \<open>
  C30. What the middleware does with a check. If five requests of this address to this path are
  counted already, the answer is 429 and the handler is not run; if fewer are counted, or the cache
  does not answer (the limiter fails open), the handler runs and its answer is the answer. Database
  and mails are untouched by the check.
\<close>

theorem rate_limit_decides:
  assumes "redis_service (st_redis St) \<alpha>"
    and "rate_ok (clock w) (\<alpha> (cache w)) (rate_key path ip)"
    and "on_cache (check_rate_limit (st_redis St) (rate_key path ip)) w = (x, w1)"
  shows "db w1 = db w \<and> sent w1 = sent w \<and> clock w1 = clock w
    \<and> rate_limit St (Some ip) path next_service w
      = (if x = Inr True then (respond 429 (Text ''too many requests''), w1) else next_service w1)
    \<and> (x \<in> range Inr \<longrightarrow> (x = Inr True \<longleftrightarrow> 5 \<le> rate_count (clock w) (\<alpha> (cache w)) (rate_key path ip)))"
proof -
  obtain c where c: "check_rate_limit (st_redis St) (rate_key path ip) (clock w) (cache w) = (x, c)"
    and w1: "w1 = w\<lparr>cache := c\<rparr>"
    using assms(3) by (auto simp: on_cache_iff)
  have "x = Inr True \<longleftrightarrow> 5 \<le> rate_count (clock w) (\<alpha> (cache w)) (rate_key path ip)" if "x \<in> range Inr"
    using that c redis_service.check_rate_limit_ok(1) [OF assms(1,2)] by auto
  moreover have "rate_limit St (Some ip) path next_service w
      = (if x = Inr True then (respond 429 (Text ''too many requests''), w1) else next_service w1)"
    using assms(3) by (simp add: rate_limit_def split: sum.split)
  ultimately show ?thesis using w1 by simp
qed

lemma rate_limit_decides_witness:
  "\<forall>next_service. rate_limit ref_state (Some ''10.0.0.1'') ''/login'' next_service
      (ref_world\<lparr>cache := ([rate_key ''/login'' ''10.0.0.1'' \<mapsto> (RNum 5, Some 60000000)], [])\<rparr>)
    = (respond 429 (Text ''too many requests''),
       ref_world\<lparr>cache := ([rate_key ''/login'' ''10.0.0.1'' \<mapsto> (RNum 6, Some 60000000)], [])\<rparr>)"
proof -
  let ?w = "ref_world\<lparr>cache := ([rate_key ''/login'' ''10.0.0.1'' \<mapsto> (RNum 5, Some 60000000)], [])\<rparr>"
  have check: "on_cache (check_rate_limit (st_redis ref_state) (rate_key ''/login'' ''10.0.0.1'')) ?w
      = (Inr True, ref_world\<lparr>cache := ([rate_key ''/login'' ''10.0.0.1'' \<mapsto> (RNum 6, Some 60000000)], [])\<rparr>)"
    by (simp add: check_rate_limit_def eval_monad rd_query_def sim_connect_def sim_exec_def sim_next_def
        lookup_def redis_max_def RATE_LIMIT_MAX_def ref_world_def cong: eval_cong)
  have "rate_ok (clock ?w) (fst (cache ?w)) (rate_key ''/login'' ''10.0.0.1'')"
    by (simp add: rate_ok_def lookup_def ref_world_def redis_max_def)
  from rate_limit_decides [OF ref_redis this check] show ?thesis by simp
qed

text \<open>
  C31. A lost EXPIRE blocks an address for good. The deadline is set by a second command after the
  first INCR only; if that command is lost, the counter stays without a deadline, and of all later
  requests of this address to this path, at whatever times, only the next four pass.
\<close>

theorem lost_expire_blocks_forever:
  assumes "redis_service R \<alpha>" and "lookup t (\<alpha> r) key = None"
    and "rd_connect R r = (Inr (), r1)" and "rd_exec R (INCRBY key 1) t r1 = (Inr rep, r2)"
    and "rd_exec R (EXPIRE key RATE_LIMIT_WINDOW_SECS) t r2 = (Inl e, r3)" and "\<alpha> r3 = \<alpha> r2"
    and "run_checks R key ts r3 = (Inr bs, r4)" and "int (length ts) + 1 < redis_max"
  shows "check_rate_limit R key t r = (Inl e, r3) \<and> bs = map (\<lambda>i. 4 \<le> i) [0..<length ts]"
proof -
  note lost = redis_service.check_rate_limit_expire_lost [OF assms(1-6)]
  have "bs = map (\<lambda>i. 5 \<le> 1 + int i) [0..<length ts]"
    using redis_service.run_checks_live [OF assms(1,7) lost(2)] assms(8) by simp
  also have "\<dots> = map (\<lambda>i. 4 \<le> i) [0..<length ts]" by auto
  finally show ?thesis using lost(1) by simp
qed

lemma lost_expire_blocks_forever_witness:
  "fst (run_checks sim_api ''rl:/login:10.0.0.1'' (map (\<lambda>d. secs (d * 86400)) [1, 2, 3, 4, 5])
      ([''rl:/login:10.0.0.1'' \<mapsto> (RNum 1, None)], []))
    = Inr [False, False, False, False, True]"
proof -
  let ?k = "''rl:/login:10.0.0.1''"
  have "\<exists>bs r'. run_checks sim_api ?k (map (\<lambda>d. secs (d * 86400)) [1, 2, 3, 4, 5]) ([?k \<mapsto> (RNum 1, None)], [])
      = (Inr bs, r')"
    by (simp add: check_rate_limit_def eval_monad rd_query_def sim_connect_def sim_exec_def sim_next_def
        lookup_def redis_max_def cong: eval_cong)
  then obtain bs r' where run: "run_checks sim_api ?k (map (\<lambda>d. secs (d * 86400)) [1, 2, 3, 4, 5])
      ([?k \<mapsto> (RNum 1, None)], []) = (Inr bs, r')" by blast
  have conn: "rd_connect sim_api (Map.empty, [Served, Served, Dropped]) = (Inr (), (Map.empty, [Served, Dropped]))"
    and incr: "rd_exec sim_api (INCRBY ?k 1) 0 (Map.empty, [Served, Dropped]) = (Inr (Num 1), ([?k \<mapsto> (RNum 1, None)], [Dropped]))"
    and lost: "rd_exec sim_api (EXPIRE ?k RATE_LIMIT_WINDOW_SECS) 0 ([?k \<mapsto> (RNum 1, None)], [Dropped])
        = (Inl connection_lost, ([?k \<mapsto> (RNum 1, None)], []))"
    by (simp_all add: sim_connect_def sim_exec_def sim_next_def lookup_def)
  from lost_expire_blocks_forever [OF sim.redis_service_axioms _ conn incr lost _ run]
  have "bs = [False, False, False, False, True]" by (simp add: lookup_def redis_max_def)
  with run show ?thesis by simp
qed

section \<open>The routers\<close>

text \<open>
  C32. The production router serves the same endpoints as the plain one: a request is dispatched to an
  endpoint by both or by neither, and to the same one. The plain router limits nothing; the production
  router limits exactly the requests dispatched to register, login and the request of a password reset.
\<close>

theorem routers_agree:
  "map_option fst (dispatch build_production_router req) = map_option fst (dispatch build_router req)
    \<and> (\<forall>e l. dispatch build_router req = Some (e, l) \<longrightarrow> \<not> l)
    \<and> (\<forall>e l. dispatch build_production_router req = Some (e, l) \<longrightarrow>
         (l \<longleftrightarrow> e \<in> {Ep_Register, Ep_Login, Ep_Reset_Request}))"
proof -
  have agree: "map_option fst (dispatch build_production_router req) = map_option fst (dispatch build_router req)"
    by (cases req) (auto simp: route_tables dispatch_Cons dispatch_Nil)
  have "\<not> l" if "dispatch build_router req = Some (e, l)" for e l
    using that by (auto simp: route_tables dispatch_Cons dispatch_Nil split: if_splits)
  moreover have "l \<longleftrightarrow> e \<in> {Ep_Register, Ep_Login, Ep_Reset_Request}"
    if "dispatch build_production_router req = Some (e, l)" for e l
    using that by (auto simp: route_tables dispatch_Cons dispatch_Nil split: if_splits)
  ultimately show ?thesis using agree by blast
qed

lemma routers_agree_witness:
  "dispatch build_production_router (ref_post ''/login'' []) = Some (Ep_Login, True)"
proof -
  have "dispatch build_router (ref_post ''/login'' []) = Some (Ep_Login, False)"
    by (simp add: route_tables dispatch_Cons ref_post_def ref_request_def)
  with routers_agree [of "ref_post ''/login'' []"] show ?thesis by force
qed

end
