(* ===== verification/Store_Properties.thy ===== *)
theory Store_Properties
  imports Reference_Service
begin

text \<open>
  Properties of the stores as abstract tables: sessions in the cache, users and one-time reset tokens
  in the database. They are the laws of the interfaces, written out over the operations of the code,
  and rest on the interpretations of the interfaces on the model.
\<close>

section \<open>Sessions\<close>

text \<open>
  C18. The token store implements a table from token ids to users. Where the index of sessions is
  complete, an answered \<open>store_refresh_token\<close> sets one entry for seven days, an answered
  \<open>revoke_refresh_token\<close> returns the entry and removes it, and an answered \<open>revoke_all_sessions\<close>
  removes the entries of the user's index, returns their number, and leaves no entry of this user
  but those whose pipeline was cut. All other entries stay.
\<close>

theorem token_store_refines_table:
  assumes "session_cache R \<alpha> U" and "index_inv U session_secs X t (\<alpha> r)" and "t \<le> t'"
  shows "(store_refresh_token R U j u refresh_ttl_secs t r = (Inr (), r') \<longrightarrow>
      session_of U t' (\<alpha> r') = (session_of U t' (\<alpha> r))(j := if t' < t + secs session_secs then Some u else None))
    \<and> (revoke_refresh_token R U j t r = (Inr v, r') \<longrightarrow>
      v = session_of U t (\<alpha> r) j \<and> session_of U t' (\<alpha> r') = (session_of U t' (\<alpha> r))(j := None))
    \<and> (revoke_all_sessions R U u t r = (Inr n, r') \<longrightarrow>
      n = card (indexed U t (\<alpha> r) u)
      \<and> session_of U t' (\<alpha> r') = (\<lambda>i. if uuid_show U i \<in> indexed U t (\<alpha> r) u then None else session_of U t' (\<alpha> r) i)
      \<and> (\<forall>i. session_of U t' (\<alpha> r') i = Some u \<longrightarrow> i \<in> X))"
proof -
  have wt: "well_typed U (\<alpha> r)" using assms(2) by (simp add: index_inv_def)
  have "session_of U t' (\<alpha> r') = (session_of U t' (\<alpha> r))(j := if t' < t + secs session_secs then Some u else None)"
    if "store_refresh_token R U j u refresh_ttl_secs t r = (Inr (), r')"
    using session_cache.store_session_of [OF assms(1) _ _ assms(3) that] by simp
  moreover have "v = session_of U t (\<alpha> r) j \<and> session_of U t' (\<alpha> r') = (session_of U t' (\<alpha> r))(j := None)"
    if "revoke_refresh_token R U j t r = (Inr v, r')"
    using session_cache.revoke_ok [OF assms(1) wt that] assms(3) by simp
  moreover have "n = card (indexed U t (\<alpha> r) u)
      \<and> session_of U t' (\<alpha> r') = (\<lambda>i. if uuid_show U i \<in> indexed U t (\<alpha> r) u then None else session_of U t' (\<alpha> r) i)
      \<and> (\<forall>i. session_of U t' (\<alpha> r') i = Some u \<longrightarrow> i \<in> X)"
    if "revoke_all_sessions R U u t r = (Inr n, r')"
    using session_cache.revoke_all_ok [OF assms(1) wt that]
      session_cache.revoke_all_complete [OF assms(1,2) that _ assms(3)] by blast
  ultimately show ?thesis by blast
qed

lemma token_store_refines_table_witness:
  "\<exists>r'. store_refresh_token sim_api bits_uuid 3 1 refresh_ttl_secs 0 (Map.empty, []) = (Inr (), r')
    \<and> session_of bits_uuid 5 (fst r') 3 = Some 1"
proof -
  have "\<exists>r'. store_refresh_token sim_api bits_uuid 3 1 refresh_ttl_secs 0 (Map.empty, []) = (Inr (), r')"
    by (simp add: eval_monad eval_stores sim_connect_def sim_pipe_def sim_next_def lookup_def session_secs_def
        cong: eval_cong)
  then obtain r' where run: "store_refresh_token sim_api bits_uuid 3 1 refresh_ttl_secs 0 (Map.empty, [])
      = (Inr (), r')" by blast
  have inv: "index_inv bits_uuid session_secs {} 0 (fst (Map.empty, []))" by (simp add: index_inv_empty)
  from token_store_refines_table [OF ref_cache.session_cache_axioms inv, of 5 3 1] run show ?thesis
    by (auto simp: session_secs_def secs_def)
qed

text \<open>
  The life of a refresh token. A token stored at \<open>t\<close> is redeemed at \<open>t'\<close> for the user it was stored
  for if less than seven days have passed, and for nobody later; and a second attempt at any time gets
  nothing.
\<close>

theorem stored_token_redeemed_once:
  assumes "session_cache R \<alpha> U" and "index_inv U session_secs X t (\<alpha> r)"
    and "store_refresh_token R U j u refresh_ttl_secs t r = (Inr (), r1)" and "t \<le> t'"
    and "revoke_refresh_token R U j t' r1 = (Inr v, r2)" and "t' \<le> t''"
    and "revoke_refresh_token R U j t'' r2 = (Inr v', r3)"
  shows "v = (if t' < t + secs session_secs then Some u else None) \<and> v' = None"
  using session_cache.store_then_revoke_twice [OF assms] .

lemma stored_token_redeemed_once_witness:
  "\<exists>r1 r2 r3. store_refresh_token sim_api bits_uuid 3 1 refresh_ttl_secs 0 (Map.empty, []) = (Inr (), r1)
    \<and> revoke_refresh_token sim_api bits_uuid 3 (secs 60) r1 = (Inr (Some 1), r2)
    \<and> revoke_refresh_token sim_api bits_uuid 3 (secs 61) r2 = (Inr None, r3)"
proof -
  have "\<exists>r1 v r2 v' r3. store_refresh_token sim_api bits_uuid 3 1 refresh_ttl_secs 0 (Map.empty, []) = (Inr (), r1)
    \<and> revoke_refresh_token sim_api bits_uuid 3 (secs 60) r1 = (Inr v, r2)
    \<and> revoke_refresh_token sim_api bits_uuid 3 (secs 61) r2 = (Inr v', r3)"
    by (simp add: eval_monad eval_stores sim_connect_def sim_exec_def sim_pipe_def sim_next_def lookup_def
        rd_query_def session_secs_def secs_def cong: eval_cong)
  then obtain r1 v r2 v' r3 where
    run: "store_refresh_token sim_api bits_uuid 3 1 refresh_ttl_secs 0 (Map.empty, []) = (Inr (), r1)"
      "revoke_refresh_token sim_api bits_uuid 3 (secs 60) r1 = (Inr v, r2)"
      "revoke_refresh_token sim_api bits_uuid 3 (secs 61) r2 = (Inr v', r3)" by blast
  have inv: "index_inv bits_uuid session_secs {} 0 (fst (Map.empty, []))" by (simp add: index_inv_empty)
  from stored_token_redeemed_once [OF ref_cache.session_cache_axioms inv run(1) _ run(2) _ run(3)]
  have "v = Some 1" "v' = None" by (simp_all add: session_secs_def secs_def)
  with run show ?thesis by blast
qed

section \<open>Users\<close>

text \<open>
  C38. The users table. A created user is found under the address with the hash that was stored; the
  address cannot be created again; a changed hash is what is found afterwards; and a deleted user is
  found no more.
\<close>

theorem user_repository_roundtrip:
  assumes "db_ok (fst s)" and "create_user L e h t s = (Inr u, s1)"
  shows "(find_by_email L e s1 = (Inr x, s2) \<longrightarrow> x = Some u \<and> password_hash u = h)
    \<and> create_user L e h' t' s1 \<noteq> (Inr v, s3)
    \<and> (update_password L (user_id u) h' t' s1 = (Inr (), s4) \<longrightarrow> find_by_email L e s4 = (Inr x, s2) \<longrightarrow>
        (\<exists>u'. x = Some u' \<and> user_id u' = user_id u \<and> password_hash u' = h'))
    \<and> (delete_by_id L (user_id u) s1 = (Inr (), s5) \<longrightarrow> find_by_email L e s5 = (Inr x, s2) \<longrightarrow> x = None)"
proof -
  note c = users_table.create_ok [OF assms]
  then have ok: "db_ok (fst s1)" and view: "user_with_id (fst s1) (user_id u) = Some u" "user_email u = e"
    by simp_all
  show ?thesis
    using users_table.create_then_find [OF assms] users_table.no_second_account [OF assms]
      users_table.update_then_find [where L = L, OF ok _ _ view]
      users_table.delete_then_find [where L = L, OF ok _ _ view]
    by blast
qed

lemma user_repository_roundtrip_witness:
  "\<exists>u s1. create_user ref_env ''a@b.c'' ''hash'' 7 (empty_db, (1, [], [])) = (Inr u, s1)
    \<and> (\<forall>v s3. create_user ref_env ''a@b.c'' ''other'' 8 s1 \<noteq> (Inr v, s3))"
proof -
  have "\<exists>u s1. create_user ref_env ''a@b.c'' ''hash'' 7 (empty_db, (1, [], [])) = (Inr u, s1)"
    by (simp add: create_user_def mapErrE_def pg_run_with_id_def pg_run_def ref_env_def insert_user_def empty_db_def Let_def)
  then obtain u s1 where run: "create_user ref_env ''a@b.c'' ''hash'' 7 (empty_db, (1, [], [])) = (Inr u, s1)"
    by blast
  have "db_ok (fst (empty_db, (1, [], []) :: ref_gen))" by (simp add: db_ok_empty)
  from user_repository_roundtrip [OF this run] run show ?thesis by blast
qed

section \<open>Reset tokens\<close>

text \<open>
  C24. A reset token is good once and for its time. Issued to \<open>u\<close> with the deadline \<open>x\<close>, it is redeemed
  for \<open>u\<close> before \<open>x\<close> and for nobody from \<open>x\<close> on; a second redemption at any later time gets nothing; and
  redeeming it takes no other token.
\<close>

theorem reset_token_good_once:
  assumes "db_ok (fst s)" and "create_reset_token L u h x s = (Inr (), s1)"
    and "consume_reset_token L h t s1 = (Inr v, s2)" and "t \<le> t'"
  shows "v = (if t < x then Some u else None)
    \<and> (consume_reset_token L h t' s2 = (Inr v', s3) \<longrightarrow> v' = None)
    \<and> (\<forall>h'. h' \<noteq> h \<longrightarrow> reset_owner (fst s2) t' h' = reset_owner (fst s) t' h')"
proof -
  note i = reset_tokens.issue_ok [OF assms(1,2)]
  then have ok: "db_ok (fst s1)" by blast
  from i reset_tokens.redeem_other [OF ok assms(3,4)]
  have "reset_owner (fst s2) t' h' = reset_owner (fst s) t' h'" if "h' \<noteq> h" for h' using that by simp
  with reset_tokens.issue_then_redeem [OF assms(1-3)] reset_tokens.redeem_once [OF ok assms(3,4)]
  show ?thesis by blast
qed

lemma reset_token_good_once_witness:
  "\<exists>s1 s2. create_reset_token ref_env 1 ''h'' 10 (db ref_registered, (5, [], [])) = (Inr (), s1)
    \<and> consume_reset_token ref_env ''h'' 9 s1 = (Inr (Some 1), s2)"
proof -
  have "\<exists>s1 v s2. create_reset_token ref_env 1 ''h'' 10 (db ref_registered, (5, [], [])) = (Inr (), s1)
      \<and> consume_reset_token ref_env ''h'' 9 s1 = (Inr v, s2)"
    by (simp add: create_reset_token_def consume_reset_token_def mapErrE_def pg_run_with_id_def pg_run_def
        ref_env_def insert_reset_row_def consume_reset_row_def ref_worlds)
  then obtain s1 v s2 where run: "create_reset_token ref_env 1 ''h'' 10 (db ref_registered, (5, [], [])) = (Inr (), s1)"
      "consume_reset_token ref_env ''h'' 9 s1 = (Inr v, s2)" by blast
  have "db_ok (fst (db ref_registered, (5, [], []) :: ref_gen))" by (simp add: db_ok_def ref_worlds)
  from reset_token_good_once [OF this run, of 9] have "v = Some 1" by simp
  with run show ?thesis by blast
qed

end
