(* ===== verification/Handler_Answers.thy ===== *)
theory Handler_Answers
  imports Routes
begin

text \<open>
  Which answers a handler can give: the errors that each operation can raise, followed through
  \<open>bindE\<close>, and the status codes that they become.
\<close>

section \<open>The errors of a computation\<close>

definition errs :: "'e set \<Rightarrow> ('s, 'e, 'a) io \<Rightarrow> bool" where
  "errs E m \<longleftrightarrow> (\<forall>s e s'. m s = (Inl e, s') \<longrightarrow> e \<in> E)"

named_theorems errs_rules

lemma errs_basic [errs_rules]:
  "errs E (okE a)" "e \<in> E \<Longrightarrow> errs E (errE e)" "errs E now" "errs E (drawE d)" "errs E (attemptE m)"
  by (auto simp: errs_def now_def attemptE_def split: prod.splits)

lemma errs_liftE [errs_rules]: "(\<And>e. r = Inl e \<Longrightarrow> e \<in> E) \<Longrightarrow> errs E (liftE r)"
  by (simp add: errs_def)

lemma errs_ok_orE [errs_rules]: "e \<in> E \<Longrightarrow> errs E (ok_orE e x)"
  by (cases x) (auto simp: errs_def)

lemma errs_bindE [errs_rules]: "errs E m \<Longrightarrow> (\<And>a. errs E (f a)) \<Longrightarrow> errs E (bindE m f)"
  unfolding errs_def by (metis bindE_InlE)

lemma errs_mapErrE: "errs F m \<Longrightarrow> f ` F \<subseteq> E \<Longrightarrow> errs E (mapErrE f m)"
  by (auto simp: errs_def mapErrE_Inl_iff)

lemma errs_mapErrE_UNIV [errs_rules]: "range f \<subseteq> E \<Longrightarrow> errs E (mapErrE f m)"
  by (rule errs_mapErrE [of UNIV]) (auto simp: errs_def)

lemma errs_on: "(\<And>t. errs E (m t)) \<Longrightarrow> errs E (on_cache m)" "(\<And>t. errs E (n t)) \<Longrightarrow> errs E (on_db n)"
  "(\<And>t. errs E (p t)) \<Longrightarrow> errs E (on_gen p)"
  unfolding errs_def by (auto simp: on_iffs; blast)+

lemma errs_ops:
  "(\<And>t. errs F (m t)) \<Longrightarrow> api_of_data ` F \<subseteq> E \<Longrightarrow> errs E (cache_op m)"
  "(\<And>t. errs F (n t)) \<Longrightarrow> api_of_data ` F \<subseteq> E \<Longrightarrow> errs E (db_op n)"
  "(\<And>t. errs G (p t)) \<Longrightarrow> api_of_domain ` G \<subseteq> E \<Longrightarrow> errs E (gen_op p)"
  unfolding cache_op_def db_op_def gen_op_def
  by (auto intro!: errs_mapErrE [of F] errs_on errs_mapErrE [of G])

lemma errs_domain_op: "(\<And>e. r = Inl e \<Longrightarrow> api_of_domain e \<in> E) \<Longrightarrow> errs E (domain_op r)"
  by (auto simp: errs_def domain_op_def mapErrE_Inl_iff)

text \<open>The stores fail with errors of the cache only, the hash with errors of hashing only.\<close>

lemma errs_cache_calls:
  "errs (range Cache) (store_refresh_token R U j u ttl t)" "errs (range Cache) (revoke_refresh_token R U j t)"
  "errs (range Cache) (revoke_all_sessions R U u t)" "errs (range Cache) (is_locked R e t)"
  "errs (range Cache) (record_failure R e t)" "errs (range Cache) (clear_failures R e t)"
  unfolding store_refresh_token_def revoke_refresh_token_def revoke_all_sessions_def is_locked_def
    record_failure_def clear_failures_def drop_from_index_def
  by (auto intro!: errs_rules split: option.split)

lemma errs_hash_of: "errs (range Hashing) (hash_of A E P pw)"
  unfolding hash_of_def by (intro errs_rules subset_refl)

lemma errs_verify_hash: "verify_hash A P pw h = Inl e \<Longrightarrow> e \<in> range Hashing"
  by (auto simp: verify_hash_def split: sum.splits)

lemma errs_cache_op [errs_rules]:
  assumes "Internal \<in> E"
  shows "errs E (cache_op (store_refresh_token R U j u ttl))" "errs E (cache_op (revoke_refresh_token R U j))"
    "errs E (cache_op (revoke_all_sessions R U u))" "errs E (cache_op (is_locked R e))"
    "errs E (cache_op (record_failure R e))" "errs E (cache_op (clear_failures R e))"
  using assms by (auto intro!: errs_ops(1) [OF errs_cache_calls(1)] errs_ops(1) [OF errs_cache_calls(2)]
      errs_ops(1) [OF errs_cache_calls(3)] errs_ops(1) [OF errs_cache_calls(4)]
      errs_ops(1) [OF errs_cache_calls(5)] errs_ops(1) [OF errs_cache_calls(6)])

lemma errs_hashing [errs_rules]:
  assumes "Internal \<in> E"
  shows "errs E (gen_op (\<lambda>_. hash_of A L P pw))" "errs E (domain_op (verify_hash A P pw h))"
  using assms by (auto intro!: errs_ops(3) [OF errs_hash_of] errs_domain_op dest: errs_verify_hash)

lemma api_of_data_values: "api_of_data e = Conflict \<or> api_of_data e = Internal"
  by (cases e) simp_all

lemma api_of_domain_values: "api_of_domain e = Unauthorized \<or> api_of_domain e = Internal"
  by (cases e) simp_all

lemma errs_db_op: "Conflict \<in> E \<Longrightarrow> Internal \<in> E \<Longrightarrow> errs E (db_op m)"
  unfolding db_op_def by (rule errs_mapErrE_UNIV, rule image_subsetI) (metis api_of_data_values)

lemma errs_gen_op: "Unauthorized \<in> E \<Longrightarrow> Internal \<in> E \<Longrightarrow> errs E (gen_op m)"
  unfolding gen_op_def by (rule errs_mapErrE_UNIV, rule image_subsetI) (metis api_of_domain_values)

section \<open>The status codes of the handlers\<close>

definition answer_status :: "api_error + response \<Rightarrow> nat" where
  "answer_status x = (case x of Inl e \<Rightarrow> status (into_response e) | Inr res \<Rightarrow> status res)"

definition errors_of :: "nat set \<Rightarrow> api_error set" where
  "errors_of S = {e. status (into_response e) \<in> S}"

definition answers :: "nat set \<Rightarrow> (('r, 'g) world, api_error, response) io \<Rightarrow> bool" where
  "answers S m \<longleftrightarrow> (\<forall>w. answer_status (fst (m w)) \<in> S)"

lemma errors_of_iff [simp]:
  "Internal \<in> errors_of S \<longleftrightarrow> 500 \<in> S" "Conflict \<in> errors_of S \<longleftrightarrow> 409 \<in> S"
  "Unauthorized \<in> errors_of S \<longleftrightarrow> 401 \<in> S" "BadRequest m \<in> errors_of S \<longleftrightarrow> 400 \<in> S"
  "Validation m \<in> errors_of S \<longleftrightarrow> 422 \<in> S"
  by (simp_all add: errors_of_def)

named_theorems answers_rules

lemma answers_okE [answers_rules]: "c \<in> S \<Longrightarrow> answers S (okE (respond c b))"
  by (simp add: answers_def answer_status_def)

lemma answers_errE [answers_rules]: "e \<in> errors_of S \<Longrightarrow> answers S (errE e)"
  by (simp add: answers_def answer_status_def errors_of_def)

lemma answers_bindE [answers_rules]:
  assumes "errs (errors_of S) m" and "\<And>a. answers S (f a)"
  shows "answers S (bindE m f)"
  unfolding answers_def
proof
  fix w
  show "answer_status (fst (bindE m f w)) \<in> S"
  proof (cases "m w")
    case (Pair x w1)
    with assms show ?thesis
      by (cases x) (auto simp: bindE_def errs_def answers_def answer_status_def errors_of_def)
  qed
qed

lemma errs_validate:
  assumes "422 \<in> S"
  shows "errs (errors_of S) (liftE (register_validate rg))" "errs (errors_of S) (liftE (login_validate lg))"
    "errs (errors_of S) (liftE (refresh_validate rf))" "errs (errors_of S) (liftE (logout_validate lo))"
    "errs (errors_of S) (liftE (change_password_validate cp))"
    "errs (errors_of S) (liftE (reset_request_validate rr))"
    "errs (errors_of S) (liftE (reset_confirm_validate rc))"
  using assms by (auto intro!: errs_liftE dest!: validate_errors)

lemma errs_unauthorized: "401 \<in> S \<Longrightarrow> errs (errors_of S) (mapErrE (\<lambda>_. Unauthorized) m)"
  by (rule errs_mapErrE_UNIV) auto

lemmas answer_intros = answers_rules errs_rules errs_validate errs_unauthorized errs_gen_op

lemma answers_issue_tokens: "{200, 401, 500} \<subseteq> S \<Longrightarrow> answers S (issue_tokens St uid email)"
  unfolding issue_tokens_def by (auto intro!: answer_intros split: prod.split)

end
