(* ===== verification/Refusals.thy ===== *)
theory Refusals
  imports Handler_Answers Handler_Facts
begin

text \<open>
  When exactly a handler refuses a request, and with which status code, whatever the services do. The one
  thing assumed is that the database reports a unique violation only for a statement that has one.
\<close>

section \<open>The status code of an answer\<close>

definition status_of :: "(('r, 'g) world, api_error, response) io \<Rightarrow> ('r, 'g) world \<Rightarrow> nat" where
  "status_of m w = status (fst (finish m w))"

lemma status_of_answer: "status_of m w = answer_status (fst (m w))"
  by (auto simp: status_of_def finish_def answer_status_def split: prod.split sum.split)

lemma answers_status_of: "answers S m \<Longrightarrow> status_of m w \<in> S"
  by (simp add: status_of_answer answers_def)

lemma status_of_other: "answers S m \<Longrightarrow> c \<notin> S \<Longrightarrow> status_of m w \<noteq> c"
  using answers_status_of by metis

lemma status_of_simps [simp]:
  "status_of (okE res) w = status res" "status_of (errE e) w = status (into_response e)"
  "status_of (Pair (Inr res)) w = status res"
  by (simp_all add: status_of_answer answer_status_def)

text \<open>The code of a chain of calls: that of the first error, or of the rest.\<close>

lemma status_of_bindE:
  "status_of (bindE m f) w = (case m w of
       (Inl e, _) \<Rightarrow> status (into_response e)
     | (Inr a, w') \<Rightarrow> status_of (f a) w')"
  by (auto simp: status_of_answer answer_status_def bindE_def split: prod.split sum.split)

lemma status_of_error [simp]:
  "status (into_response (api_of_data e)) = (if e = EmailConflict then 409 else 500)"
  by (cases e) simp_all

lemma api_of_data_internal: "e \<noteq> EmailConflict \<Longrightarrow> api_of_data e = Internal"
  by (cases e) simp_all

lemma status_409: "status (into_response e) = 409 \<longleftrightarrow> e = Conflict"
  by (cases e) simp_all

section \<open>An honest database\<close>

text \<open>The errors of the connection, the pool and the protocol are no unique violations.\<close>

definition pg_honest :: "('g, 'z) pg_lib_scheme \<Rightarrow> bool" where
  "pg_honest L \<longleftrightarrow> (\<forall>g e g'. pg_next L g = (Pg_Refused e, g') \<or> pg_next L g = (Pg_Reply_Lost e, g') \<longrightarrow> e \<noteq> unique_violation)"

lemma pg_run_honest:
  assumes "pg_honest L" and "pg_run L stmt s = (Inl unique_violation, s')"
  shows "fst (stmt (fst s)) = Inl unique_violation" and "fst (pg_next L (snd s)) = Pg_Served"
proof -
  obtain d g where s: "s = (d, g)" by (cases s)
  from assms s have "fst (stmt d) = Inl unique_violation \<and> fst (pg_next L g) = Pg_Served"
    by (auto simp: pg_run_def pg_honest_def split: prod.splits pg_outcome.splits)
  then show "fst (stmt (fst s)) = Inl unique_violation" "fst (pg_next L (snd s)) = Pg_Served" by (simp_all add: s)
qed

lemma errs_honest:
  assumes "pg_honest L" and "\<And>d. fst (stmt d) \<noteq> Inl unique_violation"
  shows "errs (- {EmailConflict}) (mapErrE from_sqlx (pg_run L stmt))"
  unfolding errs_def
proof (intro allI impI)
  fix s e s' assume "mapErrE from_sqlx (pg_run L stmt) s = (Inl e, s')"
  then obtain x where "pg_run L stmt s = (Inl x, s')" "e = from_sqlx x" by (auto simp: mapErrE_Inl_iff)
  with pg_run_honest(1) [OF assms(1), of stmt s s'] assms(2) show "e \<in> - {EmailConflict}" by auto
qed

lemma errs_honest_db_op:
  assumes "\<And>t. errs (- {EmailConflict}) (m t)" and "Internal \<in> E"
  shows "errs E (db_op m)"
proof (rule errs_ops(2) [where F = "- {EmailConflict}"])
  show "api_of_data ` (- {EmailConflict}) \<subseteq> E" using assms(2) api_of_data_values by fastforce
qed (rule assms(1))

text \<open>Only an insertion can conflict.\<close>

lemma honest_calls:
  assumes "pg_honest L" and "Internal \<in> E"
  shows "errs E (db_op (\<lambda>_. find_by_email L e))" "errs E (db_op (\<lambda>_. find_by_id L i))"
    "errs E (db_op (update_password L i h))" "errs E (db_op (\<lambda>_. delete_by_id L i))"
    "errs E (db_op (consume_reset_token L h))"
proof -
  note honest = errs_honest [OF assms(1)]
  show "errs E (db_op (\<lambda>_. find_by_email L e))" "errs E (db_op (\<lambda>_. find_by_id L i))"
    "errs E (db_op (consume_reset_token L h))"
    unfolding find_by_email_def find_by_id_def consume_reset_token_def
    by (auto intro!: errs_honest_db_op honest assms(2) simp: select_user_def consume_reset_row_def)
  show "errs E (db_op (update_password L i h))" "errs E (db_op (\<lambda>_. delete_by_id L i))"
    unfolding update_password_def delete_by_id_def
    by (auto intro!: errs_honest_db_op errs_bindE honest assms(2) errs_basic simp: update_user_password_def delete_user_def)
qed

text \<open>A statement without a conflict that the database does not serve is an error of the server.\<close>

lemma served_cases:
  assumes "pg_honest L" and "fst (stmt (clock w) (db w)) = Inr a"
  obtains w1 where "db_op (\<lambda>t. mapErrE from_sqlx (pg_run L (stmt t))) w = (Inr a, w1)"
      "fst (pg_next L (gen w)) = Pg_Served"
  | w1 where "db_op (\<lambda>t. mapErrE from_sqlx (pg_run L (stmt t))) w = (Inl Internal, w1)"
      "fst (pg_next L (gen w)) \<noteq> Pg_Served"
proof -
  obtain x g where next_eq: "pg_next L (gen w) = (x, g)" by fastforce
  show thesis
  proof (cases x)
    case Pg_Served
    with next_eq assms(2) show ?thesis
      by (intro that(1) [of "w\<lparr>db := snd (stmt (clock w) (db w)), gen := g\<rparr>"])
        (simp_all add: db_op_def on_db_def mapErrE_def pg_run_def)
  next
    case (Pg_Refused e)
    with next_eq assms(1) have "e \<noteq> unique_violation" by (simp add: pg_honest_def)
    with next_eq Pg_Refused show ?thesis
      by (intro that(2) [of "w\<lparr>gen := g\<rparr>"])
        (simp_all add: db_op_def on_db_def mapErrE_def pg_run_def api_of_data_internal)
  next
    case (Pg_Reply_Lost e)
    with next_eq assms(1) have "e \<noteq> unique_violation" by (simp add: pg_honest_def)
    with next_eq Pg_Reply_Lost show ?thesis
      by (intro that(2) [of "w\<lparr>db := snd (stmt (clock w) (db w)), gen := g\<rparr>"])
        (simp_all add: db_op_def on_db_def mapErrE_def pg_run_def api_of_data_internal)
  qed
qed

lemmas lookup_cases =
  served_cases [where stmt = "\<lambda>_. select_user (\<lambda>u. user_id u = i)" for i, folded find_by_id_def]
  served_cases [where stmt = "\<lambda>_. select_user (\<lambda>u. user_email u = e)" for e, folded find_by_email_def]
  served_cases [where stmt = "consume_reset_row h" for h, folded consume_reset_token_def]

text \<open>An insertion conflicts exactly if it is served and a key is taken.\<close>

lemma insertion_conflict:
  assumes "pg_honest L"
  shows "fst (db_op (\<lambda>t. mapErrE from_sqlx (pg_run_with_id L (\<lambda>i. stmt i t))) w) = Inl Conflict \<longleftrightarrow>
    (\<exists>i g. pg_uuid L (gen w) = (i, g) \<and> fst (pg_next L g) = Pg_Served
       \<and> fst (stmt i (clock w) (db w)) = Inl unique_violation)"
proof -
  obtain i g where id: "pg_uuid L (gen w) = (i, g)" by fastforce
  obtain x g' where next_eq: "pg_next L g = (x, g')" by fastforce
  have "e \<noteq> unique_violation" if "x = Pg_Refused e \<or> x = Pg_Reply_Lost e" for e
    using assms next_eq that unfolding pg_honest_def by blast
  with id next_eq show ?thesis
    by (cases x) (auto simp: db_op_def on_db_def mapErrE_def pg_run_with_id_def pg_run_def
        split: sum.split prod.split)
qed

section \<open>The codes of the handlers\<close>

lemma honest_answers:
  assumes "pg_honest (st_env St)"
  shows "answers {201, 409, 422, 500} (register St rg)" "answers {200, 401, 422, 500} (login St lg)"
    "answers {200, 401, 422, 500} (refresh St rf)" "answers {204, 401, 422, 500} (logout St lo)"
    "answers {204, 401, 422, 500} (change_password St c cp)" "answers {204, 500} (delete_me St c)"
    "answers {204, 500} (logout_all St c)" "answers {200, 503} (health St)"
    "answers {200, 409, 422, 500} (password_reset_request St rr)"
    "answers {200, 400, 422, 500} (password_reset_confirm St rc)"
proof -
  note intros = answer_intros honest_calls [OF assms]
  show "answers {201, 409, 422, 500} (register St rg)"
    unfolding register_def by (auto intro!: answer_intros errs_db_op)
  show "answers {200, 401, 422, 500} (login St lg)"
    unfolding login_def by (auto intro!: intros answers_issue_tokens split: option.split)
  show "answers {200, 401, 422, 500} (refresh St rf)"
    unfolding refresh_def by (auto intro!: intros answers_issue_tokens)
  show "answers {204, 401, 422, 500} (logout St lo)"
    unfolding logout_def by (auto intro!: intros)
  show "answers {204, 401, 422, 500} (change_password St c cp)"
    unfolding change_password_def by (auto intro!: intros)
  show "answers {204, 500} (delete_me St c)"
    unfolding delete_me_def by (auto intro!: intros)
  show "answers {204, 500} (logout_all St c)"
    unfolding logout_all_def by (auto intro!: intros)
  show "answers {200, 503} (health St)"
    unfolding health_def Let_def by (auto intro!: intros)
  show "answers {200, 409, 422, 500} (password_reset_request St rr)"
    unfolding password_reset_request_def
    by (auto intro!: answer_intros errs_db_op errs_on simp: generate_reset_token_def Let_def split: option.split)
  show "answers {200, 400, 422, 500} (password_reset_confirm St rc)"
    unfolding password_reset_confirm_def Let_def by (auto intro!: intros)
qed

text \<open>What is left after the checks of a handler cannot be refused any more.\<close>

lemma validated:
  "register_validate rg = Inl e \<Longrightarrow> status (into_response e) = 422"
  "login_validate lg = Inl e \<Longrightarrow> status (into_response e) = 422"
  "refresh_validate rf = Inl e \<Longrightarrow> status (into_response e) = 422"
  "logout_validate lo = Inl e \<Longrightarrow> status (into_response e) = 422"
  "change_password_validate cp = Inl e \<Longrightarrow> status (into_response e) = 422"
  "reset_request_validate rr = Inl e \<Longrightarrow> status (into_response e) = 422"
  "reset_confirm_validate rc = Inl e \<Longrightarrow> status (into_response e) = 422"
  by (auto dest!: validate_errors)

text \<open>422 is the answer to an invalid body and to no other.\<close>

lemma first_check:
  assumes "m = bindE (liftE v) f" and "\<And>e. v = Inl e \<Longrightarrow> status (into_response e) = 422"
    and "v = Inr () \<Longrightarrow> status_of (f ()) w \<noteq> 422"
  shows "status_of m w = 422 \<longleftrightarrow> v \<noteq> Inr ()"
  using assms by (cases v) (auto simp: status_of_bindE)

lemma logout_refused:
  fixes St :: "('r, 'g) app_state"
  shows "status_of (logout St lo) w = 401 \<longleftrightarrow> logout_validate lo = Inr ()
    \<and> (\<forall>c. verify_refresh (st_jwt_crate St) (st_jwt St) (logout_token lo) (clock w) \<noteq> Inr c)"
proof (cases "logout_validate lo")
  case (Inl e)
  with validated(4) [OF Inl] show ?thesis by (simp add: logout_def status_of_bindE)
next
  case (Inr u)
  define rest :: "claims \<Rightarrow> (('r, 'g) world, api_error, response) io" where "rest = (\<lambda>c.
    bindE (cache_op (revoke_refresh_token (st_redis St) (st_uuid St) (c_jti c))) (\<lambda>_. okE (respond 204 No_Body)))"
  have "answers {204, 500} (rest c)" for c unfolding rest_def by (auto intro!: answer_intros)
  from status_of_other [OF this] have rest: "status_of (rest c) w1 \<noteq> 401" for c w1 by simp
  have "logout St lo = bindE (liftE (logout_validate lo)) (\<lambda>_. bindE now (\<lambda>t.
      bindE (mapErrE (\<lambda>_. Unauthorized)
        (liftE (verify_refresh (st_jwt_crate St) (st_jwt St) (logout_token lo) t))) rest))"
    unfolding logout_def rest_def by simp
  with Inr rest show ?thesis
    by (cases "verify_refresh (st_jwt_crate St) (st_jwt St) (logout_token lo) (clock w)")
      (simp_all add: status_of_bindE now_def mapErrE_def)
qed

lemma change_password_refused:
  fixes St :: "('r, 'g) app_state"
  assumes "pg_honest (st_env St)"
  shows "status_of (change_password St c cp) w = 401 \<longleftrightarrow> change_password_validate cp = Inr ()
    \<and> fst (pg_next (st_env St) (gen w)) = Pg_Served
    \<and> (case user_with_id (db w) (c_sub c) of None \<Rightarrow> True
       | Some u \<Rightarrow> verify_hash (st_argon2_crate St) (st_passwords St) (current_password cp) (password_hash u) = Inr False)"
proof (cases "change_password_validate cp")
  case (Inl e)
  with validated(5) [OF Inl] show ?thesis by (simp add: change_password_def status_of_bindE)
next
  case (Inr x)
  define rest :: "(('r, 'g) world, api_error, response) io" where "rest =
    bindE (gen_op (\<lambda>_. hash_of (st_argon2_crate St) (st_env St) (st_passwords St) (new_password cp))) (\<lambda>new_hash.
    bindE (db_op (update_password (st_env St) (c_sub c) new_hash)) (\<lambda>_. okE (respond 204 No_Body)))"
  have "answers {204, 500} rest"
    unfolding rest_def by (auto intro!: answer_intros honest_calls [OF assms])
  from status_of_other [OF this] have rest: "status_of rest w1 \<noteq> 401" for w1 by simp
  have shape: "change_password St c cp = bindE (liftE (change_password_validate cp)) (\<lambda>_.
     bindE (db_op (\<lambda>_. find_by_id (st_env St) (c_sub c))) (\<lambda>found.
     bindE (ok_orE Unauthorized found) (\<lambda>user.
     bindE (domain_op (verify_hash (st_argon2_crate St) (st_passwords St) (current_password cp)
                   (password_hash user))) (\<lambda>verified.
     if \<not> verified then errE Unauthorized else rest))))"
    unfolding change_password_def rest_def by simp
  have hash: "status (into_response (api_of_domain e)) = 500" if "verify_hash A P pw h = Inl e" for A P pw h e
    using errs_verify_hash [OF that] by auto
  show ?thesis
  proof (rule lookup_cases(1) [OF assms, where w = w and i = "c_sub c"])
    show "fst (select_user (\<lambda>u. user_id u = c_sub c) (db w)) = Inr (user_with_id (db w) (c_sub c))"
      by (simp add: select_user_def user_with_id_def)
  next
    fix w1 assume found: "db_op (\<lambda>_. find_by_id (st_env St) (c_sub c)) w = (Inr (user_with_id (db w) (c_sub c)), w1)"
      and served: "fst (pg_next (st_env St) (gen w)) = Pg_Served"
    show ?thesis
    proof (cases "user_with_id (db w) (c_sub c)")
      case None
      with Inr found served show ?thesis by (simp add: shape status_of_bindE)
    next
      case (Some u)
      with Inr found served rest show ?thesis
        by (cases "verify_hash (st_argon2_crate St) (st_passwords St) (current_password cp) (password_hash u)")
          (auto simp: shape status_of_bindE domain_op_def mapErrE_def hash)
    qed
  next
    fix w1 assume "db_op (\<lambda>_. find_by_id (st_env St) (c_sub c)) w = (Inl Internal, w1)"
      and "fst (pg_next (st_env St) (gen w)) \<noteq> Pg_Served"
    with Inr show ?thesis by (simp add: shape status_of_bindE)
  qed
qed

lemma reset_confirm_refused:
  assumes "pg_honest (st_env St)"
  shows "status_of (password_reset_confirm St rc) w = 400 \<longleftrightarrow> reset_confirm_validate rc = Inr ()
    \<and> fst (pg_next (st_env St) (gen w)) = Pg_Served
    \<and> reset_owner (db w) (clock w) (token_digest (st_digest St) (rc_token rc)) = None"
proof (cases "reset_confirm_validate rc")
  case (Inl e)
  with validated(7) [OF Inl] show ?thesis by (simp add: password_reset_confirm_def status_of_bindE)
next
  case (Inr x)
  let ?hash = "token_digest (st_digest St) (rc_token rc)"
  define rest where "rest = (\<lambda>uid.
     bindE (gen_op (\<lambda>_. hash_of (st_argon2_crate St) (st_env St) (st_passwords St) (rc_new_password rc))) (\<lambda>new_hash.
     bindE (db_op (update_password (st_env St) uid new_hash)) (\<lambda>_.
     bindE (cache_op (revoke_all_sessions (st_redis St) (st_uuid St) uid)) (\<lambda>_.
     okE (respond 200 No_Body)))))"
  have "answers {200, 500} (rest uid)" for uid
    unfolding rest_def by (auto intro!: answer_intros honest_calls [OF assms])
  from status_of_other [OF this] have rest: "status_of (rest uid) w1 \<noteq> 400" for uid w1 by simp
  have shape: "password_reset_confirm St rc = bindE (liftE (reset_confirm_validate rc)) (\<lambda>_.
     bindE (db_op (consume_reset_token (st_env St) ?hash)) (\<lambda>consumed.
     bindE (ok_orE (BadRequest ''invalid or expired reset token'') consumed) rest))"
    unfolding password_reset_confirm_def rest_def by (simp add: Let_def)
  show ?thesis
  proof (rule lookup_cases(3) [OF assms, where w = w and h = ?hash])
    show "fst (consume_reset_row ?hash (clock w) (db w)) = Inr (reset_owner (db w) (clock w) ?hash)"
      by (simp add: consume_reset_row_def reset_owner_def)
  next
    fix w1 assume "db_op (consume_reset_token (st_env St) ?hash) w = (Inr (reset_owner (db w) (clock w) ?hash), w1)"
      and "fst (pg_next (st_env St) (gen w)) = Pg_Served"
    with Inr rest show ?thesis
      by (cases "reset_owner (db w) (clock w) ?hash") (simp_all add: shape status_of_bindE)
  next
    fix w1 assume "db_op (consume_reset_token (st_env St) ?hash) w = (Inl Internal, w1)"
      and "fst (pg_next (st_env St) (gen w)) \<noteq> Pg_Served"
    with Inr show ?thesis by (simp add: shape status_of_bindE)
  qed
qed

lemma register_conflicts:
  assumes "pg_honest (st_env St)"
  shows "status_of (register St rg) w = 409 \<longleftrightarrow> register_validate rg = Inr ()
    \<and> (\<exists>h g i g1. hash_of (st_argon2_crate St) (st_env St) (st_passwords St) (reg_password rg) (gen w) = (Inr h, g)
        \<and> pg_uuid (st_env St) g = (i, g1) \<and> fst (pg_next (st_env St) g1) = Pg_Served
        \<and> (user_with_email (db w) (reg_email rg) \<noteq> None \<or> user_with_id (db w) i \<noteq> None))"
proof (cases "register_validate rg")
  case (Inl e)
  with validated(1) [OF Inl] show ?thesis by (simp add: register_def status_of_bindE)
next
  case (Inr x)
  let ?hash = "hash_of (st_argon2_crate St) (st_env St) (st_passwords St) (reg_password rg) (gen w)"
  obtain y g where y: "?hash = (y, g)" by fastforce
  show ?thesis
  proof (cases y)
    case (Inl e)
    then have "api_of_domain e = Internal" using y errs_hash_of unfolding errs_def by fastforce
    with Inr y Inl show ?thesis by (simp add: register_def status_of_bindE gen_op_def on_gen_def mapErrE_def)
  next
    case h: (Inr h)
    let ?create = "db_op (create_user (st_env St) (reg_email rg) h) (w\<lparr>gen := g\<rparr>)"
    have "status_of (register St rg) w = 409 \<longleftrightarrow> fst ?create = Inl Conflict"
    proof (cases ?create)
      case (Pair z w2)
      with Inr y h show ?thesis
        by (cases z) (auto simp: register_def status_of_bindE gen_op_def on_gen_def mapErrE_def db_op_def
            split: prod.splits sum.splits if_splits)
    qed
    also have "\<dots> \<longleftrightarrow> (\<exists>i g1. pg_uuid (st_env St) g = (i, g1) \<and> fst (pg_next (st_env St) g1) = Pg_Served
        \<and> fst (insert_user i (reg_email rg) h (clock w) (db w)) = Inl unique_violation)"
      unfolding create_user_def
      using insertion_conflict [OF assms, of "\<lambda>i. insert_user i (reg_email rg) h" "w\<lparr>gen := g\<rparr>"] by simp
    also have "\<dots> \<longleftrightarrow> (\<exists>i g1. pg_uuid (st_env St) g = (i, g1) \<and> fst (pg_next (st_env St) g1) = Pg_Served
        \<and> (user_with_email (db w) (reg_email rg) \<noteq> None \<or> user_with_id (db w) i \<noteq> None))"
      by (auto simp: insert_user_def Let_def user_with_email_None_iff user_with_id_None_iff)
    finally show ?thesis using Inr y h by simp
  qed
qed

lemma reset_request_conflicts:
  assumes "pg_honest (st_env St)"
  shows "status_of (password_reset_request St rr) w = 409 \<longleftrightarrow> reset_request_validate rr = Inr ()
    \<and> fst (pg_next (st_env St) (gen w)) = Pg_Served
    \<and> (\<exists>u bytes g1 i g2. user_with_email (db w) (rr_email rr) = Some u
        \<and> fill_bytes (st_env St) 32 (snd (pg_next (st_env St) (gen w))) = (bytes, g1)
        \<and> pg_uuid (st_env St) g1 = (i, g2) \<and> fst (pg_next (st_env St) g2) = Pg_Served
        \<and> (\<exists>r \<in> set (reset_rows (db w)). row_id r = i
             \<or> token_hash r = token_digest (st_digest St) (hex_encode (st_digest St) bytes)))"
proof (cases "reset_request_validate rr")
  case (Inl e)
  with validated(6) [OF Inl] show ?thesis by (simp add: password_reset_request_def status_of_bindE)
next
  case (Inr x)
  let ?e = "rr_email rr" and ?next = "pg_next (st_env St) (gen w)"
  show ?thesis
  proof (rule lookup_cases(2) [OF assms, where w = w and e = ?e])
    show "fst (select_user (\<lambda>u. user_email u = ?e) (db w)) = Inr (user_with_email (db w) ?e)"
      by (simp add: select_user_def user_with_email_def)
  next
    fix w1 assume f: "db_op (\<lambda>_. find_by_email (st_env St) ?e) w = (Inr (user_with_email (db w) ?e), w1)"
      and served: "fst ?next = Pg_Served"
    note w1 = conjunct2 [OF found_email_op [OF f]]
    show ?thesis
    proof (cases "user_with_email (db w) ?e")
      case None
      with Inr f show ?thesis by (simp add: password_reset_request_def status_of_bindE)
    next
      case (Some u)
      obtain bytes g1 where draw: "fill_bytes (st_env St) 32 (snd ?next) = (bytes, g1)" by fastforce
      let ?raw = "hex_encode (st_digest St) bytes"
      let ?hash = "token_digest (st_digest St) ?raw"
      let ?create = "db_op (\<lambda>_. create_reset_token (st_env St) (user_id u) ?hash (clock w + secs 900)) (w1\<lparr>gen := g1\<rparr>)"
      have gen: "on_gen (\<lambda>_. generate_reset_token (st_digest St) (st_env St)) w1
          = (Inr (?raw, ?hash) :: api_error + _, w1\<lparr>gen := g1\<rparr>)"
        using draw by (simp add: on_gen_def generate_reset_token_def bindE_def drawE_def Let_def w1)
      have "status_of (password_reset_request St rr) w = 409 \<longleftrightarrow> fst ?create = Inl Conflict"
      proof (cases ?create)
        case (Pair z w2)
        have "clock w1 = clock w" by (simp add: w1)
        with Pair Inr f Some gen show ?thesis
          by (cases z) (simp_all add: password_reset_request_def status_of_bindE bindE_assoc now_def status_409 attemptE_def
              split: prod.split)
      qed
      also have "\<dots> \<longleftrightarrow> (\<exists>i g2. pg_uuid (st_env St) g1 = (i, g2) \<and> fst (pg_next (st_env St) g2) = Pg_Served
          \<and> fst (insert_reset_row i (user_id u) ?hash (clock w + secs 900) (db w)) = Inl unique_violation)"
        unfolding create_reset_token_def
        using insertion_conflict [OF assms, of "\<lambda>i _. insert_reset_row i (user_id u) ?hash (clock w + secs 900)"
            "w1\<lparr>gen := g1\<rparr>"] by (simp add: w1)
      also have "\<dots> \<longleftrightarrow> (\<exists>i g2. pg_uuid (st_env St) g1 = (i, g2) \<and> fst (pg_next (st_env St) g2) = Pg_Served
          \<and> (\<exists>r \<in> set (reset_rows (db w)). row_id r = i \<or> token_hash r = ?hash))"
        by (auto simp: insert_reset_row_def unique_violation_def foreign_key_violation_def split: if_splits)
      finally show ?thesis using Inr served Some draw by simp
    qed
  next
    fix w1 assume "db_op (\<lambda>_. find_by_email (st_env St) ?e) w = (Inl Internal, w1)" and "fst ?next \<noteq> Pg_Served"
    with Inr show ?thesis by (simp add: password_reset_request_def status_of_bindE)
  qed
qed

section \<open>Invalid bodies\<close>

text \<open>An invalid body is answered 422, and nothing else is.\<close>

lemma invalid_bodies:
  assumes "pg_honest (st_env St)"
  shows "status_of (register St rg) w = 422 \<longleftrightarrow> register_validate rg \<noteq> Inr ()"
    "status_of (login St lg) w = 422 \<longleftrightarrow> login_validate lg \<noteq> Inr ()"
    "status_of (refresh St rf) w = 422 \<longleftrightarrow> refresh_validate rf \<noteq> Inr ()"
    "status_of (logout St lo) w = 422 \<longleftrightarrow> logout_validate lo \<noteq> Inr ()"
    "status_of (change_password St c cp) w = 422 \<longleftrightarrow> change_password_validate cp \<noteq> Inr ()"
    "status_of (password_reset_request St rr) w = 422 \<longleftrightarrow> reset_request_validate rr \<noteq> Inr ()"
    "status_of (password_reset_confirm St rc) w = 422 \<longleftrightarrow> reset_confirm_validate rc \<noteq> Inr ()"
proof -
  note intros = answer_intros honest_calls [OF assms]
  show "status_of (register St rg) w = 422 \<longleftrightarrow> register_validate rg \<noteq> Inr ()"
    by (rule first_check [OF register_def], erule validated, rule status_of_other [where S = "{201, 409, 500}"])
      (auto intro!: answer_intros errs_db_op)
  show "status_of (login St lg) w = 422 \<longleftrightarrow> login_validate lg \<noteq> Inr ()"
    by (rule first_check [OF login_def], erule validated, rule status_of_other [where S = "{200, 401, 500}"])
      (auto intro!: intros answers_issue_tokens split: option.split)
  show "status_of (refresh St rf) w = 422 \<longleftrightarrow> refresh_validate rf \<noteq> Inr ()"
    by (rule first_check [OF refresh_def], erule validated, rule status_of_other [where S = "{200, 401, 500}"])
      (auto intro!: intros answers_issue_tokens)
  show "status_of (logout St lo) w = 422 \<longleftrightarrow> logout_validate lo \<noteq> Inr ()"
    by (rule first_check [OF logout_def], erule validated, rule status_of_other [where S = "{204, 401, 500}"])
      (auto intro!: intros)
  show "status_of (change_password St c cp) w = 422 \<longleftrightarrow> change_password_validate cp \<noteq> Inr ()"
    by (rule first_check [OF change_password_def], erule validated, rule status_of_other [where S = "{204, 401, 500}"])
      (auto intro!: intros)
  show "status_of (password_reset_request St rr) w = 422 \<longleftrightarrow> reset_request_validate rr \<noteq> Inr ()"
    by (rule first_check [OF password_reset_request_def], erule validated,
        rule status_of_other [where S = "{200, 409, 500}"])
      (auto intro!: answer_intros errs_db_op errs_on simp: generate_reset_token_def Let_def split: option.split)
  show "status_of (password_reset_confirm St rc) w = 422 \<longleftrightarrow> reset_confirm_validate rc \<noteq> Inr ()"
    by (rule first_check [OF password_reset_confirm_def], erule validated,
        rule status_of_other [where S = "{200, 400, 500}"])
      (auto intro!: intros simp: Let_def)
qed

end
