(* ===== verification/Domain_Properties.thy ===== *)
theory Domain_Properties
  imports Refusals Reference_Service
begin

text \<open>
  Properties of the domain layer and of the surface: tokens and password hashes as round trips, when
  a handler refuses and with which status code, the health check, and the mail client.
\<close>

section \<open>Tokens\<close>

text \<open>
  C25. A signed token verifies as what it was signed as, for its lifetime. An access token is accepted
  until 900 seconds after it was signed, a refresh token until 604800 seconds, both plus the leeway of
  the library; the claims are those that were signed; and neither kind is ever accepted as the other.
\<close>

theorem signed_tokens_verify:
  assumes "jwt_library J keypair" and "from_ed25519_pem J priv pub = Inr M"
    and "keypair (encoding_key M) (decoding_key M)"
  shows "(sign_access_token J E M uid email n g = (Inr tok, g1) \<longrightarrow>
      verify_access J M tok t
        = (if timestamp t \<le> timestamp n + 900 + jwt_leeway J
           then Inr \<lparr>c_sub = uid, c_email = email, c_iat = timestamp n, c_exp = timestamp n + 900,
                     c_jti = fst (new_v4 E g), c_kind = Access\<rparr>
           else Inl (InvalidToken Expired_Signature))
      \<and> verify_refresh J M tok t \<noteq> Inr c)
    \<and> (sign_refresh_token J E M uid email n g = (Inr (tok, j), g1) \<longrightarrow>
      verify_refresh J M tok t
        = (if timestamp t \<le> timestamp n + 604800 + jwt_leeway J
           then Inr \<lparr>c_sub = uid, c_email = email, c_iat = timestamp n, c_exp = timestamp n + 604800,
                     c_jti = j, c_kind = Refresh\<rparr>
           else Inl (InvalidToken Expired_Signature))
      \<and> verify_access J M tok t \<noteq> Inr c)"
proof -
  have ttl: "access_ttl M = secs 900" "refresh_ttl M = secs 604800"
    using assms(2) by (auto simp: from_ed25519_pem_def split: sum.splits)
  note d = jwt_library.decode_signed [OF assms(1,3)]
  have "verify_access J M tok t
        = (if timestamp t \<le> timestamp n + 900 + jwt_leeway J
           then Inr \<lparr>c_sub = uid, c_email = email, c_iat = timestamp n, c_exp = timestamp n + 900,
                     c_jti = fst (new_v4 E g), c_kind = Access\<rparr>
           else Inl (InvalidToken Expired_Signature))
      \<and> verify_refresh J M tok t \<noteq> Inr c"
    if "sign_access_token J E M uid email n g = (Inr tok, g1)"
  proof -
    from that obtain x where "sign_with_claims J E M uid email (secs 900) Access n g = (Inr (tok, x), g1)"
      unfolding sign_access_token_def ttl by (auto elim!: bindE_InrE)
    from d(1) [OF this] d(3) [OF this] show ?thesis by (simp add: verify_access_def verify_refresh_def)
  qed
  moreover have "verify_refresh J M tok t
        = (if timestamp t \<le> timestamp n + 604800 + jwt_leeway J
           then Inr \<lparr>c_sub = uid, c_email = email, c_iat = timestamp n, c_exp = timestamp n + 604800,
                     c_jti = j, c_kind = Refresh\<rparr>
           else Inl (InvalidToken Expired_Signature))
      \<and> verify_access J M tok t \<noteq> Inr c"
    if "sign_refresh_token J E M uid email n g = (Inr (tok, j), g1)"
  proof -
    from that obtain x where "sign_with_claims J E M uid email (secs 604800) Refresh n g = (Inr (tok, x), g1)"
      and "j = c_jti x"
      unfolding sign_refresh_token_def ttl by (auto elim!: bindE_InrE)
    with d(1) [OF this(1)] d(3) [OF this(1)] show ?thesis by (simp add: verify_access_def verify_refresh_def)
  qed
  ultimately show ?thesis by blast
qed

lemma signed_tokens_verify_witness:
  "\<exists>tok g1. sign_access_token ref_jwt ref_env ref_manager 1 ''a@b.c'' 0 (7, [], []) = (Inr tok, g1)
    \<and> verify_access ref_jwt ref_manager tok (secs 901 + secs (jwt_leeway ref_jwt)) = Inl (InvalidToken Expired_Signature)"
proof -
  have "\<exists>tok g1. sign_access_token ref_jwt ref_env ref_manager 1 ''a@b.c'' 0 (7, [], []) = (Inr tok, g1)"
    by (simp add: eval_monad eval_services eval_library Let_def cong: eval_cong)
  then obtain tok g1 where run: "sign_access_token ref_jwt ref_env ref_manager 1 ''a@b.c'' 0 (7, [], []) = (Inr tok, g1)"
    by blast
  have key: "encoding_key ref_manager = decoding_key ref_manager" by (simp add: ref_manager_def)
  have late: "timestamp (secs 901 + secs x) = 901 + x" "timestamp 0 = 0" for x
    by (simp_all add: timestamp_def secs_def)
  note verifies = signed_tokens_verify [OF ref_jwt.jwt_library_axioms ref_services(1) key,
      THEN conjunct1, THEN mp, OF run, THEN conjunct1]
  have "verify_access ref_jwt ref_manager tok (secs 901 + secs (jwt_leeway ref_jwt)) = Inl (InvalidToken Expired_Signature)"
    unfolding verifies late by simp
  with run show ?thesis by blast
qed

section \<open>Passwords\<close>

text \<open>
  A stored hash accepts the password that it was made of and no other, whatever salt was drawn;
  a text that is not a hash is an error of the service (500), not a wrong password.
\<close>

theorem password_hash_roundtrip:
  assumes "password_binding A" and "hash_of A E P pw g = (Inr h, g')"
  shows "verify_hash A P pw' h = Inr (pw' = pw)
    \<and> (password_hash_new A junk = Inl e \<longrightarrow>
        verify_hash A P pw' junk = Inl (Hashing e) \<and> status (into_response (api_of_domain (Hashing e))) = 500)"
  using password_binding.verify_hash_iff [OF assms] by (simp add: verify_hash_def)

lemma password_hash_roundtrip_witness:
  "\<exists>h g'. hash_of ref_argon2 ref_env ref_passwords ''password1'' (1, [], []) = (Inr h, g')
    \<and> verify_hash ref_argon2 ref_passwords ''password1'' h = Inr True
    \<and> verify_hash ref_argon2 ref_passwords ''password2'' h = Inr False"
proof -
  have "\<exists>h g'. hash_of ref_argon2 ref_env ref_passwords ''password1'' (1, [], []) = (Inr h, g')"
    by (simp add: hash_of_def bindE_def drawE_def mapErrE_def ref_env_def ref_argon2_def)
  then obtain h g' where run: "hash_of ref_argon2 ref_env ref_passwords ''password1'' (1, [], []) = (Inr h, g')"
    by blast
  have "verify_hash ref_argon2 ref_passwords pw' h = Inr (pw' = ''password1'')" for pw'
    using password_hash_roundtrip [OF ref_argon2.password_binding_axioms run] by blast
  from this [of "''password1''"] this [of "''password2''"]
  have "verify_hash ref_argon2 ref_passwords ''password1'' h = Inr True"
    "verify_hash ref_argon2 ref_passwords ''password2'' h = Inr False" by simp_all
  with run show ?thesis by blast
qed

section \<open>Refusals\<close>



section \<open>Health\<close>

text \<open>
  C39. The health check answers 200 exactly if the database runs a statement and the cache accepts a
  connection and a ping, and 503 otherwise; its body names the part that fails; users, reset tokens and
  the keyspace of the cache stay as they are.
\<close>

theorem health_reports_services:
  assumes "redis_service (st_redis St) \<alpha>"
  shows "\<exists>db_up redis_up w'. health St w = (Inr (respond (if db_up \<and> redis_up then 200 else 503)
        (Health_Response (if db_up then ''ok'' else ''error'') (if redis_up then ''ok'' else ''error''))), w')
    \<and> (db_up \<longleftrightarrow> fst (pg_next (st_env St) (gen w)) = Pg_Served)
    \<and> (redis_up \<longleftrightarrow> (\<exists>r1 r2 rep. rd_connect (st_redis St) (cache w) = (Inr (), r1)
         \<and> rd_exec (st_redis St) PING (clock w) r1 = (Inr rep, r2)))
    \<and> db w' = db w \<and> \<alpha> (cache w') = \<alpha> (cache w)"
proof -
  let ?probe = "\<lambda>t. bindE (rd_connect (st_redis St)) (\<lambda>_. rd_exec (st_redis St) PING t)"
  obtain x d g where db: "pg_run (st_env St) (\<lambda>d. (Inr (), d)) (db w, gen w) = (x, (d, g))"
    by (metis prod.collapse)
  have d: "d = db w" using pg_run_state [OF db] by auto
  have up: "x \<in> range Inr \<longleftrightarrow> fst (pg_next (st_env St) (gen w)) = Pg_Served"
    using db by (auto simp: pg_run_def split: prod.splits pg_outcome.splits)
  obtain y c where probe: "?probe (clock w) (cache w) = (y, c)" by fastforce
  have "keeps (\<lambda>r. \<alpha> r = \<alpha> (cache w)) (?probe (clock w))"
    by (intro steps_rules redis_service.keeps_connect [OF assms] redis_service.keeps_exec [OF assms]) simp
  from stepsD [OF this probe] have c: "\<alpha> c = \<alpha> (cache w)" by simp
  have ping: "y \<in> range Inr \<longleftrightarrow> (\<exists>r1 r2 rep. rd_connect (st_redis St) (cache w) = (Inr (), r1)
         \<and> rd_exec (st_redis St) PING (clock w) r1 = (Inr rep, r2))"
    using probe by (auto simp: bindE_def split: prod.splits sum.splits)
  have run: "on_db (\<lambda>_. pg_run (st_env St) (\<lambda>d. (Inr (), d))) w = (x, w\<lparr>db := d, gen := g\<rparr>)"
    "on_cache ?probe (w\<lparr>db := d, gen := g\<rparr>) = (y, w\<lparr>db := d, gen := g, cache := c\<rparr>)"
    using db probe by (simp_all add: on_iffs)
  have "health St w = (Inr (respond (if x \<in> range Inr \<and> y \<in> range Inr then 200 else 503)
        (Health_Response (if x \<in> range Inr then ''ok'' else ''error'') (if y \<in> range Inr then ''ok'' else ''error''))),
      w\<lparr>db := d, gen := g, cache := c\<rparr>)"
    unfolding health_def bindE_attemptE [where m = "on_db _", OF run(1)]
      bindE_attemptE [where m = "on_cache _", OF run(2)]
    by (cases x; cases y) auto
  with up ping d c show ?thesis by (intro exI conjI) (assumption | simp)+
qed

lemma health_reports_services_witness:
  "\<exists>w'. health ref_state ref_world = (Inr (respond 200 (Health_Response ''ok'' ''ok'')), w')"
proof -
  have db: "fst (pg_next (st_env ref_state) (gen ref_world)) = Pg_Served"
    by (simp add: ref_env_def ref_world_def)
  have redis: "\<exists>r1 r2 rep. rd_connect (st_redis ref_state) (cache ref_world) = (Inr (), r1)
         \<and> rd_exec (st_redis ref_state) PING (clock ref_world) r1 = (Inr rep, r2)"
    by (simp add: ref_world_def sim_connect_def sim_exec_def sim_next_def)
  from health_reports_services [OF ref_redis, of ref_world] db redis show ?thesis by auto
qed

section \<open>Mails\<close>

text \<open>
  Sending a reset mail. With Postmark it is one POST to its address with the server token and the
  five fields, and it succeeds exactly if the answer has a status from 200 to 299; an unreachable server
  and a refusal are errors that carry what was received. A capturing client appends the address and the
  link and never fails. Nothing but the capturing client adds to the captured mails.
\<close>

theorem send_password_reset_outcome:
  "send_password_reset E (email_client_new key from_email) to link (g, snt)
      = (case http_post E ''https://api.postmarkapp.com/email'' [(''X-Postmark-Server-Token'', key)]
             [(''From'', from_email), (''To'', to), (''Subject'', ''Reset your password''),
              (''TextBody'', ''Use the link below to reset your password.'' @ [CHR 0x0A]
                 @ ''It expires in 15 minutes.'' @ [CHR 0x0A, CHR 0x0A] @ link),
              (''MessageStream'', ''outbound'')] g of
           (Inl e, g') \<Rightarrow> (Inl (Unreachable e), (g', snt))
         | (Inr res, g') \<Rightarrow> (if http_status res \<in> {200..299} then Inr ()
             else Inl (Postmark_Returned (http_status res) (case http_text res of None \<Rightarrow> [] | Some txt \<Rightarrow> txt)),
             (g', snt)))
    \<and> send_password_reset E (fst email_client_capturing) to link (g, snt) = (Inr (), (g, snt @ [(to, link)]))
    \<and> snd email_client_capturing = []"
  by (auto simp: send_password_reset_def email_client_new_def email_client_capturing_def reset_mail_def
      newline_def is_success_def split: prod.split sum.split)

end
