(* ===== verification/Refresh_Chain.thy ===== *)
theory Refresh_Chain
  imports Handler_Outcome
begin

text \<open>
  A client that stays logged in: it exchanges its refresh token again and again, each time for the one
  it uses next. While the services answer and it never waits for seven days, it always succeeds.
\<close>

text \<open>The waiting times before each exchange; the result is the last token, or \<open>None\<close> after a failure.\<close>

fun refresh_chain ::
    "('r, 'g) app_state \<Rightarrow> duration list \<Rightarrow> string \<Rightarrow> ('r, 'g) world \<Rightarrow> string option \<times> ('r, 'g) world" where
  "refresh_chain St [] tok w = (Some tok, w)"
| "refresh_chain St (d # ds) tok w =
     (case refresh St \<lparr>refresh_token = tok\<rparr> (w\<lparr>clock := clock w + d\<rparr>) of
        (Inl e, w1) \<Rightarrow> (None, w1)
      | (Inr res, w1) \<Rightarrow>
          (case body res of Login_Response a r \<Rightarrow> refresh_chain St ds r w1 | _ \<Rightarrow> (None, w1)))"

text \<open>The token is the text of a session of \<open>u\<close> for the next seven days.\<close>

definition stands_for ::
    "('r, 'g) app_state \<Rightarrow> ('r \<Rightarrow> keyspace) \<Rightarrow> string \<Rightarrow> uuid \<Rightarrow> ('r, 'g) world \<Rightarrow> bool" where
  "stands_for St \<alpha> tok u w \<longleftrightarrow> tok \<noteq> [] \<and>
     (\<exists>j. (\<forall>t. timestamp t \<le> timestamp (clock w) + session_secs \<longrightarrow>
            (\<exists>c. verify_refresh (st_jwt_crate St) (st_jwt St) tok t = Inr c \<and> c_jti c = j \<and> c_sub c = u))
        \<and> (\<forall>t\<ge>clock w. t < clock w + secs session_secs \<longrightarrow>
            session_of (st_uuid St) t (\<alpha> (cache w)) j = Some u))"

lemma timestamp_mono: "s \<le> t \<Longrightarrow> timestamp s \<le> timestamp t"
  by (simp add: timestamp_def zdiv_mono1)

context auth_service begin

lemma chain_log: "suffix (drawn (gen w)) (drawn (gen (snd (refresh_chain St ds tok w))))"
proof (induction ds arbitrary: tok w)
  case (Cons d ds)
  obtain x w1 where run: "refresh St \<lparr>refresh_token = tok\<rparr> (w\<lparr>clock := clock w + d\<rparr>) = (x, w1)" by fastforce
  have "suffix (drawn (gen w)) (drawn (gen w1))"
    using stepsD [OF evolves_refresh run] by (simp add: evo_def)
  with Cons.IH run show ?case
    by (auto split: sum.split body.split intro: suffix_order.trans)
qed simp

text \<open>What an exchange hands out stands for the same subject.\<close>

lemma refresh_stands_for:
  assumes inv: "svc_inv St \<alpha> drawn N w" and fresh: "distinct (drawn (gen w'))"
    and run: "refresh St b w = (Inr (respond 200 (Login_Response a r)), w')"
    and c: "verify_refresh (st_jwt_crate St) (st_jwt St) (refresh_token b) (clock w) = Inr c"
    and nonempty: "\<forall>x tok. jwt_encode (st_jwt_crate St) EdDSA x (encoding_key (st_jwt St)) = Inr tok \<longrightarrow> tok \<noteq> []"
  shows "stands_for St \<alpha> r (c_sub c) w' \<and> clock w' = clock w \<and> (\<exists>N'. svc_inv St \<alpha> drawn N' w')"
proof -
  from inv run obtain c' w1 where c': "verify_refresh (st_jwt_crate St) (st_jwt St) (refresh_token b) (clock w) = Inr c'"
    and e: "evo St \<alpha> drawn N w w1" and w1: "clock w1 = clock w"
    and i: "issue_tokens St (c_sub c') (c_email c') w1 = (Inr (respond 200 (Login_Response a r)), w')"
    by (rule refresh_ok) blast
  have e2: "evo St \<alpha> drawn N w1 w'" using i by (rule stepsD [OF evolves_issue])
  then have d1: "distinct (drawn (gen w1))" using fresh by (auto simp: evo_def intro: suffix_distinct)
  note inv1 = evoD(1) [OF e inv d1]
  have "\<exists>x. jwt_encode (st_jwt_crate St) EdDSA x (encoding_key (st_jwt St)) = Inr r"
    using i unfolding issue_tokens_def sign_refresh_token_def sign_with_claims_def Let_def
    by (elim bindE_InrE) (auto elim!: bindE_InrE gen_op_InrE simp: respond_def split: prod.splits)
  then have "r \<noteq> []" using nonempty by blast
  show ?thesis
  proof (rule issue_tokens_alive [OF inv1 fresh i])
    fix a' r' j
    assume *: "respond 200 (Login_Response a r) = respond 200 (Login_Response a' r')" "clock w' = clock w1"
      "\<And>t. timestamp t \<le> timestamp (clock w1) + session_secs \<Longrightarrow>
        \<exists>c. verify_refresh (st_jwt_crate St) (st_jwt St) r' t = Inr c \<and> c_jti c = j \<and> c_sub c = c_sub c'"
      "\<And>t. clock w1 \<le> t \<Longrightarrow> session_of (st_uuid St) t (\<alpha> (cache w'))
        = (session_of (st_uuid St) t (\<alpha> (cache w1))) (j := if t < clock w1 + secs session_secs then Some (c_sub c') else None)"
    have "r' = r" "c' = c" using *(1) c c' by (simp_all add: respond_def)
    with * \<open>r \<noteq> []\<close> have "stands_for St \<alpha> r (c_sub c) w'" unfolding stands_for_def by auto
    with *(2) w1 evoD(1) [OF e2 inv1 fresh] show ?thesis by auto
  qed
qed

end

context available_service begin

lemma refresh_chain_succeeds:
  assumes "svc_inv St \<alpha> drawn N w" and "up (cache w)" and "calm (gen w)" and "stands_for St \<alpha> tok u w"
    and nonempty: "\<forall>x tok. jwt_encode (st_jwt_crate St) EdDSA x (encoding_key (st_jwt St)) = Inr tok \<longrightarrow> tok \<noteq> []"
    and "\<forall>d \<in> set ds. 0 \<le> d \<and> d < secs session_secs"
    and "distinct (drawn (gen (snd (refresh_chain St ds tok w))))"
  shows "\<exists>tok' w'. refresh_chain St ds tok w = (Some tok', w') \<and> stands_for St \<alpha> tok' u w'"
  using assms(1-4,6,7)
proof (induction ds arbitrary: tok w N)
  case (Cons d ds)
  let ?w = "w\<lparr>clock := clock w + d\<rparr>" and ?b = "\<lparr>refresh_token = tok\<rparr>"
  have d: "0 \<le> d" "d < secs session_secs" using Cons.prems(5) by simp_all
  have inv: "svc_inv St \<alpha> drawn N ?w" using svc_inv_tick [OF Cons.prems(1) d(1)] .
  have "timestamp (clock w + d) \<le> timestamp (clock w + secs session_secs)"
    using d(2) by (intro timestamp_mono) simp
  then have "timestamp (clock w + d) \<le> timestamp (clock w) + session_secs" by simp
  with Cons.prems(4) d obtain c where tok: "tok \<noteq> []"
    and c: "verify_refresh (st_jwt_crate St) (st_jwt St) tok (clock ?w) = Inr c" "c_sub c = u"
    and s: "session_of (st_uuid St) (clock ?w) (\<alpha> (cache ?w)) (c_jti c) = Some u"
    unfolding stands_for_def by fastforce
  have "refresh_spec St \<alpha> ?b ?w = Inr c"
    using tok c s by (simp add: refresh_spec_def refresh_validate_def)
  with refresh_outcome_kept [OF inv, of ?b] Cons.prems(2,3) obtain a r w1 where
    run: "refresh St ?b ?w = (Inr (respond 200 (Login_Response a r)), w1)" "up (cache w1)" "calm (gen w1)"
    by auto
  have chain: "refresh_chain St (d # ds) tok w = refresh_chain St ds r w1" by (simp add: run(1))
  have fresh: "distinct (drawn (gen w1))"
    using Cons.prems(6) chain_log [of w1 ds r] unfolding chain by (auto intro: suffix_distinct)
  from c(1) have "verify_refresh (st_jwt_crate St) (st_jwt St) (refresh_token ?b) (clock ?w) = Inr c" by simp
  from refresh_stands_for [OF inv fresh run(1) this nonempty] c(2) obtain N' where
    "stands_for St \<alpha> r u w1" "svc_inv St \<alpha> drawn N' w1" by blast
  with Cons.IH [of N' w1 r] run(2,3) Cons.prems(5,6) show ?case unfolding chain by simp
qed simp

end

end
