(* ===== verification/Account_Properties.thy ===== *)
theory Account_Properties
  imports Reference_Service Refresh_Chain
begin

text \<open>
  Properties of accounts across the components: registration and login, the tokens that a login issues,
  the change and the reset of a password, the deletion of an account and what it leaves behind.
\<close>

section \<open>Registration and login\<close>

text \<open>
  C15. The tokens of a login. A login in a reachable state that answers 200 was made with the password of
  an address that is not locked. The access token authenticates that user for 900 seconds and the
  refresh token, whose id is new, stands for that user for seven days; the other sessions, the users and
  the reset tokens stay; and the failures recorded for the address are forgotten.
\<close>

theorem login_issues_tokens:
  assumes "auth_service St \<alpha> keypair drawn" and "reachable rs St L \<alpha> (w, H)"
    and "login St b w = (Inr res, w')" and "distinct (drawn (gen w'))"
  shows "\<exists>user a r j. res = respond 200 (Login_Response a r)
    \<and> user_with_email (db w) (login_email b) = Some user
    \<and> verify_hash (st_argon2_crate St) (st_passwords St) (login_password b) (password_hash user) = Inr True
    \<and> lockout_failures (clock w) (\<alpha> (cache w)) (login_email b) < 10
    \<and> (\<forall>t\<ge>clock w. timestamp t \<le> timestamp (clock w) + 900 \<longrightarrow>
         (\<exists>c. verify_access (st_jwt_crate St) (st_jwt St) a t = Inr c \<and> c_sub c = user_id user
            \<and> c_email c = user_email user))
    \<and> (\<exists>c. verify_refresh (st_jwt_crate St) (st_jwt St) r (clock w) = Inr c \<and> c_jti c = j \<and> c_sub c = user_id user)
    \<and> j \<notin> fst ` H
    \<and> (\<forall>t\<ge>clock w. session_of (st_uuid St) t (\<alpha> (cache w')) = (session_of (st_uuid St) t (\<alpha> (cache w)))
         (j := if t < clock w + secs 604800 then Some (user_id user) else None))
    \<and> db w' = db w \<and> (\<forall>t. lockout_failures t (\<alpha> (cache w')) (login_email b) = 0)"
proof -
  have "suffix (drawn (gen w)) (drawn (gen w'))"
    using stepsD [OF auth_service.evolves_login [OF assms(1)] assms(3)] by (simp add: evo_def)
  then have "distinct (drawn (gen w))" using assms(4) by (auto intro: suffix_distinct)
  note inv = auth_service.reachable_svc(2) [OF assms(1,2) this]
  obtain user w1 where u: "user_with_email (db w) (login_email b) = Some user"
    and low: "lockout_failures (clock w) (\<alpha> (cache w)) (login_email b) < 10"
    and ver: "verify_hash (st_argon2_crate St) (st_passwords St) (login_password b) (password_hash user) = Inr True"
    and e: "evo St \<alpha> drawn (fst ` H) w w1" and w1: "db w1 = db w" "clock w1 = clock w"
    and c1: "\<alpha> (cache w1) = (\<alpha> (cache w))(lockout_key (login_email b) := None)"
    and i: "issue_tokens St (user_id user) (user_email user) w1 = (Inr res, w')"
    by (rule auth_service.login_ok [OF assms(1) inv assms(3)]) (rule that, assumption+)
  have "suffix (drawn (gen w1)) (drawn (gen w'))"
    using stepsD [OF auth_service.evolves_issue [OF assms(1)] i] by (simp add: evo_def)
  then have d1: "distinct (drawn (gen w1))" using assms(4) by (auto intro: suffix_distinct)
  note inv1 = evoD(1) [OF e inv d1]
  have codec: "uuid_codec (st_uuid St)" using assms(1) by (simp add: auth_service_def session_cache_def)
  have same: "session_of (st_uuid St) t (\<alpha> (cache w1)) = session_of (st_uuid St) t (\<alpha> (cache w))" for t
    by (intro ext uuid_codec.session_of_cong [OF codec]) (simp add: c1)
  obtain a r j where tok: "res = respond 200 (Login_Response a r)" "j \<notin> set (drawn (gen w1))" "db w' = db w1"
    and good: "\<And>t. timestamp t \<le> timestamp (clock w1) + 900 \<Longrightarrow>
        \<exists>c. verify_access (st_jwt_crate St) (st_jwt St) a t = Inr c \<and> c_sub c = user_id user \<and> c_email c = user_email user"
      "\<And>t. timestamp t \<le> timestamp (clock w1) + session_secs \<Longrightarrow>
        \<exists>c. verify_refresh (st_jwt_crate St) (st_jwt St) r t = Inr c \<and> c_jti c = j \<and> c_sub c = user_id user"
    and ses: "\<And>t. clock w1 \<le> t \<Longrightarrow> session_of (st_uuid St) t (\<alpha> (cache w')) = (session_of (st_uuid St) t (\<alpha> (cache w1)))
        (j := if t < clock w1 + secs session_secs then Some (user_id user) else None)"
    and zero: "\<And>t. lockout_failures t (\<alpha> (cache w')) = lockout_failures t (\<alpha> (cache w1))"
    by (rule auth_service.issue_tokens_alive [OF assms(1) inv1 assms(4) i]) (rule that, assumption+)
  have "fst ` H \<subseteq> set (drawn (gen w1))" using inv1 by (simp add: svc_inv_def)
  with tok(2) have new: "j \<notin> fst ` H" by blast
  show ?thesis
    by (intro exI [of _ user] exI [of _ a] exI [of _ r] exI [of _ j] conjI)
      (use tok u ver low good new ses same w1 zero in \<open>simp_all add: session_secs_def c1 lockout_failures_remove\<close>)
qed

lemma login_issues_tokens_witness:
  "\<exists>j. login ref_state \<lparr>login_email = ''a@b.c'', login_password = ''password1''\<rparr> ref_session
      = (Inr (respond 200 (Login_Response (fst ref_rotated_tokens) (snd ref_rotated_tokens))), ref_second_login)
    \<and> j \<noteq> 3 \<and> session_of bits_uuid (secs 604799) (fst (cache ref_second_login)) j = Some 1"
proof -
  let ?b = "\<lparr>login_email = ''a@b.c'', login_password = ''password1''\<rparr>"
  have fresh: "distinct (ref_drawn (gen ref_second_login))" by (simp add: ref_second_login_simps ref_drawn_def)
  obtain user j where "user_with_email (db ref_session) (login_email ?b) = Some user" and "j \<noteq> 3"
    and "\<forall>t\<ge>clock ref_session. session_of bits_uuid t (fst (cache ref_second_login))
      = (session_of bits_uuid t (fst (cache ref_session))) (j := if t < clock ref_session + secs 604800
          then Some (user_id user) else None)"
    using login_issues_tokens [OF ref.auth_service_axioms ref_reachable ref_second_login_result fresh] by auto
  moreover from this(1) have "user_id user = 1" by (auto simp: user_with_email_def ref_worlds)
  moreover have "(0::int) \<le> secs 604799" "secs 604799 < secs 604800" by (simp_all add: secs_def)
  ultimately have "session_of bits_uuid (secs 604799) (fst (cache ref_second_login)) j = Some 1" by simp
  with \<open>j \<noteq> 3\<close> ref_second_login_result show ?thesis by blast
qed

text \<open>
  C16. Whoever registers can log in, with that password only. After a registration that answered 201, a
  well-formed login for the address is answered 200 with tokens if its password is the registered one,
  and 401 for every other password, while the services answer and the address is not locked.
\<close>

theorem registered_user_logs_in:
  assumes "available_service St \<alpha> keypair drawn up calm" and "password_binding (st_argon2_crate St)"
    and "reachable rs St L \<alpha> (w, H)" and "register St rb w = (Inr res, w1)"
    and "distinct (drawn (gen w1))" and "up (cache w1)" and "calm (gen w1)"
    and "lockout_failures (clock w) (\<alpha> (cache w)) (reg_email rb) < 10"
    and "login_validate b = Inr ()" and "login_email b = reg_email rb"
  shows "(\<exists>i. res = respond 201 (Register_Response i (reg_email rb)))
    \<and> (if login_password b = reg_password rb
       then \<exists>a r w2. login St b w1 = (Inr (respond 200 (Login_Response a r)), w2)
       else \<exists>w2. login St b w1 = (Inl Unauthorized, w2))"
proof -
  have svc: "auth_service St \<alpha> keypair drawn" using assms(1) by (simp add: available_service_def)
  note e = stepsD [OF auth_service.evolves_register [OF svc] assms(4)]
  have "distinct (drawn (gen w))" using e assms(5) by (auto simp: evo_def intro: suffix_distinct)
  note inv = auth_service.reachable_svc(2) [OF svc assms(3) this]
  note ev = evoD [OF e inv assms(5)]
  have "db_ok (db w)" using inv by (simp add: svc_inv_def)
  obtain u where res: "res = respond 201 (Register_Response (user_id u) (reg_email rb))"
    and none: "user_with_email (db w) (reg_email rb) = None" and u: "user_email u = reg_email rb"
    and h: "\<exists>g g'. hash_of (st_argon2_crate St) (st_env St) (st_passwords St) (reg_password rb) g = (Inr (password_hash u), g')"
    and db: "db w1 = (db w)\<lparr>users := users (db w) @ [u]\<rparr>" and cache: "cache w1 = cache w"
    by (rule register_ok [OF \<open>db_ok (db w)\<close> assms(4)]) (rule that, assumption+)
  have ver: "verify_hash (st_argon2_crate St) (st_passwords St) pw (password_hash u) = Inr (pw = reg_password rb)" for pw
    using h by (elim exE) (rule password_binding.verify_hash_iff [OF assms(2)])
  have "user_with_email (db w1) (reg_email rb) = Some u"
    using u none by (simp add: db user_with_email_def find_append)
  with ver assms(8-10) cache ev(2)
  have "login_spec St \<alpha> b w1 = (if login_password b = reg_password rb then Inr u else Inl Unauthorized)"
    by (simp add: login_spec_def)
  with available_service.login_outcome_up [OF assms(1) ev(1) assms(6,7), of b] res show ?thesis
    by (cases "login_password b = reg_password rb") auto
qed

lemma registered_user_logs_in_witness:
  "(\<exists>a r w2. login ref_state \<lparr>login_email = ''a@b.c'', login_password = ''password1''\<rparr> ref_registered
      = (Inr (respond 200 (Login_Response a r)), w2))
    \<and> (\<exists>w2. login ref_state \<lparr>login_email = ''a@b.c'', login_password = ''password2''\<rparr> ref_registered
      = (Inl Unauthorized, w2))"
proof -
  have reg: "register ref_state \<lparr>reg_email = ''a@b.c'', reg_password = ''password1''\<rparr> ref_world
      = (Inr (respond 201 (Register_Response 1 ''a@b.c'')), ref_registered)"
    by (simp add: eval ref_worlds cong: eval_cong)
  have reach: "reachable build_router ref_state ref_axum fst (ref_world, {})"
    by (auto simp: reachable_def initial_def ref_world_def intro!: exI [of _ ref_world])
  have valid: "login_validate \<lparr>login_email = ''a@b.c'', login_password = ''password1''\<rparr> = Inr ()"
    "login_validate \<lparr>login_email = ''a@b.c'', login_password = ''password2''\<rparr> = Inr ()"
    by (simp_all add: eval_requests Let_def)
  have state: "distinct (ref_drawn (gen ref_registered))" "snd (cache ref_registered) = []"
    "snd (snd (gen ref_registered)) = []" "lockout_failures (clock ref_world) (fst (cache ref_world)) ''a@b.c'' < 10"
    by (simp_all add: ref_worlds ref_drawn_def lockout_failures_def lookup_def)
  have binding: "password_binding (st_argon2_crate ref_state)" by (simp add: ref_argon2.password_binding_axioms)
  note logs_in = registered_user_logs_in [OF ref_up.available_service_axioms binding reach reg state(1-3)]
  from logs_in [OF _ valid(1)] logs_in [OF _ valid(2)] state(4) show ?thesis by simp
qed

section \<open>Changing a password\<close>

text \<open>
  C23. A change of password that answers 204 was made with the current password. From then on exactly
  the new password verifies for the user, whose address stays; no other user changes; and the cache is
  not touched: every session of the user stays as it was, unlike after a reset.
\<close>

theorem change_password_effect:
  assumes "password_binding (st_argon2_crate St)" and "change_password St c b w = (Inr res, w')"
  shows "res = respond 204 No_Body \<and> cache w' = cache w
    \<and> (\<forall>i. i \<noteq> c_sub c \<longrightarrow> user_with_id (db w') i = user_with_id (db w) i)
    \<and> (\<exists>u u'. user_with_id (db w) (c_sub c) = Some u \<and> user_with_id (db w') (c_sub c) = Some u'
         \<and> user_email u' = user_email u
         \<and> verify_hash (st_argon2_crate St) (st_passwords St) (current_password b) (password_hash u) = Inr True
         \<and> (\<forall>pw. verify_hash (st_argon2_crate St) (st_passwords St) pw (password_hash u') = Inr (pw = new_password b)))"
proof -
  obtain u h where res: "res = respond 204 No_Body" and u: "user_with_id (db w) (c_sub c) = Some u"
    and old: "verify_hash (st_argon2_crate St) (st_passwords St) (current_password b) (password_hash u) = Inr True"
    and h: "\<exists>g g'. hash_of (st_argon2_crate St) (st_env St) (st_passwords St) (new_password b) g = (Inr h, g')"
    and db: "user_with_id (db w') = (user_with_id (db w))(c_sub c \<mapsto> u\<lparr>password_hash := h, updated_at := clock w\<rparr>)"
    and cache: "cache w' = cache w"
    by (rule change_password_ok [OF assms(2)]) (rule that, assumption+)
  have "verify_hash (st_argon2_crate St) (st_passwords St) pw h = Inr (pw = new_password b)" for pw
    using h by (elim exE) (rule password_binding.verify_hash_iff [OF assms(1)])
  with res u old db cache show ?thesis by simp
qed

lemma change_password_effect_witness:
  "\<exists>w' u'. change_password ref_state ref_access_claims
      \<lparr>current_password = ''password1'', new_password = ''password2''\<rparr> ref_session = (Inr (respond 204 No_Body), w')
    \<and> user_with_id (db w') 1 = Some u' \<and> cache w' = cache ref_session
    \<and> verify_hash ref_argon2 ref_passwords ''password1'' (password_hash u') = Inr False"
proof -
  have "\<exists>w'. change_password ref_state ref_access_claims
      \<lparr>current_password = ''password1'', new_password = ''password2''\<rparr> ref_session = (Inr (respond 204 No_Body), w')"
    by (simp add: eval ref_worlds ref_access_claims_def find_by_id_def update_password_def change_password_def cong: eval_cong)
  then obtain w' where run: "change_password ref_state ref_access_claims
      \<lparr>current_password = ''password1'', new_password = ''password2''\<rparr> ref_session = (Inr (respond 204 No_Body), w')"
    by blast
  have binding: "password_binding (st_argon2_crate ref_state)" by (simp add: ref_argon2.password_binding_axioms)
  from change_password_effect [OF binding run] obtain u' where "user_with_id (db w') 1 = Some u'"
    "cache w' = cache ref_session"
    "\<And>pw. verify_hash ref_argon2 ref_passwords pw (password_hash u') = Inr (pw = ''password2'')" by auto
  moreover from this(3) [of "''password1''"] 
  have "verify_hash ref_argon2 ref_passwords ''password1'' (password_hash u') = Inr False" by simp
  ultimately show ?thesis using run by blast
qed

section \<open>Deleting an account\<close>

text \<open>
  C37. Deleting an account removes the user and, by the cascade, all reset tokens of the user, and
  nothing else: other users and their reset tokens stay, the address is free again, and the cache,
  with the sessions in it, is not touched.
\<close>

theorem delete_me_effect:
  assumes "db_ok (db w)" and "delete_me St c w = (Inr res, w')"
  shows "res = respond 204 No_Body \<and> cache w' = cache w
    \<and> user_with_id (db w') = (user_with_id (db w))(c_sub c := None)
    \<and> (\<forall>u. user_with_id (db w) (c_sub c) = Some u \<longrightarrow> user_with_email (db w') (user_email u) = None)
    \<and> (\<forall>t h. reset_owner (db w') t h
         = (if reset_owner (db w) t h = Some (c_sub c) then None else reset_owner (db w) t h))"
proof -
  note d = delete_me_ok [OF assms(2)]
  have "user_with_email (db w') (user_email u) = None" if u: "user_with_id (db w) (c_sub c) = Some u" for u
  proof -
    have "v = u" if "v \<in> set (users (db w))" "user_email v = user_email u" for v
      using that user_with_id_Some(1) [OF u] assms(1)
      by (auto simp: db_ok_def distinct_map inj_on_def)
    then show ?thesis
      using user_with_id_Some(2) [OF u] by (auto simp: d(2) user_with_email_None_iff delete_user_def)
  qed
  with d assms(1) show ?thesis by (simp add: user_with_id_deleted reset_owner_delete_user)
qed

lemma delete_me_effect_witness:
  "\<exists>w'. delete_me ref_state ref_access_claims ref_reset_sent = (Inr (respond 204 No_Body), w')
    \<and> reset_owner (db w') 0 ''#001'' = None \<and> user_with_id (db w') 1 = None"
proof -
  have "\<exists>w'. delete_me ref_state ref_access_claims ref_reset_sent = (Inr (respond 204 No_Body), w')"
    by (simp add: eval ref_worlds ref_reset_sent_def delete_me_def delete_by_id_def delete_user_def cong: eval_cong)
  then obtain w' where run: "delete_me ref_state ref_access_claims ref_reset_sent = (Inr (respond 204 No_Body), w')"
    by blast
  have ok: "db_ok (db ref_reset_sent)" by (simp add: db_ok_def ref_reset_sent_def ref_reset_row_def ref_user_def)
  from delete_me_effect [OF this run] ref_owner run show ?thesis by auto
qed

text \<open>
  C20. A deleted user keeps refreshing. Deleting an account revokes no session, and a refresh does not
  look for the user: a refresh token of the user that was alive before is still exchanged, for an access
  token that authenticates the deleted user and for a refresh token that can be exchanged again.
\<close>

theorem deleted_user_keeps_refreshing:
  assumes "available_service St \<alpha> keypair drawn up calm" and "reachable rs St L \<alpha> (w, H)"
    and "delete_me St c w = (Inr res, w1)" and "up (cache w1)" and "calm (gen w1)"
    and "tok \<noteq> []" and "verify_refresh (st_jwt_crate St) (st_jwt St) tok (clock w) = Inr d"
    and "c_sub d = c_sub c" and "session_of (st_uuid St) (clock w) (\<alpha> (cache w)) (c_jti d) = Some (c_sub c)"
    and "refresh St \<lparr>refresh_token = tok\<rparr> w1 = (x, w2)" and "distinct (drawn (gen w2))"
  shows "user_with_id (db w1) (c_sub c) = None
    \<and> (\<exists>a r. x = Inr (respond 200 (Login_Response a r))
      \<and> (\<exists>c'. verify_access (st_jwt_crate St) (st_jwt St) a (clock w2) = Inr c' \<and> c_sub c' = c_sub c)
      \<and> (\<exists>d'. verify_refresh (st_jwt_crate St) (st_jwt St) r (clock w2) = Inr d' \<and> c_sub d' = c_sub c
           \<and> session_of (st_uuid St) (clock w2) (\<alpha> (cache w2)) (c_jti d') = Some (c_sub c)))"
proof -
  have svc: "auth_service St \<alpha> keypair drawn" using assms(1) by (simp add: available_service_def)
  note e = stepsD [OF auth_service.evolves_delete_me [OF svc] assms(3)]
    and e2 = stepsD [OF auth_service.evolves_refresh [OF svc] assms(10)]
  have d1: "distinct (drawn (gen w1))" using e2 assms(11) by (auto simp: evo_def intro: suffix_distinct)
  then have "distinct (drawn (gen w))" using e by (auto simp: evo_def intro: suffix_distinct)
  note inv = auth_service.reachable_svc(2) [OF svc assms(2) this]
  note ev = evoD [OF e inv d1] and d = delete_me_ok [OF assms(3)]
  have "refresh_spec St \<alpha> \<lparr>refresh_token = tok\<rparr> w1 = Inr d"
    using assms(6,7,9) d by (simp add: refresh_spec_def refresh_validate_def)
  with available_service.refresh_outcome_up [OF assms(1) ev(1) assms(4,5), of "\<lparr>refresh_token = tok\<rparr>"] assms(10)
  obtain a r where x: "x = Inr (respond 200 (Login_Response a r))" by auto
  from auth_service.refresh_issues [OF svc ev(1) assms(11) assms(10) [unfolded x]] assms(7,8) d
  have "(\<exists>c'. verify_access (st_jwt_crate St) (st_jwt St) a (clock w2) = Inr c' \<and> c_sub c' = c_sub c)
      \<and> (\<exists>d'. verify_refresh (st_jwt_crate St) (st_jwt St) r (clock w2) = Inr d' \<and> c_sub d' = c_sub c
           \<and> session_of (st_uuid St) (clock w2) (\<alpha> (cache w2)) (c_jti d') = Some (c_sub c))"
    by simp
  moreover have "user_with_id (db w1) (c_sub c) = None" using d by (simp add: user_with_id_deleted)
  ultimately show ?thesis using x by blast
qed

lemma deleted_user_keeps_refreshing_witness:
  "\<exists>w1 a r w2. delete_me ref_state ref_access_claims ref_session = (Inr (respond 204 No_Body), w1)
    \<and> user_with_id (db w1) 1 = None
    \<and> refresh ref_state \<lparr>refresh_token = ref_refresh\<rparr> w1 = (Inr (respond 200 (Login_Response a r)), w2)
    \<and> (\<exists>c. verify_access ref_jwt ref_manager a (clock w2) = Inr c \<and> c_sub c = 1)"
proof -
  let ?w1 = "ref_session\<lparr>db := empty_db\<rparr>" and ?w2 = "ref_rotated\<lparr>db := empty_db\<rparr>"
  have del: "delete_me ref_state ref_access_claims ref_session = (Inr (respond 204 No_Body), ?w1)"
    by (simp add: eval ref_worlds ref_access_claims_def delete_by_id_def delete_user_def sql_delete_def
        cong: eval_cong)
  have run: "refresh ref_state \<lparr>refresh_token = ref_refresh\<rparr> ?w1
    = (Inr (respond 200 (Login_Response (fst ref_rotated_tokens) (snd ref_rotated_tokens))), ?w2)"
    by (simp add: eval ref_worlds ref_rotated_def ref_rotated_tokens_def ref_access_claims_def
        refresh_key_def cong: eval_cong)
  have state: "snd (cache ?w1) = []" "snd (snd (gen ?w1)) = []" "distinct (ref_drawn (gen ?w2))" "ref_refresh \<noteq> []"
    by (simp_all add: ref_worlds ref_rotated_def ref_drawn_def claims_text_def)
  have token: "verify_refresh (st_jwt_crate ref_state) (st_jwt ref_state) ref_refresh (clock ref_session) = Inr ref_refresh_claims"
    "c_sub ref_refresh_claims = c_sub ref_access_claims"
    "session_of (st_uuid ref_state) (clock ref_session) (fst (cache ref_session)) (c_jti ref_refresh_claims)
      = Some (c_sub ref_access_claims)"
    by (simp_all add: ref_verify_refresh ref_session_alive)
  from deleted_user_keeps_refreshing [OF ref_up.available_service_axioms ref_reachable del state(1,2,4) token run state(3)]
    del run show ?thesis by auto
qed

section \<open>Resetting a password\<close>

text \<open>
  C22. A request for a password reset tells nothing about accounts. Every request that is served without
  an error of the services is answered 200 without a body, whatever becomes of the mail. For an address
  without an account neither the database nor the captured mails change. For an account, a token is drawn
  from 32 random bytes and stored by its hash alone, good for the account for 900 seconds; after that the
  link is sent to the address: with Postmark as the one POST to its address with the server token and the
  five fields of the mail, with a capturing client as one captured mail.
\<close>

theorem reset_request_uniform:
  assumes "password_reset_request St b w = (Inr res, w')"
  shows "res = respond 200 No_Body \<and> cache w' = cache w
    \<and> (case user_with_email (db w) (rr_email b) of
         None \<Rightarrow> db w' = db w \<and> sent w' = sent w
       | Some u \<Rightarrow> \<exists>bytes raw link g1 g2.
            fill_bytes (st_env St) 32 (snd (pg_next (st_env St) (gen w))) = (bytes, g1)
          \<and> raw = hex_encode (st_digest St) bytes
          \<and> link = st_app_base_url St @ ''/reset-password?token='' @ raw
          \<and> create_reset_token (st_env St) (user_id u) (token_digest (st_digest St) raw) (clock w + secs 900)
              (db w, g1) = (Inr (), (db w', g2))
          \<and> users (db w') = users (db w)
          \<and> (\<forall>t. reset_owner (db w') t = (reset_owner (db w) t)
               (token_digest (st_digest St) raw := if t < clock w + secs 900 then Some (user_id u) else None))
          \<and> (case st_email St of
               Postmark key from_email \<Rightarrow> sent w' = sent w
                 \<and> snd (http_post (st_env St) ''https://api.postmarkapp.com/email''
                     [(''X-Postmark-Server-Token'', key)]
                     [(''From'', from_email), (''To'', rr_email b), (''Subject'', ''Reset your password''),
                      (''TextBody'', ''Use the link below to reset your password.'' @ [CHR 0x0A]
                         @ ''It expires in 15 minutes.'' @ [CHR 0x0A, CHR 0x0A] @ link),
                      (''MessageStream'', ''outbound'')] g2) = gen w'
             | Capture \<Rightarrow> sent w' = sent w @ [(rr_email b, link)] \<and> gen w' = g2))"
  using assms
proof (cases rule: reset_request_found)
  case 1
  then show ?thesis by simp
next
  case (2 u bytes raw g1 g2 y)
  note stored = create_reset_token_owner [OF 2(7)]
  have mail: "case st_email St of
      Postmark key from_email \<Rightarrow> sent w' = sent w \<and> snd (http_post (st_env St)
        ''https://api.postmarkapp.com/email'' [(''X-Postmark-Server-Token'', key)]
        (reset_mail from_email (rr_email b) (reset_link (st_app_base_url St) raw)) g2) = gen w'
    | Capture \<Rightarrow> sent w' = sent w @ [(rr_email b, reset_link (st_app_base_url St) raw)] \<and> gen w' = g2"
    using 2(8) by (auto simp: send_password_reset_def split: email_client.splits prod.splits sum.splits if_splits)
  show ?thesis
    unfolding 2(4) option.case
    by (rule conjI [OF 2(1)], rule conjI [OF 2(2)], rule exI [of _ bytes], rule exI [of _ raw],
        rule exI [of _ "reset_link (st_app_base_url St) raw"], rule exI [of _ g1], rule exI [of _ g2],
        intro conjI allI 2 stored)
      (use mail in \<open>auto simp: reset_link_def reset_mail_def newline_def split: email_client.splits\<close>)
qed

lemma reset_request_uniform_witness:
  "\<exists>raw. reset_owner (db ref_reset_sent) 0 (CHR ''#'' # raw) = Some 1
    \<and> sent ref_reset_sent = [(''a@b.c'', ''https://app/reset-password?token='' @ raw)]"
proof -
  have run: "password_reset_request ref_state \<lparr>rr_email = ''a@b.c''\<rparr> ref_session
      = (Inr (respond 200 No_Body), ref_reset_sent)"
    by (simp add: eval ref_worlds ref_reset_sent_def ref_reset_row_def ref_state_def nat_bits.simps cong: eval_cong)
  have "user_with_email (db ref_session) ''a@b.c'' = Some ref_user" "user_id ref_user = 1" "sent ref_session = []"
    "st_email ref_state = Capture" "st_app_base_url ref_state = ''https://app''"
    by (simp_all add: user_with_email_def ref_worlds ref_state_def)
  with reset_request_uniform [OF run] show ?thesis by (fastforce simp: ref_digest_token secs_def reset_link_def)
qed

section \<open>Staying logged in\<close>

text \<open>
  C17. A client that exchanges its refresh token within seven days each time stays logged in. While the
  services answer, every exchange of such a chain succeeds, however long the chain, and the last token
  stands for the same user for another seven days.
\<close>

theorem client_stays_logged_in:
  assumes "available_service St \<alpha> keypair drawn up calm" and "reachable rs St L \<alpha> (w, H)"
    and "up (cache w)" and "calm (gen w)" and "stands_for St \<alpha> tok u w"
    and "\<forall>x tok. jwt_encode (st_jwt_crate St) EdDSA x (encoding_key (st_jwt St)) = Inr tok \<longrightarrow> tok \<noteq> []"
    and "\<forall>d \<in> set ds. 0 \<le> d \<and> d < secs 604800"
    and "distinct (drawn (gen (snd (refresh_chain St ds tok w))))"
  shows "\<exists>tok' w'. refresh_chain St ds tok w = (Some tok', w') \<and> stands_for St \<alpha> tok' u w'"
proof -
  have svc: "auth_service St \<alpha> keypair drawn" using assms(1) by (simp add: available_service_def)
  have "distinct (drawn (gen w))"
    using auth_service.chain_log [OF svc] assms(8) by (rule suffix_distinct)
  note inv = auth_service.reachable_svc(2) [OF svc assms(2) this]
  show ?thesis
    using assms(7,8) by (intro available_service.refresh_chain_succeeds [OF assms(1) inv assms(3-6)])
      (simp_all add: session_secs_def)
qed

lemma client_stays_logged_in_witness:
  "\<exists>tok' w'. refresh_chain ref_state [secs 86400] ref_refresh ref_session = (Some tok', w')
    \<and> stands_for ref_state fst tok' 1 w'"
proof -
  have "ref_refresh \<noteq> []" by (simp add: ref_refresh_def claims_text_def)
  have stands: "stands_for ref_state fst ref_refresh 1 ref_session"
    unfolding stands_for_def
    using \<open>ref_refresh \<noteq> []\<close>
    by (intro conjI exI [of _ 3]) (auto simp: ref_verify_refresh ref_session_alive session_secs_def secs_def)
  have nonempty: "\<forall>x tok. jwt_encode (st_jwt_crate ref_state) EdDSA x (encoding_key (st_jwt ref_state)) = Inr tok
      \<longrightarrow> tok \<noteq> []"
    by (simp add: eval_library ref_encode_def claims_text_def)
  have "distinct (ref_drawn (gen (snd (refresh_chain ref_state [secs 86400] ref_refresh ref_session))))"
    by (simp add: eval ref_worlds refresh_key_def ref_drawn_def secs_def cong: eval_cong)
  from client_stays_logged_in [OF ref_up.available_service_axioms ref_reachable _ _ stands nonempty _ this]
  show ?thesis by (simp add: ref_worlds secs_def)
qed

end
