(* ===== verification/Startup.thy ===== *)
theory Startup
  imports System
begin

text \<open>
  \<open>src/main.rs\<close>: from the environment to a running server. What it calls of tokio, sqlx, redis, tonic,
  tracing and dotenvy is the record \<open>startup_lib\<close>, on a state \<open>'s\<close> of the outside. The steps are in
  the order of the code, and every \<open>?\<close> ends the program with its error. What two \<open>axum::serve\<close> and
  \<open>tonic\<close> do once they run is one call, \<open>su_try_join\<close>; the requests they hand over are \<open>serve\<close> of
  \<open>Router\<close> and \<open>verify_token\<close> of \<open>Grpc\<close>.
\<close>

section \<open>The environment\<close>

datatype var_error = Not_Present | Not_Unicode string

text \<open>\<open>std::env::var\<close>.\<close>

type_synonym environ = "string \<Rightarrow> var_error + string"

type_synonym sock_addr = "string \<times> 16 word"

datatype startup_failure =
    Var var_error
  | Addr_Parse string
  | Pool_Failed sqlx_error
  | Migrate_Failed string
  | Redis_Url redis_error
  | Jwt_Keys domain_error
  | Panicked string
  | Bind_Failed string
  | Server_Failed string

record log_config =
  log_json :: bool
  log_filter :: string

record settings =
  s_database_url :: string
  s_redis_url :: string
  s_jwt_private_pem :: string
  s_jwt_public_pem :: string
  s_postmark_api_key :: string
  s_postmark_from_email :: string
  s_app_base_url :: string
  s_http_addr :: string
  s_grpc_addr :: sock_addr

record ('r, 'g, 'l) server =
  sv_listener :: 'l
  sv_routes :: "route list"
  sv_state :: "('r, 'g) app_state"
  sv_grpc_addr :: sock_addr
  sv_grpc :: auth_service_impl

record ('r, 'g, 'l, 's) startup_lib =
  su_dotenv :: "environ \<Rightarrow> environ"
  su_env_filter :: "environ \<Rightarrow> string + string"
  su_init_log :: "log_config \<Rightarrow> 's \<Rightarrow> 's"
  su_parse_addr :: "string \<Rightarrow> string + sock_addr"
  su_pg_connect :: "nat \<Rightarrow> string \<Rightarrow> ('s, sqlx_error, 'g pg_lib) io"
  su_migrate :: "'g pg_lib \<Rightarrow> ('s, string, unit) io"
  su_redis_open :: "string \<Rightarrow> redis_error + 'r redis_api"
  su_bind :: "string \<Rightarrow> ('s, string, 'l) io"
  su_try_join :: "('r, 'g, 'l) server \<Rightarrow> ('s, string, unit) io"
  su_uuid :: uuid_lib
  su_env :: "'g env_lib"
  su_digest :: digest_lib
  su_to_str :: "string \<Rightarrow> string option"
  su_jwt :: jwt_lib
  su_argon2 :: argon2_lib

section \<open>Reading the settings\<close>

definition log_config_of :: "(environ \<Rightarrow> string + string) \<Rightarrow> environ \<Rightarrow> log_config" where
  "log_config_of env_filter env =
     \<lparr>log_json = (env ''LOG_FORMAT'' = Inr ''json''),
      log_filter = (case env_filter env of Inl _ \<Rightarrow> ''rustauth=debug,tower_http=debug'' | Inr f \<Rightarrow> f)\<rparr>"

definition require_var :: "environ \<Rightarrow> string \<Rightarrow> ('s, startup_failure, string) io" where
  "require_var env name = mapErrE Var (liftE (env name))"

definition var_or :: "environ \<Rightarrow> string \<Rightarrow> string \<Rightarrow> string" where
  "var_or env name dflt = (case env name of Inl _ \<Rightarrow> dflt | Inr v \<Rightarrow> v)"

definition read_settings ::
    "(string \<Rightarrow> string + sock_addr) \<Rightarrow> environ \<Rightarrow> ('s, startup_failure, settings) io" where
  "read_settings parse_addr env =
     bindE (require_var env ''DATABASE_URL'') (\<lambda>database_url.
     bindE (require_var env ''REDIS_URL'') (\<lambda>redis_url.
     bindE (require_var env ''JWT_PRIVATE_KEY_PEM'') (\<lambda>jwt_private_pem.
     bindE (require_var env ''JWT_PUBLIC_KEY_PEM'') (\<lambda>jwt_public_pem.
     bindE (require_var env ''POSTMARK_API_KEY'') (\<lambda>postmark_api_key.
     bindE (require_var env ''POSTMARK_FROM_EMAIL'') (\<lambda>postmark_from_email.
     bindE (require_var env ''APP_BASE_URL'') (\<lambda>app_base_url.
     let http_addr = var_or env ''HTTP_ADDR'' ''0.0.0.0:3000'' in
     bindE (mapErrE Addr_Parse (liftE (parse_addr (var_or env ''GRPC_ADDR'' ''0.0.0.0:50051'')))) (\<lambda>grpc_addr.
     okE \<lparr>s_database_url = database_url, s_redis_url = redis_url, s_jwt_private_pem = jwt_private_pem,
          s_jwt_public_pem = jwt_public_pem, s_postmark_api_key = postmark_api_key,
          s_postmark_from_email = postmark_from_email, s_app_base_url = app_base_url,
          s_http_addr = http_addr, s_grpc_addr = grpc_addr\<rparr>))))))))"

section \<open>Starting\<close>

text \<open>The state of the application with the handles that start-up obtained.\<close>

definition app_state_with ::
    "('r, 'g, 'l, 's) startup_lib \<Rightarrow> 'g pg_lib \<Rightarrow> jwt_manager \<Rightarrow> password_service \<Rightarrow> 'r redis_api
      \<Rightarrow> email_client \<Rightarrow> string \<Rightarrow> ('r, 'g) app_state" where
  "app_state_with B pool jwt passwords redis email app_base_url =
     \<lparr>st_redis = redis, st_uuid = su_uuid B,
      st_env = (su_env B)\<lparr>pg_next := pg_next pool, pg_uuid := pg_uuid pool\<rparr>,
      st_digest = su_digest B, st_to_str = su_to_str B, st_jwt_crate = su_jwt B,
      st_argon2_crate = su_argon2 B, st_jwt = jwt, st_passwords = passwords, st_email = email,
      st_app_base_url = app_base_url\<rparr>"

definition start_up ::
    "('r, 'g, 'l, 's) startup_lib \<Rightarrow> environ \<Rightarrow> ('s, startup_failure, ('r, 'g, 'l) server) io" where
  "start_up B process_env =
     (let env = su_dotenv B process_env in
     bindE (\<lambda>s. (Inr (), su_init_log B (log_config_of (su_env_filter B) env) s)) (\<lambda>_.
     bindE (read_settings (su_parse_addr B) env) (\<lambda>c.
     bindE (mapErrE Pool_Failed (su_pg_connect B 10 (s_database_url c))) (\<lambda>pool.
     bindE (mapErrE Migrate_Failed (su_migrate B pool)) (\<lambda>_.
     bindE (mapErrE Redis_Url (liftE (su_redis_open B (s_redis_url c)))) (\<lambda>redis.
     bindE (mapErrE Jwt_Keys
              (liftE (from_ed25519_pem (su_jwt B) (s_jwt_private_pem c) (s_jwt_public_pem c)))) (\<lambda>jwt.
     bindE (ok_orE (Panicked ''valid argon2 params'') (password_service_new (su_argon2 B))) (\<lambda>passwords.
     let email = email_client_new (s_postmark_api_key c) (s_postmark_from_email c);
         state = app_state_with B pool jwt passwords redis email (s_app_base_url c);
         app = build_production_router in
     bindE (mapErrE Bind_Failed (su_bind B (s_http_addr c))) (\<lambda>listener.
     okE \<lparr>sv_listener = listener, sv_routes = app, sv_state = state, sv_grpc_addr = s_grpc_addr c,
          sv_grpc = auth_service_impl_new (st_jwt state)\<rparr>)))))))))"

definition main :: "('r, 'g, 'l, 's) startup_lib \<Rightarrow> environ \<Rightarrow> ('s, startup_failure, unit) io" where
  "main B process_env = bindE (start_up B process_env) (\<lambda>sv. mapErrE Server_Failed (su_try_join B sv))"

section \<open>What start-up has read and built\<close>

definition required_vars :: "string list" where
  "required_vars = [''DATABASE_URL'', ''REDIS_URL'', ''JWT_PRIVATE_KEY_PEM'', ''JWT_PUBLIC_KEY_PEM'',
     ''POSTMARK_API_KEY'', ''POSTMARK_FROM_EMAIL'', ''APP_BASE_URL'']"

text \<open>The first variable of a list that cannot be read.\<close>

fun first_unset :: "environ \<Rightarrow> string list \<Rightarrow> var_error option" where
  "first_unset env [] = None"
| "first_unset env (x # xs) = (case env x of Inl e \<Rightarrow> Some e | Inr _ \<Rightarrow> first_unset env xs)"

lemma first_unset_None_iff: "first_unset env xs = None \<longleftrightarrow> (\<forall>x \<in> set xs. env x \<in> range Inr)"
  by (induction xs) (auto split: sum.splits)

lemma read_settings_state: "snd (read_settings parse_addr env s) = s"
  by (simp add: read_settings_def require_var_def bindE_def mapErrE_def Let_def split: sum.split)

lemma read_settings_unset:
  assumes "first_unset env required_vars = Some e"
  shows "read_settings parse_addr env s = (Inl (Var e), s)"
  using assms unfolding required_vars_def
  by (auto simp: read_settings_def require_var_def bindE_def mapErrE_def split: sum.splits)

lemma read_settings_set:
  assumes "first_unset env required_vars = None"
  shows "fst (read_settings parse_addr env s)
    = (case parse_addr (var_or env ''GRPC_ADDR'' ''0.0.0.0:50051'') of
         Inl e \<Rightarrow> Inl (Addr_Parse e)
       | Inr addr \<Rightarrow> Inr \<lparr>s_database_url = projr (env ''DATABASE_URL''), s_redis_url = projr (env ''REDIS_URL''),
           s_jwt_private_pem = projr (env ''JWT_PRIVATE_KEY_PEM''),
           s_jwt_public_pem = projr (env ''JWT_PUBLIC_KEY_PEM''),
           s_postmark_api_key = projr (env ''POSTMARK_API_KEY''),
           s_postmark_from_email = projr (env ''POSTMARK_FROM_EMAIL''),
           s_app_base_url = projr (env ''APP_BASE_URL''),
           s_http_addr = var_or env ''HTTP_ADDR'' ''0.0.0.0:3000'', s_grpc_addr = addr\<rparr>)"
  using assms unfolding required_vars_def
  by (simp add: read_settings_def require_var_def bindE_def mapErrE_def Let_def split: sum.splits)

lemma start_up_ok:
  assumes "start_up B penv s = (Inr sv, s')"
  obtains c pool redis jwt passwords s0 s1 s2 where
    "read_settings (su_parse_addr B) (su_dotenv B penv) s0 = (Inr c, s1)"
    and "su_pg_connect B 10 (s_database_url c) s1 = (Inr pool, s2)"
    and "su_redis_open B (s_redis_url c) = Inr redis"
    and "from_ed25519_pem (su_jwt B) (s_jwt_private_pem c) (s_jwt_public_pem c) = Inr jwt"
    and "password_service_new (su_argon2 B) = Some passwords"
    and "sv_state sv = app_state_with B pool jwt passwords redis
      (email_client_new (s_postmark_api_key c) (s_postmark_from_email c)) (s_app_base_url c)"
    and "sv_routes sv = build_production_router" and "sv_grpc_addr sv = s_grpc_addr c"
    and "sv_grpc sv = auth_service_impl_new jwt"
  using assms unfolding start_up_def Let_def
  by (elim bindE_InrE) (rule that; auto simp: app_state_with_def)

end
