(* ===== verification/Startup_Properties.thy ===== *)
theory Startup_Properties
  imports Startup Reference_Service
begin

text \<open>
  Properties of the start-up: when it fails before anything is opened, what of the environment it
  depends on, and that the server it starts satisfies the contract that the properties of the service
  are proved under. The witnesses start the reference service.
\<close>

section \<open>A reference environment\<close>

definition ref_environ :: environ where
  "ref_environ name =
     (if name = ''JWT_PRIVATE_KEY_PEM'' \<or> name = ''JWT_PUBLIC_KEY_PEM'' then Inr ''key''
      else if name = ''APP_BASE_URL'' then Inr ''https://app''
      else if name \<in> set required_vars then Inr ''x''
      else Inl Not_Present)"

definition ref_startup :: "(sim_redis, ref_gen, unit, unit) startup_lib" where
  "ref_startup = \<lparr>su_dotenv = (\<lambda>env. env), su_env_filter = (\<lambda>_. Inl ''unset''), su_init_log = (\<lambda>_ s. s),
     su_parse_addr = (\<lambda>_. Inr (''0.0.0.0'', 50051)),
     su_pg_connect = (\<lambda>_ _. okE \<lparr>pg_next = pg_next ref_env, pg_uuid = pg_uuid ref_env\<rparr>),
     su_migrate = (\<lambda>_. okE ()), su_redis_open = (\<lambda>_. Inr sim_api), su_bind = (\<lambda>_. okE ()),
     su_try_join = (\<lambda>_. okE ()), su_uuid = bits_uuid, su_env = ref_env, su_digest = ref_digest,
     su_to_str = Some, su_jwt = ref_jwt, su_argon2 = ref_argon2\<rparr>"

lemma ref_settings_read:
  "read_settings (su_parse_addr ref_startup) (su_dotenv ref_startup ref_environ) s
    = (Inr \<lparr>s_database_url = ''x'', s_redis_url = ''x'', s_jwt_private_pem = ''key'',
         s_jwt_public_pem = ''key'', s_postmark_api_key = ''x'', s_postmark_from_email = ''x'',
         s_app_base_url = ''https://app'', s_http_addr = ''0.0.0.0:3000'',
         s_grpc_addr = (''0.0.0.0'', 50051)\<rparr>, s)"
  by (simp add: read_settings_def require_var_def bindE_def mapErrE_def Let_def var_or_def
      ref_startup_def ref_environ_def required_vars_def)

lemma ref_start_up:
  "\<exists>sv. start_up ref_startup ref_environ () = (Inr sv, ())"
  unfolding start_up_def Let_def
  by (simp add: bindE_def ref_settings_read)
    (simp add: ref_startup_def ref_services mapErrE_def)

section \<open>Failing early\<close>

text \<open>
  C36. A required variable that is not set stops the program before it opens anything. The seven
  variables are read in their order; the first that is missing or not Unicode is the error that \<open>main\<close>
  ends with, and of the outside only the logger has been touched.
\<close>

theorem missing_variable_stops_start:
  assumes "first_unset (su_dotenv B env) required_vars = Some e"
  shows "main B env s
    = (Inl (Var e), su_init_log B (log_config_of (su_env_filter B) (su_dotenv B env)) s)"
  by (simp add: main_def start_up_def bindE_def read_settings_unset [OF assms])

lemma missing_variable_stops_start_witness:
  "main ref_startup (ref_environ(''APP_BASE_URL'' := Inl (Not_Unicode ''?''))) () = (Inl (Var (Not_Unicode ''?'')), ())"
  using missing_variable_stops_start
    [of ref_startup "ref_environ(''APP_BASE_URL'' := Inl (Not_Unicode ''?''))" "Not_Unicode ''?''" "()"]
  by (simp add: ref_startup_def ref_environ_def required_vars_def)

section \<open>What start-up depends on\<close>

definition startup_vars :: "string list" where
  "startup_vars = required_vars @ [''HTTP_ADDR'', ''GRPC_ADDR'', ''LOG_FORMAT'']"

text \<open>
  Start-up reads ten variables and, through the log filter, what the filter reads. Two environments
  that agree on these start the same program: no other variable, such as
  \<open>ACCESS_TOKEN_EXPIRY_SECONDS\<close> or \<open>REFRESH_TOKEN_EXPIRY_SECONDS\<close>, has any effect.
\<close>

theorem other_variables_have_no_effect:
  assumes "\<forall>x \<in> set startup_vars. su_dotenv B env x = su_dotenv B env' x"
    and "su_env_filter B (su_dotenv B env) = su_env_filter B (su_dotenv B env')"
  shows "main B env = main B env'"
proof -
  have req: "require_var (su_dotenv B env) x = require_var (su_dotenv B env') x"
    "var_or (su_dotenv B env) x = var_or (su_dotenv B env') x" if "x \<in> set startup_vars" for x
    using assms(1) that by (simp_all add: require_var_def var_or_def fun_eq_iff)
  have settings: "read_settings (su_parse_addr B) (su_dotenv B env) = read_settings (su_parse_addr B) (su_dotenv B env')"
    unfolding read_settings_def by (simp add: req startup_vars_def required_vars_def)
  have log: "log_config_of (su_env_filter B) (su_dotenv B env)
      = log_config_of (su_env_filter B) (su_dotenv B env')"
    using assms by (simp add: log_config_of_def startup_vars_def)
  show ?thesis by (simp add: main_def start_up_def Let_def settings log)
qed

lemma other_variables_have_no_effect_witness:
  "main ref_startup (ref_environ(''ACCESS_TOKEN_EXPIRY_SECONDS'' := Inr ''60'')) = main ref_startup ref_environ"
  by (rule other_variables_have_no_effect)
    (simp_all add: ref_startup_def startup_vars_def required_vars_def)

section \<open>What is started\<close>

text \<open>
  C35. The server that start-up returns is the one the properties of the service speak of: if the
  libraries behave as documented and the two configured keys belong together, its state satisfies the
  contract \<open>auth_service\<close>. It runs the production router, the gRPC service holds the same signing
  keys, access tokens live for 900 seconds and refresh tokens for 604800, mails go out by Postmark.
\<close>

theorem started_server_meets_contract:
  assumes "start_up B env s = (Inr sv, s')"
    and "\<forall>url R. su_redis_open B url = Inr R \<longrightarrow> redis_service R \<alpha>"
    and "uuid_codec (su_uuid B)" and "jwt_library (su_jwt B) keypair"
    and "\<forall>n url x pool x'. su_pg_connect B n url x = (Inr pool, x') \<longrightarrow>
      draw_log ((su_env B)\<lparr>pg_next := pg_next pool, pg_uuid := pg_uuid pool\<rparr>) drawn"
    and "\<forall>priv pub ek dk. su_dotenv B env ''JWT_PRIVATE_KEY_PEM'' = Inr priv \<longrightarrow>
      su_dotenv B env ''JWT_PUBLIC_KEY_PEM'' = Inr pub \<longrightarrow>
      encoding_key_from_ed_pem (su_jwt B) priv = Inr ek \<longrightarrow>
      decoding_key_from_ed_pem (su_jwt B) pub = Inr dk \<longrightarrow> keypair ek dk"
  shows "auth_service (sv_state sv) \<alpha> keypair drawn
    \<and> sv_routes sv = build_production_router \<and> as_jwt (sv_grpc sv) = st_jwt (sv_state sv)
    \<and> access_ttl (st_jwt (sv_state sv)) = secs 900 \<and> refresh_ttl (st_jwt (sv_state sv)) = secs 604800
    \<and> (\<exists>key from_email. st_email (sv_state sv) = Postmark key from_email)"
proof -
  from assms(1) obtain c pool redis jwt passwords s0 s1 s2 where
    c: "read_settings (su_parse_addr B) (su_dotenv B env) s0 = (Inr c, s1)"
    and pool: "su_pg_connect B 10 (s_database_url c) s1 = (Inr pool, s2)"
    and redis: "su_redis_open B (s_redis_url c) = Inr redis"
    and jwt: "from_ed25519_pem (su_jwt B) (s_jwt_private_pem c) (s_jwt_public_pem c) = Inr jwt"
    and st: "sv_state sv = app_state_with B pool jwt passwords redis
      (email_client_new (s_postmark_api_key c) (s_postmark_from_email c)) (s_app_base_url c)"
    and sv: "sv_routes sv = build_production_router" "sv_grpc sv = auth_service_impl_new jwt"
    by (rule start_up_ok)
  have pems: "su_dotenv B env ''JWT_PRIVATE_KEY_PEM'' = Inr (s_jwt_private_pem c)"
    "su_dotenv B env ''JWT_PUBLIC_KEY_PEM'' = Inr (s_jwt_public_pem c)"
    using c unfolding read_settings_def require_var_def Let_def by (auto elim!: bindE_InrE)
  have keys: "keypair (encoding_key jwt) (decoding_key jwt)" and
    ttl: "access_ttl jwt = secs (15 * 60)" "refresh_ttl jwt = secs (7 * 24 * 3600)"
    using jwt assms(6) pems by (auto simp: from_ed25519_pem_def split: sum.splits)
  have log: "draw_log ((su_env B)\<lparr>pg_next := pg_next pool, pg_uuid := pg_uuid pool\<rparr>) drawn"
    using assms(5) pool by blast
  have "auth_service (sv_state sv) \<alpha> keypair drawn"
    unfolding auth_service_def auth_service_axioms_def session_cache_def st app_state_with_def
    using assms(2-4) redis log keys ttl by (simp add: session_secs_def)
  with sv ttl show ?thesis
    by (simp add: st app_state_with_def auth_service_impl_new_def email_client_new_def)
qed

lemma started_server_meets_contract_witness:
  "\<exists>sv. start_up ref_startup ref_environ () = (Inr sv, ())
    \<and> auth_service (sv_state sv) fst (=) ref_drawn \<and> access_ttl (st_jwt (sv_state sv)) = secs 900"
proof -
  obtain sv where start: "start_up ref_startup ref_environ () = (Inr sv, ())"
    using ref_start_up by blast
  have redis: "\<forall>url R. su_redis_open ref_startup url = Inr R \<longrightarrow> redis_service R fst"
    using sim.redis_service_axioms by (simp add: ref_startup_def)
  have log: "\<forall>n url x pool x'. su_pg_connect ref_startup n url x = (Inr pool, x') \<longrightarrow>
      draw_log ((su_env ref_startup)\<lparr>pg_next := pg_next pool, pg_uuid := pg_uuid pool\<rparr>) ref_drawn"
    using ref_log.draw_log_axioms by (simp add: ref_startup_def)
  have keys: "\<forall>priv pub ek dk. su_dotenv ref_startup ref_environ ''JWT_PRIVATE_KEY_PEM'' = Inr priv \<longrightarrow>
      su_dotenv ref_startup ref_environ ''JWT_PUBLIC_KEY_PEM'' = Inr pub \<longrightarrow>
      encoding_key_from_ed_pem (su_jwt ref_startup) priv = Inr ek \<longrightarrow>
      decoding_key_from_ed_pem (su_jwt ref_startup) pub = Inr dk \<longrightarrow> ek = dk"
    by (simp add: ref_startup_def ref_environ_def ref_jwt_def)
  have lib: "uuid_codec (su_uuid ref_startup)" "jwt_library (su_jwt ref_startup) (=)"
    using bits.uuid_codec_axioms ref_jwt.jwt_library_axioms by (simp_all add: ref_startup_def)
  from started_server_meets_contract [OF start redis lib log keys] start show ?thesis by blast
qed

end
