(* ===== verification/Interleaving.thy ===== *)
theory Interleaving
  imports Session_Contract
begin

text \<open>
  The token store at the grain at which requests really interleave. The server handles many requests
  at once; what is atomic is one Redis command (the pipelines of the code are not transactions), so
  between two commands of one request any other request may act. Here each operation of
  \<open>src/data/token_store.rs\<close> is a program of single commands. Run without interruption it does what the
  operation of \<open>Token_Store\<close> does; run among others it is a task of the step relation \<open>istep\<close>, where
  requests and replies may also be lost and time may pass.
\<close>

section \<open>Programs of commands\<close>

datatype op_result = Stored | Revoked "uuid option" | Revoked_All nat | Limited bool

datatype prog =
    Finished "data_error + op_result"
  | Command redis_cmd "redis_error + reply \<Rightarrow> prog"

definition query_prog :: "redis_cmd \<Rightarrow> (reply \<Rightarrow> redis_error + 'a) \<Rightarrow> ('a \<Rightarrow> prog) \<Rightarrow> prog" where
  "query_prog c conv k = Command c (\<lambda>x. case x of
       Inl e \<Rightarrow> Finished (Inl (Cache e))
     | Inr rep \<Rightarrow> (case conv rep of Inl e \<Rightarrow> Finished (Inl (Cache e)) | Inr v \<Rightarrow> k v))"

definition first_error :: "redis_error option \<Rightarrow> redis_error + reply \<Rightarrow> redis_error option" where
  "first_error err x = (case err of Some e \<Rightarrow> Some e
     | None \<Rightarrow> (case x of Inl e \<Rightarrow> Some e | Inr _ \<Rightarrow> None))"

text \<open>A pipeline runs all its commands and reports the first error.\<close>

fun pipe_prog :: "redis_cmd list \<Rightarrow> redis_error option \<Rightarrow> prog \<Rightarrow> prog" where
  "pipe_prog [] None k = k"
| "pipe_prog [] (Some e) k = Finished (Inl (Cache e))"
| "pipe_prog (c # cs) err k = Command c (\<lambda>x. pipe_prog cs (first_error err x) k)"

definition store_prog :: "uuid_lib \<Rightarrow> uuid \<Rightarrow> uuid \<Rightarrow> u64 \<Rightarrow> prog" where
  "store_prog U jti user_id ttl_secs =
     pipe_prog (store_cmds U jti user_id ttl_secs) None (Finished (Inr Stored))"

definition revoke_prog :: "'r redis_api \<Rightarrow> uuid_lib \<Rightarrow> uuid \<Rightarrow> prog" where
  "revoke_prog R U jti =
     query_prog (GETDEL (refresh_key U jti)) (to_opt_string R) (\<lambda>val.
       let res = Finished (Inr (Revoked (Option.bind val (uuid_parse U)))) in
       case val of
         Some uid_str \<Rightarrow>
           (case uuid_parse U uid_str of
              Some user_id \<Rightarrow> query_prog (SREM (sessions_key U user_id) (uuid_show U jti)) Inr (\<lambda>_. res)
            | None \<Rightarrow> res)
       | None \<Rightarrow> res)"

definition revoke_all_prog :: "'r redis_api \<Rightarrow> uuid_lib \<Rightarrow> uuid \<Rightarrow> prog" where
  "revoke_all_prog R U user_id =
     query_prog (SMEMBERS (sessions_key U user_id)) (to_strings R) (\<lambda>jtis.
       if length jtis = 0 then Finished (Inr (Revoked_All 0))
       else pipe_prog (revoke_cmds U user_id jtis) None (Finished (Inr (Revoked_All (length jtis)))))"

section \<open>Without interruption\<close>

primrec run_prog :: "prog \<Rightarrow> instant \<Rightarrow> keyspace \<Rightarrow> (data_error + op_result) \<times> keyspace" where
  "run_prog (Finished r) = (\<lambda>t ks. (r, ks))"
| "run_prog (Command c k) = (\<lambda>t ks. case ks_exec c t ks of (x, ks') \<Rightarrow> run_prog (k x) t ks')"

lemma run_query_prog:
  "ks_exec c t ks = (Inr rep, ks') \<Longrightarrow> conv rep = Inr v \<Longrightarrow>
    run_prog (query_prog c conv k) t ks = run_prog (k v) t ks'"
  by (simp add: query_prog_def)

lemma run_pipe_prog:
  "ks_all_ok cs t ks \<Longrightarrow> run_prog (pipe_prog cs None k) t ks = run_prog k t (ks_run cs t ks)"
  by (induction cs arbitrary: ks) (auto simp: first_error_def split: prod.splits sum.splits)

lemma ks_run_dels:
  "ks_run (map (\<lambda>s. DEL (f s)) xs) t ks = (\<lambda>k. if k \<in> f ` set xs then None else ks k)"
  by (induction xs arbitrary: ks) auto

lemma ks_run_revoke_cong: "set xs = set ys \<Longrightarrow> ks_run (revoke_cmds U u xs) t ks = ks_run (revoke_cmds U u ys) t ks"
  by (simp add: revoke_cmds_def ks_run_append ks_run_dels)

context session_cache begin

lemma run_store_prog:
  assumes "store_refresh_token R U j u ttl t r = (Inr y, r')"
  shows "run_prog (store_prog U j u ttl) t (\<alpha> r) = (Inr Stored, \<alpha> r')"
  using store_ok [of j u ttl t r r'] assms by (simp add: store_prog_def run_pipe_prog)

lemma run_drop:
  assumes "drop_from_index R U j val t r = (Inr y, r')"
  shows "run_prog (case val of
         Some uid_str \<Rightarrow>
           (case uuid_parse U uid_str of
              Some user_id \<Rightarrow> query_prog (SREM (sessions_key U user_id) (uuid_show U j)) Inr (\<lambda>_. Finished res)
            | None \<Rightarrow> Finished res)
       | None \<Rightarrow> Finished res) t (\<alpha> r) = (res, \<alpha> r')"
  using assms unfolding drop_from_index_def
  by (auto split: option.splits elim!: bindE_InrE dest!: exec_ok simp: query_prog_def simp del: ks_exec.simps)

lemma run_revoke_prog:
  assumes wt: "well_typed U (\<alpha> r)" and run: "revoke_refresh_token R U j t r = (Inr v, r')"
  shows "run_prog (revoke_prog R U j) t (\<alpha> r) = (Inr (Revoked v), \<alpha> r')"
proof -
  obtain r1 val r2 where conn: "rd_connect R r = (Inr (), r1)"
    and get: "rd_query R (GETDEL (refresh_key U j)) (to_opt_string R) t r1 = (Inr val, r2)"
    and v: "v = Option.bind val (uuid_parse U)"
    and drop: "drop_from_index R U j val t r2 = (Inr (), r')"
    using run unfolding revoke_refresh_token_def by (auto elim!: bindE_InrE)
  have \<alpha>1: "\<alpha> r1 = \<alpha> r" using conn by (rule connect)
  obtain rep where rep: "ks_exec (GETDEL (refresh_key U j)) t (\<alpha> r) = (Inr rep, \<alpha> r2)"
      "to_opt_string R rep = Inr val"
  proof (rule query_InrE [OF get])
    fix rep rep' assume *: "ks_exec (GETDEL (refresh_key U j)) t (\<alpha> r1) = (Inr rep', \<alpha> r2)"
      "same_reply rep rep'" "to_opt_string R rep = Inr val"
    then have "rep' = rep" using typed_lookups(1) [OF wt, of t j] by (auto simp: \<alpha>1)
    with * show thesis by (intro that) (simp_all add: \<alpha>1 del: ks_exec.simps)
  qed
  show ?thesis
    unfolding revoke_prog_def run_query_prog [where conv = "to_opt_string R", OF rep] Let_def v by (rule run_drop [OF drop])
qed

lemma run_revoke_all_prog:
  assumes wt: "well_typed U (\<alpha> r)" and run: "revoke_all_sessions R U u t r = (Inr n, r')"
  shows "run_prog (revoke_all_prog R U u) t (\<alpha> r) = (Inr (Revoked_All n), \<alpha> r')"
proof -
  obtain r1 js r2 where conn: "rd_connect R r = (Inr (), r1)"
    and get: "rd_query R (SMEMBERS (sessions_key U u)) (to_strings R) t r1 = (Inr js, r2)"
    and rest: "(if length js = 0 then okE 0
      else bindE (mapErrE Cache (rd_pipe R (revoke_cmds U u js) t)) (\<lambda>_. okE (length js))) r2 = (Inr n, r')"
    using run unfolding revoke_all_sessions_def by (elim bindE_InrE) auto
  have \<alpha>1: "\<alpha> r1 = \<alpha> r" using conn by (rule connect)
  note m = smembers_reply [OF wt \<alpha>1 get]
  obtain ms where ms: "ks_exec (SMEMBERS (sessions_key U u)) t (\<alpha> r) = (Inr (Arr ms), \<alpha> r)"
      "set ms = set js" "length ms = length js"
    using typed_lookups(2) [OF wt, of t u] m(1,2)
    by (auto simp: indexed_def distinct_card)
  have run1: "run_prog (revoke_all_prog R U u) t (\<alpha> r)
      = run_prog (if length ms = 0 then Finished (Inr (Revoked_All 0))
          else pipe_prog (revoke_cmds U u ms) None (Finished (Inr (Revoked_All (length ms))))) t (\<alpha> r)"
    unfolding revoke_all_prog_def by (rule run_query_prog [OF ms(1)]) (simp add: strings_arr)
  show ?thesis
  proof (cases "js = []")
    case True
    with rest run1 ms m(3) show ?thesis by simp
  next
    case False
    with rest have p: "ks_all_ok (revoke_cmds U u js) t (\<alpha> r)" "\<alpha> r' = ks_run (revoke_cmds U u js) t (\<alpha> r)" "n = length js"
      using m(3) by (auto elim!: bindE_InrE dest!: pipe_ok)
    have "ks_all_ok (revoke_cmds U u ms) t (\<alpha> r)"
      unfolding revoke_cmds_def using del_all_ok [of refresh_str_key ms "sessions_key U u" t "\<alpha> r"] by simp
    with False run1 ms p show ?thesis
      by (simp add: run_pipe_prog ks_run_revoke_cong [OF ms(2)])
  qed
qed

end

section \<open>Interleaved steps\<close>

type_synonym istate = "instant \<times> prog list \<times> keyspace"

inductive istep :: "istate \<Rightarrow> istate \<Rightarrow> bool" where
  answered: "i < length ps \<Longrightarrow> ps ! i = Command c k \<Longrightarrow> ks_exec c t ks = (x, ks') \<Longrightarrow>
    istep (t, ps, ks) (t, ps[i := k x], ks')"
| request_lost: "i < length ps \<Longrightarrow> ps ! i = Command c k \<Longrightarrow>
    istep (t, ps, ks) (t, ps[i := Finished (Inl (Cache e))], ks)"
| reply_lost: "i < length ps \<Longrightarrow> ps ! i = Command c k \<Longrightarrow> ks_exec c t ks = (x, ks') \<Longrightarrow>
    istep (t, ps, ks) (t, ps[i := Finished (Inl (Cache e))], ks')"
| passes: "0 \<le> d \<Longrightarrow> istep (t, ps, ks) (t + d, ps, ks)"

abbreviation isteps :: "istate \<Rightarrow> istate \<Rightarrow> bool" where
  "isteps \<equiv> istep\<^sup>*\<^sup>*"

text \<open>A task that is not interrupted runs to the end, and a pipeline runs all its commands.\<close>

lemma isteps_run_prog:
  assumes "i < length ps" and "ps ! i = p" and "run_prog p t ks = (r, ks')"
  shows "isteps (t, ps, ks) (t, ps[i := Finished r], ks')"
  using assms
proof (induction p arbitrary: ps ks)
  case (Finished r0)
  then have "ps[i := Finished r] = ps" "ks' = ks" by (auto intro: list_update_same_conv [THEN iffD2])
  then show ?case by simp
next
  case (Command c k)
  obtain x ks1 where x: "ks_exec c t ks = (x, ks1)" by fastforce
  have "istep (t, ps, ks) (t, ps[i := k x], ks1)" using Command.prems x by (intro answered) simp_all
  moreover have "isteps (t, ps[i := k x], ks1) (t, ps[i := k x, i := Finished r], ks')"
    using Command.prems x by (intro Command.IH) simp_all
  ultimately show ?case by (simp add: converse_rtranclp_into_rtranclp)
qed

lemma isteps_pipe_prog:
  assumes "i < length ps" and "ps ! i = pipe_prog cs None k" and "ks_all_ok cs t ks"
  shows "isteps (t, ps, ks) (t, ps[i := k], ks_run cs t ks)"
  using assms
proof (induction cs arbitrary: ps ks)
  case Nil
  then have "ps[i := k] = ps" by auto
  then show ?case by simp
next
  case (Cons c cs)
  obtain x ks1 where x: "ks_exec c t ks = (x, ks1)" by fastforce
  with Cons.prems(3) have ok: "first_error None x = None" "ks_all_ok cs t ks1" "ks_run (c # cs) t ks = ks_run cs t ks1"
    by (auto simp: first_error_def split: sum.splits)
  have "istep (t, ps, ks) (t, ps[i := pipe_prog cs None k], ks1)"
    using answered [of i ps c "\<lambda>x. pipe_prog cs (first_error None x) k"] Cons.prems(1,2) x ok(1) by fastforce
  moreover have "isteps (t, ps[i := pipe_prog cs None k], ks1)
      (t, ps[i := pipe_prog cs None k, i := k], ks_run cs t ks1)"
    using Cons.prems(1) ok(2) by (intro Cons.IH) simp_all
  ultimately show ?case using ok(3) by (simp add: converse_rtranclp_into_rtranclp)
qed

section \<open>What a program can still do\<close>

primrec all_cmds :: "(redis_cmd \<Rightarrow> bool) \<Rightarrow> prog \<Rightarrow> bool" where
  "all_cmds P (Finished r) \<longleftrightarrow> True"
| "all_cmds P (Command c k) \<longleftrightarrow> P c \<and> (\<forall>x. all_cmds P (k x))"

text \<open>The program may still report a redeemed token without another \<open>GETDEL\<close> of the key.\<close>

primrec granted :: "string \<Rightarrow> prog \<Rightarrow> bool" where
  "granted key (Finished r) \<longleftrightarrow> (\<exists>u. r = Inr (Revoked (Some u)))"
| "granted key (Command c k) \<longleftrightarrow> c \<noteq> GETDEL key \<and> (\<exists>x. granted key (k x))"

text \<open>It is granted by a \<open>GETDEL\<close> that returned a value only.\<close>

primrec honest :: "string \<Rightarrow> prog \<Rightarrow> bool" where
  "honest key (Finished r) \<longleftrightarrow> True"
| "honest key (Command c k) \<longleftrightarrow> (\<forall>x. honest key (k x))
     \<and> (c = GETDEL key \<longrightarrow> (\<forall>x. granted key (k x) \<longrightarrow> x \<notin> range Inl \<and> x \<noteq> Inr Nil_Reply))"

definition creates_not :: "string \<Rightarrow> redis_cmd \<Rightarrow> bool" where
  "creates_not key c \<longleftrightarrow> (cmd_key c = Some key \<longrightarrow> c = GETDEL key \<or> c = DEL key)"

lemma creates_not_exec:
  assumes "creates_not key c"
  shows "snd (ks_exec c t ks) key = ks key \<or> snd (ks_exec c t ks) key = None"
proof (cases "cmd_key c = Some key")
  case True
  with assms have "c = GETDEL key \<or> c = DEL key" by (simp add: creates_not_def)
  then show ?thesis by (auto split: option.splits redis_value.splits)
qed (simp add: ks_exec_frame)

lemma getdel_value:
  assumes "ks_exec (GETDEL key) t ks = (x, ks')" and "x \<notin> range Inl" and "x \<noteq> Inr Nil_Reply"
  shows "ks key \<noteq> None" and "ks' key = None"
  using assms by (auto simp: lookup_def split: option.splits redis_value.splits if_splits)

lemma all_cmds_pipe:
  assumes "\<And>c. c \<in> set cs \<Longrightarrow> P c" and "all_cmds P k"
  shows "all_cmds P (pipe_prog cs err k)"
  using assms(1)
proof (induction cs arbitrary: err)
  case Nil
  with assms(2) show ?case by (cases err) simp_all
qed simp

lemma all_cmds_query: "P c \<Longrightarrow> (\<And>v. all_cmds P (k v)) \<Longrightarrow> all_cmds P (query_prog c conv k)"
  by (simp add: query_prog_def split: sum.split)

lemma revoke_prog_honest:
  assumes "to_opt_string R Nil_Reply = Inr None"
  shows "honest (refresh_key U j) (revoke_prog R U j)"
proof -
  have "honest (refresh_key U j) (case v of
         Some uid_str \<Rightarrow>
           (case uuid_parse U uid_str of
              Some user_id \<Rightarrow> query_prog (SREM (sessions_key U user_id) (uuid_show U j)) Inr (\<lambda>_. Finished r)
            | None \<Rightarrow> Finished r)
       | None \<Rightarrow> Finished r)" for v r
    by (simp add: query_prog_def split: option.split sum.split)
  then show ?thesis
    using assms by (auto simp: revoke_prog_def Let_def query_prog_def split: sum.splits)
qed

lemma revoke_prog_start: "\<not> granted (refresh_key U j) (revoke_prog R U j)"
  by (simp add: revoke_prog_def query_prog_def)

section \<open>A refresh token is redeemed once under any interleaving\<close>

text \<open>
  \<open>I\<close> are the tasks that revoke the token with key \<open>key\<close>: at most one of them is granted, and if one
  is then the key is gone.
\<close>

definition once_inv :: "string \<Rightarrow> nat set \<Rightarrow> prog list \<Rightarrow> keyspace \<Rightarrow> bool" where
  "once_inv key I ps ks \<longleftrightarrow> I \<subseteq> {..<length ps} \<and> (\<forall>p \<in> set ps. all_cmds (creates_not key) p)
     \<and> (\<forall>i \<in> I. honest key (ps ! i)) \<and> (\<forall>i \<in> I. granted key (ps ! i) \<longrightarrow> ks key = None)
     \<and> (\<forall>i \<in> I. \<forall>i' \<in> I. granted key (ps ! i) \<longrightarrow> granted key (ps ! i') \<longrightarrow> i = i')"

lemma once_inv_replace:
  assumes inv: "once_inv key I ps ks" and i: "i < length ps"
    and key: "ks' key = ks key \<or> ks' key = None"
    and p: "all_cmds (creates_not key) p" "i \<in> I \<Longrightarrow> honest key p"
    and g: "i \<in> I \<Longrightarrow> granted key p \<Longrightarrow> granted key (ps ! i) \<or> (ks key \<noteq> None \<and> ks' key = None)"
  shows "once_inv key I (ps[i := p]) ks'"
proof -
  have all: "\<forall>q \<in> set (ps[i := p]). all_cmds (creates_not key) q"
    using inv p(1) set_update_subset_insert [of ps i p] by (auto simp: once_inv_def)
  have before: "granted key (ps ! i') \<Longrightarrow> i' \<in> I \<Longrightarrow> ks key = None" for i'
    using inv unfolding once_inv_def by blast
  have "ks' key = None" if "i' \<in> I" "granted key (ps[i := p] ! i')" for i'
    using that before [of i'] before [of i] key g i by (cases "i' = i") auto
  moreover have "a = b" if "a \<in> I" "b \<in> I" "granted key (ps[i := p] ! a)" "granted key (ps[i := p] ! b)" for a b
  proof -
    have old: "granted key (ps ! a) \<Longrightarrow> granted key (ps ! b) \<Longrightarrow> a = b" using inv that(1,2) by (simp add: once_inv_def)
    from that g i old before [of a] before [of b] show ?thesis
      by (cases "a = i"; cases "b = i") auto
  qed
  moreover have "honest key (ps[i := p] ! i')" if "i' \<in> I" for i'
    using inv p(2) that i by (cases "i' = i") (simp_all add: once_inv_def)
  ultimately show ?thesis
    using inv all by (simp add: once_inv_def)
qed

lemma once_inv_step:
  assumes "istep (t, ps, ks) (t', ps', ks')" and inv: "once_inv key I ps ks"
  shows "once_inv key I ps' ks'"
  using assms(1)
proof (cases rule: istep.cases)
  case (answered i c k x)
  then have c: "all_cmds (creates_not key) (Command c k)"
    and h: "i \<in> I \<Longrightarrow> honest key (Command c k)"
    using inv nth_mem [of i ps] by (auto simp: once_inv_def simp del: all_cmds.simps honest.simps)
  have "ks' key = ks key \<or> ks' key = None"
    using creates_not_exec [of key c t ks] c answered by simp
  moreover have "granted key (ps ! i) \<or> (ks key \<noteq> None \<and> ks' key = None)" if "i \<in> I" "granted key (k x)"
  proof (cases "c = GETDEL key")
    case True
    with h [OF that(1)] that(2) have "x \<notin> range Inl" "x \<noteq> Inr Nil_Reply" by auto
    with getdel_value [of key t ks x ks'] answered True show ?thesis by simp
  qed (use that(2) answered in auto)
  ultimately show ?thesis
    using once_inv_replace [OF inv, of i ks' "k x"] answered c h by simp
next
  case (request_lost i c k e)
  then show ?thesis using once_inv_replace [OF inv, of i ks "Finished (Inl (Cache e))"] by simp
next
  case (reply_lost i c k x e)
  then have "all_cmds (creates_not key) (Command c k)"
    using inv nth_mem [of i ps] by (auto simp: once_inv_def simp del: all_cmds.simps)
  with creates_not_exec [of key c t ks] reply_lost have "ks' key = ks key \<or> ks' key = None" by simp
  with once_inv_replace [OF inv, of i ks' "Finished (Inl (Cache e))"] reply_lost show ?thesis by simp
next
  case (passes d)
  with inv show ?thesis by simp
qed

lemma once_inv_steps:
  assumes "isteps s s'" and "once_inv key I (fst (snd s)) (snd (snd s))"
  shows "once_inv key I (fst (snd s')) (snd (snd s'))"
  using assms by (induction rule: rtranclp_induct) (auto dest: once_inv_step)

section \<open>The programs of the token store\<close>

context session_cache begin

lemma store_prog_cmds: "j' \<noteq> j \<Longrightarrow> all_cmds (creates_not (refresh_key U j)) (store_prog U j' u ttl)"
  unfolding store_prog_def by (rule all_cmds_pipe) (auto simp: store_cmds_def creates_not_def)

lemma revoke_prog_cmds: "all_cmds (creates_not (refresh_key U j)) (revoke_prog R U j')"
  unfolding revoke_prog_def Let_def
  by (rule all_cmds_query; auto simp: creates_not_def split: option.split intro!: all_cmds_query)

lemma revoke_all_prog_cmds: "all_cmds (creates_not (refresh_key U j)) (revoke_all_prog R U u)"
  unfolding revoke_all_prog_def
  by (rule all_cmds_query)
    (auto simp: creates_not_def revoke_cmds_def refresh_key_def intro!: all_cmds_pipe)

lemmas store_progs_cmds = store_prog_cmds revoke_prog_cmds revoke_all_prog_cmds

lemma lookup_live: "lookup t ks k = Some (v, d) \<Longrightarrow> live t d"
  by (simp add: lookup_Some_iff)

text \<open>
  The window of \<open>revoke_all_sessions\<close>: a token that is stored after the index has been read and before
  it is deleted is not revoked, and is in no index afterwards.
\<close>

lemma revoke_all_window:
  assumes idx: "lookup t ks (sessions_key U u) = Some (RSet ms, d)" "ms \<noteq> []"
    and fresh: "uuid_show U j \<notin> set ms"
  obtains ks' where
    "isteps (t, [revoke_all_prog R U u, store_prog U j u refresh_ttl_secs], ks)
       (t, [Finished (Inr (Revoked_All (length ms))), Finished (Inr Stored)], ks')"
    and "\<And>t'. t \<le> t' \<Longrightarrow> t' < t + secs session_secs \<Longrightarrow> session_of U t' ks' j = Some u"
    and "ks' (sessions_key U u) = None"
proof -
  let ?del = "pipe_prog (revoke_cmds U u ms) None (Finished (Inr (Revoked_All (length ms))))"
  let ?B = "store_prog U j u refresh_ttl_secs"
  let ?ks1 = "ks_run (store_cmds U j u refresh_ttl_secs) t ks"
  let ?ks2 = "ks_run (revoke_cmds U u ms) t ?ks1"
  have "istep (t, [revoke_all_prog R U u, ?B], ks) (t, [?del, ?B], ks)"
    using answered [of 0 "[revoke_all_prog R U u, ?B]" "SMEMBERS (sessions_key U u)" _ t ks "Inr (Arr ms)" ks] idx
    by (simp add: revoke_all_prog_def query_prog_def strings_arr)
  moreover have "ks_all_ok (store_cmds U j u refresh_ttl_secs) t ks"
    using idx by (simp add: store_cmds_def lookup_live [OF idx(1)] session_secs_def)
  from isteps_pipe_prog [of 1 "[?del, ?B]", OF _ _ this]
  have "isteps (t, [?del, ?B], ks) (t, [?del, Finished (Inr Stored)], ?ks1)"
    by (simp add: store_prog_def)
  moreover have "ks_all_ok (revoke_cmds U u ms) t ?ks1"
    unfolding revoke_cmds_def by (rule del_all_ok)
  from isteps_pipe_prog [of 0 "[?del, Finished (Inr Stored)]", OF _ _ this]
  have "isteps (t, [?del, Finished (Inr Stored)], ?ks1)
      (t, [Finished (Inr (Revoked_All (length ms))), Finished (Inr Stored)], ?ks2)"
    by simp
  ultimately have "isteps (t, [revoke_all_prog R U u, ?B], ks)
      (t, [Finished (Inr (Revoked_All (length ms))), Finished (Inr Stored)], ?ks2)"
    by (meson converse_rtranclp_into_rtranclp rtranclp_trans)
  moreover have "session_of U t' ?ks2 j = Some u" if "t \<le> t'" "t' < t + secs session_secs" for t'
    using session_of_run_store [of refresh_ttl_secs t t' j u ks] that fresh
    by (simp add: session_of_run_revoke)
  moreover have "?ks2 (sessions_key U u) = None" by (simp add: revoke_cmds_def ks_run_append)
  ultimately show thesis by (rule that)
qed

lemma revoke_all_unindexed:
  assumes "\<alpha> r (sessions_key U u) = None" and "revoke_all_sessions R U u t r = (Inr n, r')"
  shows "n = 0 \<and> \<alpha> r' = \<alpha> r"
proof -
  from assms(2) obtain r1 js r2 where conn: "rd_connect R r = (Inr (), r1)"
    and get: "rd_query R (SMEMBERS (sessions_key U u)) (to_strings R) t r1 = (Inr js, r2)"
    and rest: "(if length js = 0 then okE 0
      else bindE (mapErrE Cache (rd_pipe R (revoke_cmds U u js) t)) (\<lambda>_. okE (length js))) r2 = (Inr n, r')"
    unfolding revoke_all_sessions_def by (elim bindE_InrE) auto
  from get have "js = [] \<and> \<alpha> r2 = \<alpha> r1"
    by (rule query_InrE)
      (use assms(1) connect [OF conn] in \<open>auto simp: lookup_def same_reply_Arr strings_arr\<close>)
  with rest connect [OF conn] show ?thesis by simp
qed

end

end
