(* ===== verification/Rate_Interleaving.thy ===== *)
theory Rate_Interleaving
  imports Interleaving Cache_Invariant
begin

text \<open>
  The rate limiter of \<open>src/middleware/mod.rs\<close> at the grain of single commands, among the programs of
  \<open>Interleaving\<close>. It counts with one \<open>INCR\<close>, so that no two requests see the same number: within a
  window it admits five by their number, in whatever order the commands arrive.
\<close>

section \<open>The check as a program\<close>

definition rate_rest :: "string \<Rightarrow> u64 \<Rightarrow> prog" where
  "rate_rest key count =
     (let res = Finished (Inr (Limited (RATE_LIMIT_MAX < count)))
      in if count = 1 then query_prog (EXPIRE key RATE_LIMIT_WINDOW_SECS) Inr (\<lambda>_. res) else res)"

definition rate_prog :: "'r redis_api \<Rightarrow> string \<Rightarrow> prog" where
  "rate_prog R key = query_prog (INCRBY key 1) (to_u64 R) (rate_rest key)"

lemma rate_rest_first: "rate_rest key 1 = query_prog (EXPIRE key RATE_LIMIT_WINDOW_SECS) Inr (\<lambda>_. Finished (Inr (Limited False)))"
  by (simp add: rate_rest_def RATE_LIMIT_MAX_def)

lemma rate_prog_start [simp]:
  "rate_prog R key \<noteq> Finished r" "rate_prog R key \<noteq> rate_rest key' n" "rate_rest key 1 \<noteq> Finished r"
  "Finished r \<noteq> rate_rest key 1" "Finished r \<noteq> rate_prog R key"
  by (auto simp: rate_prog_def rate_rest_def query_prog_def Let_def)

context redis_service begin

lemma run_rate_prog:
  assumes ok: "rate_ok t (\<alpha> r) key" and run: "check_rate_limit R key t r = (Inr b, r')"
  shows "run_prog (rate_prog R key) t (\<alpha> r) = (Inr (Limited b), \<alpha> r')"
proof -
  obtain r1 count r2 where conn: "rd_connect R r = (Inr (), r1)"
    and incr: "rd_query R (INCRBY key 1) (to_u64 R) t r1 = (Inr count, r2)"
    and expire: "count = 1 \<Longrightarrow> \<exists>rep. rd_exec R (EXPIRE key RATE_LIMIT_WINDOW_SECS) t r2 = (Inr rep, r')"
    and other: "count \<noteq> 1 \<Longrightarrow> r' = r2" and b: "b \<longleftrightarrow> RATE_LIMIT_MAX < count"
    using run unfolding check_rate_limit_def by (auto elim!: bindE_InrE split: if_splits)
  obtain rep rep' where rep: "ks_exec (INCRBY key 1) t (\<alpha> r1) = (Inr rep', \<alpha> r2)"
      "same_reply rep rep'" "to_u64 R rep = Inr count"
    using incr by (rule query_InrE)
  then have "rep' = rep" by (auto split: option.splits redis_value.splits if_splits)
  with rep connect [OF conn] have start: "run_prog (rate_prog R key) t (\<alpha> r) = run_prog (rate_rest key count) t (\<alpha> r2)"
    unfolding rate_prog_def by (intro run_query_prog) simp_all
  show ?thesis
  proof (cases "count = 1")
    case True
    then obtain rep where "rd_exec R (EXPIRE key RATE_LIMIT_WINDOW_SECS) t r2 = (Inr rep, r')" using expire by blast
    then obtain rep' where "ks_exec (EXPIRE key RATE_LIMIT_WINDOW_SECS) t (\<alpha> r2) = (Inr rep', \<alpha> r')"
      by (auto dest!: exec_ok simp del: ks_exec.simps)
    with start True b show ?thesis by (simp add: rate_rest_def query_prog_def Let_def del: ks_exec.simps)
  next
    case False
    with start other b show ?thesis by (simp add: rate_rest_def)
  qed
qed

end

section \<open>The counter\<close>

text \<open>The counter of \<open>key\<close> is at \<open>v\<close>, and is not forgotten before \<open>T\<close>.\<close>

definition counts :: "int \<Rightarrow> string \<Rightarrow> instant \<Rightarrow> instant \<Rightarrow> keyspace \<Rightarrow> bool" where
  "counts v key T t ks \<longleftrightarrow> (v = 0 \<and> lookup t ks key = None)
     \<or> (1 \<le> v \<and> (\<exists>d. ks key = Some (RNum v, d) \<and> (\<forall>x. d = Some x \<longrightarrow> T \<le> x)))"

lemma counts_lookup: "counts v key T t ks \<Longrightarrow> t < T \<Longrightarrow> v = 0 \<and> lookup t ks key = None
    \<or> 1 \<le> v \<and> (\<exists>d. lookup t ks key = Some (RNum v, d) \<and> (\<forall>x. d = Some x \<longrightarrow> T \<le> x))"
  by (auto simp: counts_def lookup_Some_iff live_def split: option.splits)

lemma counts_incr:
  assumes "counts v key T t ks" and "t < T" and "v + 1 \<le> redis_max" and "ks_exec (INCRBY key 1) t ks = (x, ks')"
  shows "x = Inr (Num (v + 1)) \<and> counts (v + 1) key T t ks'"
  using counts_lookup [OF assms(1,2)] assms(3,4) by (auto simp: counts_def)

lemma counts_expire:
  assumes "counts v key T t ks" and "t < T" and "T \<le> t + secs RATE_LIMIT_WINDOW_SECS"
    and "ks_exec (EXPIRE key RATE_LIMIT_WINDOW_SECS) t ks = (x, ks')"
  shows "counts v key T t ks'"
  using counts_lookup [OF assms(1,2)] assms(3,4) by (auto simp: counts_def RATE_LIMIT_WINDOW_SECS_def)

lemma counts_other:
  "counts v key T t ks \<Longrightarrow> cmd_key c \<noteq> Some key \<Longrightarrow> ks_exec c t ks = (x, ks') \<Longrightarrow> counts v key T t ks'"
  using ks_exec_frame [of c key t ks] by (auto simp: counts_def lookup_def)

lemma counts_later: "counts v key T t ks \<Longrightarrow> 0 \<le> d \<Longrightarrow> counts v key T (t + d) ks"
  using lookup_mono [of "t + d" ks key _ t] by (cases "lookup (t + d) ks key") (auto simp: counts_def)

section \<open>The invariant\<close>

text \<open>The check admits its request, or will unless a call fails.\<close>

definition admits :: "string \<Rightarrow> prog \<Rightarrow> bool" where
  "admits key p \<longleftrightarrow> p = rate_rest key 1 \<or> p = Finished (Inr (Limited False))"

text \<open>
  \<open>I\<close> are the tasks that check \<open>key\<close>; the others do not touch it. No more are admitted than were counted,
  and than five; no more were counted than have begun; and one is refused after five others only.
\<close>

definition rate_inv ::
    "'r redis_api \<Rightarrow> string \<Rightarrow> instant \<Rightarrow> nat set \<Rightarrow> instant \<Rightarrow> prog list \<Rightarrow> keyspace \<Rightarrow> bool" where
  "rate_inv R key T I t ps ks \<longleftrightarrow> T \<le> t + secs RATE_LIMIT_WINDOW_SECS \<and> I \<subseteq> {..<length ps}
     \<and> (\<forall>i < length ps. i \<notin> I \<longrightarrow> all_cmds (\<lambda>c. cmd_key c \<noteq> Some key) (ps ! i))
     \<and> (\<forall>i \<in> I. ps ! i = rate_prog R key \<or> ps ! i = rate_rest key 1 \<or> ps ! i \<in> range Finished)
     \<and> (\<exists>v. counts v key T t ks \<and> int (card {i \<in> I. admits key (ps ! i)}) \<le> min 5 v
          \<and> v \<le> int (card {i \<in> I. ps ! i \<noteq> rate_prog R key})
          \<and> (\<forall>i \<in> I. ps ! i = Finished (Inr (Limited True)) \<longrightarrow> 5 < v))"

lemma rate_inv_other:
  assumes inv: "rate_inv R key T I t ps ks" and i: "i < length ps" "i \<notin> I"
    and p: "all_cmds (\<lambda>c. cmd_key c \<noteq> Some key) p"
    and ks': "\<And>v. counts v key T t ks \<Longrightarrow> counts v key T t ks'"
  shows "rate_inv R key T I t (ps[i := p]) ks'"
proof -
  have same: "ps[i := p] ! k = ps ! k" if "k \<in> I" for k using that i(2) by (cases "k = i") auto
  have sets: "{k \<in> I. admits key (ps[i := p] ! k)} = {k \<in> I. admits key (ps ! k)}"
    "{k \<in> I. ps[i := p] ! k \<noteq> rate_prog R key} = {k \<in> I. ps ! k \<noteq> rate_prog R key}" using same by auto
  obtain v where v: "counts v key T t ks" "int (card {k \<in> I. admits key (ps ! k)}) \<le> min 5 v"
    "v \<le> int (card {k \<in> I. ps ! k \<noteq> rate_prog R key})"
    "\<forall>k \<in> I. ps ! k = Finished (Inr (Limited True)) \<longrightarrow> 5 < v"
    using inv unfolding rate_inv_def by blast
  have "all_cmds (\<lambda>c. cmd_key c \<noteq> Some key) (ps[i := p] ! k)" if "k < length ps" "k \<notin> I" for k
    using that inv p by (cases "k = i") (simp_all add: rate_inv_def)
  moreover have "\<exists>v. counts v key T t ks' \<and> int (card {k \<in> I. admits key (ps[i := p] ! k)}) \<le> min 5 v
      \<and> v \<le> int (card {k \<in> I. ps[i := p] ! k \<noteq> rate_prog R key})
      \<and> (\<forall>k \<in> I. ps[i := p] ! k = Finished (Inr (Limited True)) \<longrightarrow> 5 < v)"
    unfolding sets using v ks' [OF v(1)] same by (intro exI [of _ v]) simp
  ultimately show ?thesis using inv same by (simp add: rate_inv_def)
qed

lemma rate_inv_own:
  assumes inv: "rate_inv R key T I t ps ks" and i: "i \<in> I" and p: "p = rate_rest key 1 \<or> p \<in> range Finished"
    and step: "\<And>v. counts v key T t ks \<Longrightarrow> v \<le> int (length ps) \<Longrightarrow>
      (counts v key T t ks' \<and> (admits key p \<longrightarrow> admits key (ps ! i)) \<and> p \<noteq> Finished (Inr (Limited True)))
      \<or> (counts (v + 1) key T t ks' \<and> ps ! i = rate_prog R key \<and> (admits key p \<longrightarrow> v + 1 \<le> 5)
          \<and> (p = Finished (Inr (Limited True)) \<longrightarrow> 5 < v + 1))"
  shows "rate_inv R key T I t (ps[i := p]) ks'"
proof -
  let ?adm = "\<lambda>ps. {k \<in> I. admits key (ps ! k)}" and ?begun = "\<lambda>ps. {k \<in> I. ps ! k \<noteq> rate_prog R key}"
  have I: "I \<subseteq> {..<length ps}" and len: "i < length ps" using inv i by (auto simp: rate_inv_def)
  have fin: "finite I" using I finite_subset by blast
  obtain v where v: "counts v key T t ks" "int (card (?adm ps)) \<le> min 5 v" "v \<le> int (card (?begun ps))"
    "\<forall>k \<in> I. ps ! k = Finished (Inr (Limited True)) \<longrightarrow> 5 < v"
    using inv unfolding rate_inv_def by blast
  have "card (?begun ps) \<le> card {..<length ps}" using I by (intro card_mono) auto
  with v(3) have le: "v \<le> int (length ps)" by simp
  have p_rp: "p \<noteq> rate_prog R key" using p by (metis rangeE rate_prog_start(1,2))
  have new: "ps[i := p] ! k = (if k = i then p else ps ! k)" for k using len by simp
  have begun: "?begun (ps[i := p]) = insert i (?begun ps)" using p_rp i by (auto simp: new)
  have adm: "?adm (ps[i := p]) \<subseteq> insert i (?adm ps)" by (auto simp: new)
  have shape: "\<forall>k \<in> I. ps[i := p] ! k = rate_prog R key \<or> ps[i := p] ! k = rate_rest key 1 \<or> ps[i := p] ! k \<in> range Finished"
    using inv p unfolding new rate_inv_def by auto
  have rest: "\<forall>k < length ps. k \<notin> I \<longrightarrow> all_cmds (\<lambda>c. cmd_key c \<noteq> Some key) (ps[i := p] ! k)"
    using inv i unfolding new rate_inv_def by auto
  have "\<exists>v'. counts v' key T t ks' \<and> int (card (?adm (ps[i := p]))) \<le> min 5 v'
      \<and> v' \<le> int (card (?begun (ps[i := p])))
      \<and> (\<forall>k \<in> I. ps[i := p] ! k = Finished (Inr (Limited True)) \<longrightarrow> 5 < v')"
    using step [OF v(1) le]
  proof (elim disjE conjE)
    assume a: "counts v key T t ks'" "admits key p \<longrightarrow> admits key (ps ! i)" "p \<noteq> Finished (Inr (Limited True))"
    have "?adm (ps[i := p]) \<subseteq> ?adm ps" using a(2) i by (auto simp: new split: if_splits)
    then have "card (?adm (ps[i := p])) \<le> card (?adm ps)" using fin by (intro card_mono) auto
    moreover have "card (?begun ps) \<le> card (?begun (ps[i := p]))"
      unfolding begun using fin by (intro card_mono) auto
    moreover have "\<forall>k \<in> I. ps[i := p] ! k = Finished (Inr (Limited True)) \<longrightarrow> 5 < v" using v(4) a(3) by (auto simp: new)
    ultimately show ?thesis using a(1) v(2,3) by (intro exI [of _ v]) auto
  next
    assume a: "counts (v + 1) key T t ks'" "ps ! i = rate_prog R key" "admits key p \<longrightarrow> v + 1 \<le> 5"
      "p = Finished (Inr (Limited True)) \<longrightarrow> 5 < v + 1"
    have "card (?adm (ps[i := p])) \<le> (if admits key p then card (?adm ps) + 1 else card (?adm ps))"
    proof (cases "admits key p")
      case True
      have "card (?adm (ps[i := p])) \<le> card (insert i (?adm ps))" using adm fin by (intro card_mono) auto
      also have "\<dots> \<le> card (?adm ps) + 1" by (simp add: card_insert_le_m1 card_insert_if)
      finally show ?thesis using True by simp
    next
      case False
      then have "?adm (ps[i := p]) \<subseteq> ?adm ps" by (auto simp: new split: if_splits)
      then show ?thesis using False fin by (simp add: card_mono)
    qed
    moreover have "card (?begun (ps[i := p])) = card (?begun ps) + 1" unfolding begun using a(2) fin by simp
    moreover have "\<forall>k \<in> I. ps[i := p] ! k = Finished (Inr (Limited True)) \<longrightarrow> 5 < v + 1"
      using v(4) a(4) by (auto simp: new)
    ultimately show ?thesis using a(1,3) v(2,3) by (intro exI [of _ "v + 1"]) (auto split: if_splits)
  qed
  with inv shape rest show ?thesis by (simp add: rate_inv_def)
qed

lemma rate_inv_lost:
  assumes "rate_inv R key T I t ps ks" and "i \<in> I"
  shows "rate_inv R key T I t (ps[i := Finished (Inl e)]) ks"
  by (rule rate_inv_own [OF assms]) (simp_all add: admits_def)

context redis_service begin

text \<open>A command of a check, with the reply that it gets, or with its reply lost.\<close>

lemma rate_inv_exec:
  assumes inv: "rate_inv R key T I t ps ks" and i: "i \<in> I" "ps ! i = Command c k"
    and now: "t < T" and bound: "int (length ps) < redis_max" and x: "ks_exec c t ks = (x, ks')"
    and p: "p = k x \<or> p = Finished (Inl e)"
  shows "rate_inv R key T I t (ps[i := p]) ks'"
proof -
  have window: "T \<le> t + secs RATE_LIMIT_WINDOW_SECS" using inv by (simp add: rate_inv_def)
  have lost: "\<not> admits key (Finished (Inl e))" "Finished (Inl e) \<noteq> Finished (Inr (Limited True))"
    by (simp_all add: admits_def)
  from inv i consider (start) "Command c k = rate_prog R key" | (expire) "Command c k = rate_rest key 1"
    unfolding rate_inv_def by fastforce
  then show ?thesis
  proof cases
    case start
    then have c: "c = INCRBY key 1" and k: "\<And>n. 0 \<le> n \<Longrightarrow> n < 2 ^ 63 \<Longrightarrow> k (Inr (Num n)) = rate_rest key (of_int n)"
      by (auto simp: rate_prog_def query_prog_def u64_num)
    have reply: "counts (v + 1) key T t ks' \<and> k x = (if v = 0 then rate_rest key 1 else Finished (Inr (Limited (5 \<le> v))))"
      if v: "counts v key T t ks" "v \<le> int (length ps)" for v
    proof -
      have n: "0 \<le> v + 1" "v + 1 < 2 ^ 63" "v + 1 \<le> redis_max"
        using v bound by (auto simp: counts_def redis_max_def)
      note i = counts_incr [OF v(1) now n(3) x [unfolded c]]
      have "rate_rest key (of_int (v + 1)) = (if v = 0 then rate_rest key 1 else Finished (Inr (Limited (5 \<le> v))))"
      proof (cases "v = 0")
        case False
        then have "(of_int (v + 1) :: u64) \<noteq> 1" "RATE_LIMIT_MAX < (of_int (v + 1) :: u64) \<longleftrightarrow> 5 \<le> v"
          using of_int_u64_less [OF n(1,2)] by auto
        with False show ?thesis unfolding rate_rest_def Let_def by simp
      qed simp
      with i k [OF n(1,2)] show ?thesis by simp
    qed
    obtain v where v: "counts v key T t ks" "v \<le> int (length ps)"
    proof -
      obtain v where v: "counts v key T t ks" "v \<le> int (card {i \<in> I. ps ! i \<noteq> rate_prog R key})"
        using inv unfolding rate_inv_def by blast
      have "card {i \<in> I. ps ! i \<noteq> rate_prog R key} \<le> card {..<length ps}"
        using inv unfolding rate_inv_def by (intro card_mono) auto
      with v that show thesis by simp
    qed
    have "k x = rate_rest key 1 \<or> k x \<in> range Finished"
      using reply [OF v] by simp
    with p have "p = rate_rest key 1 \<or> p \<in> range Finished" by auto
    then show ?thesis
    proof (rule rate_inv_own [OF inv i(1)], intro disjI2 conjI)
      fix v assume v: "counts v key T t ks" "v \<le> int (length ps)"
      note r = reply [OF v]
      show "counts (v + 1) key T t ks'" using r by blast
      show "ps ! i = rate_prog R key" using start i(2) by simp
      show "admits key p \<longrightarrow> v + 1 \<le> 5"
        using p r lost by (cases "v = 0") (auto simp: admits_def)
      show "p = Finished (Inr (Limited True)) \<longrightarrow> 5 < v + 1"
        using p r by (cases "v = 0") auto
    qed
  next
    case expire
    then have c: "c = EXPIRE key RATE_LIMIT_WINDOW_SECS" and k: "k x = Finished (Inr (Limited False)) \<or> k x \<in> range (Finished \<circ> Inl)"
      by (auto simp: rate_rest_first query_prog_def split: sum.split)
    from k p have "p = rate_rest key 1 \<or> p \<in> range Finished" by auto
    then show ?thesis
    proof (rule rate_inv_own [OF inv i(1)], intro disjI1 conjI)
      fix v assume v: "counts v key T t ks"
      show "counts v key T t ks'" using counts_expire [OF v now window] x c by simp
      show "admits key p \<longrightarrow> admits key (ps ! i)" using expire i(2) by (simp add: admits_def)
      show "p \<noteq> Finished (Inr (Limited True))" using k p by auto
    qed
  qed
qed

lemma rate_inv_step:
  assumes "istep (t, ps, ks) (t', ps', ks')" and inv: "rate_inv R key T I t ps ks"
    and "t' < T" and bound: "int (length ps) < redis_max"
  shows "rate_inv R key T I t' ps' ks'"
  using assms(1)
proof (cases rule: istep.cases)
  case (answered i c k x)
  show ?thesis
  proof (cases "i \<in> I")
    case True
    with rate_inv_exec [OF inv True] answered bound assms(3) show ?thesis by simp
  next
    case False
    then have c: "all_cmds (\<lambda>c. cmd_key c \<noteq> Some key) (Command c k)"
      using inv answered unfolding rate_inv_def by metis
    then have "counts v key T t ks'" if "counts v key T t ks" for v
      using that answered counts_other [of v key T t ks c x ks'] by simp
    from rate_inv_other [OF inv _ False _ this, of "k x"] c answered show ?thesis by simp
  qed
next
  case (request_lost i c k e)
  then show ?thesis
    using rate_inv_lost [OF inv, of i "Cache e"] rate_inv_other [OF inv, of i "Finished (Inl (Cache e))" ks]
    by (cases "i \<in> I") simp_all
next
  case (reply_lost i c k x e)
  show ?thesis
  proof (cases "i \<in> I")
    case True
    from rate_inv_exec [OF inv True, of c k x ks' "Finished (Inl (Cache e))" "Cache e"] reply_lost bound assms(3)
    show ?thesis by simp
  next
    case False
    then have c: "all_cmds (\<lambda>c. cmd_key c \<noteq> Some key) (Command c k)"
      using inv reply_lost unfolding rate_inv_def by metis
    then have "counts v key T t ks'" if "counts v key T t ks" for v
      using that reply_lost counts_other [of v key T t ks c x ks'] by simp
    from rate_inv_other [OF inv _ False _ this, of "Finished (Inl (Cache e))"] c reply_lost show ?thesis by simp
  qed
next
  case (passes d)
  then show ?thesis
    using inv counts_later [of _ key T t ks d] unfolding rate_inv_def by auto
qed

lemma istep_frame: "istep s s' \<Longrightarrow> fst s \<le> fst s' \<and> length (fst (snd s')) = length (fst (snd s))"
  by (induction rule: istep.induct) simp_all

lemma rate_inv_steps:
  assumes "isteps s s'" and "rate_inv R key T I (fst s) (fst (snd s)) (snd (snd s))"
    and "fst s' < T" and "int (length (fst (snd s))) < redis_max"
  shows "rate_inv R key T I (fst s') (fst (snd s')) (snd (snd s'))
    \<and> length (fst (snd s')) = length (fst (snd s))"
  using assms
proof (induction rule: rtranclp_induct)
  case (step s1 s2)
  note f = istep_frame [OF step.hyps(2)]
  with step have "rate_inv R key T I (fst s1) (fst (snd s1)) (snd (snd s1))" "length (fst (snd s1)) = length (fst (snd s))"
    by simp_all
  with rate_inv_step [of "fst s1" "fst (snd s1)" "snd (snd s1)" "fst s2" "fst (snd s2)" "snd (snd s2)"] step f
  show ?case by simp
qed simp

text \<open>At the start the key is not counted, and no check has begun.\<close>

lemma rate_inv_start:
  assumes "lookup t ks key = None" and "\<forall>p \<in> set ps. p = rate_prog R key \<or> all_cmds (\<lambda>c. cmd_key c \<noteq> Some key) p"
  shows "rate_inv R key (t + secs RATE_LIMIT_WINDOW_SECS) {i. i < length ps \<and> ps ! i = rate_prog R key} t ps ks"
proof -
  have "counts 0 key T t ks" for T using assms(1) by (simp add: counts_def)
  moreover have "\<not> admits key (rate_prog R key)" by (simp add: admits_def)
  moreover have "all_cmds (\<lambda>c. cmd_key c \<noteq> Some key) (ps ! i)" if "i < length ps" "ps ! i \<noteq> rate_prog R key" for i
    using assms(2) that nth_mem by blast
  ultimately show ?thesis
    unfolding rate_inv_def by (auto intro!: exI [of _ 0] simp: card_0_eq [THEN iffD2])
qed

end

section \<open>The tasks that do not touch a key of the limiter\<close>

lemma rate_prog_other: "key' \<noteq> key \<Longrightarrow> all_cmds (\<lambda>c. cmd_key c \<noteq> Some key) (rate_prog R key')"
  unfolding rate_prog_def rate_rest_def Let_def by (auto intro!: all_cmds_query)

lemma store_progs_other:
  "all_cmds (\<lambda>c. cmd_key c \<noteq> Some (rate_key path ip)) (store_prog U j u ttl)"
  "all_cmds (\<lambda>c. cmd_key c \<noteq> Some (rate_key path ip)) (revoke_prog R U j)"
  "all_cmds (\<lambda>c. cmd_key c \<noteq> Some (rate_key path ip)) (revoke_all_prog R U u)"
  unfolding store_prog_def revoke_prog_def revoke_all_prog_def Let_def
  by (auto intro!: all_cmds_pipe all_cmds_query simp: store_cmds_def revoke_cmds_def rate_key_other [THEN not_sym]
      split: option.split)

end
