(* ===== verification/Interleaving_Properties.thy ===== *)
theory Interleaving_Properties
  imports Rate_Interleaving Reference_Service
begin

text \<open>
  Properties of the stores under concurrency: the operations of \<open>Token_Store\<close> are the runs of
  its programs without interruption; a refresh token is redeemed by one task at most, whatever the
  interleaving; the window in which a revocation of all sessions misses one; and the rate limiter, which
  is exact under any interleaving.
\<close>

text \<open>
  An operation of the token store, or a check of the limiter, that returns a result is one of the
  interleavings of its program among any other tasks, the one in which no other task acts in between,
  with the same result and the same effect on the keyspace.
\<close>

theorem operations_are_interleavings:
  assumes "session_cache R \<alpha> U" and "well_typed U (\<alpha> r)" and "i < length ps"
  shows "(store_refresh_token R U j u ttl t r = (Inr y, r') \<and> ps ! i = store_prog U j u ttl \<longrightarrow>
      isteps (t, ps, \<alpha> r) (t, ps[i := Finished (Inr Stored)], \<alpha> r'))
    \<and> (revoke_refresh_token R U j t r = (Inr v, r') \<and> ps ! i = revoke_prog R U j \<longrightarrow>
      isteps (t, ps, \<alpha> r) (t, ps[i := Finished (Inr (Revoked v))], \<alpha> r'))
    \<and> (revoke_all_sessions R U u t r = (Inr n, r') \<and> ps ! i = revoke_all_prog R U u \<longrightarrow>
      isteps (t, ps, \<alpha> r) (t, ps[i := Finished (Inr (Revoked_All n))], \<alpha> r'))
    \<and> (check_rate_limit R key t r = (Inr b, r') \<and> rate_ok t (\<alpha> r) key \<and> ps ! i = rate_prog R key \<longrightarrow>
      isteps (t, ps, \<alpha> r) (t, ps[i := Finished (Inr (Limited b))], \<alpha> r'))"
proof -
  have "redis_service R \<alpha>" using assms(1) by (simp add: session_cache_def)
  note redis_service.run_rate_prog [OF this]
  with session_cache.run_store_prog [OF assms(1)] session_cache.run_revoke_prog [OF assms(1,2)]
    session_cache.run_revoke_all_prog [OF assms(1,2)] isteps_run_prog [OF assms(3)]
  show ?thesis by simp
qed

lemma operations_are_interleavings_witness:
  "isteps (0, [revoke_prog sim_api bits_uuid 3], Map.empty) (0, [Finished (Inr (Revoked None))], Map.empty)"
proof -
  have "revoke_refresh_token sim_api bits_uuid 3 0 (Map.empty, []) = (Inr None, (Map.empty, []))"
    by (simp add: eval_monad eval_stores sim_connect_def sim_exec_def sim_next_def lookup_def rd_query_def
        cong: eval_cong)
  with operations_are_interleavings [OF ref_cache.session_cache_axioms, of "(Map.empty, [])" 0
      "[revoke_prog sim_api bits_uuid 3]" 3 _ _ 0 _ "(Map.empty, [])" None]
  show ?thesis by (simp add: well_typed_def)
qed

text \<open>
  A refresh token is redeemed once under any interleaving. However many tasks revoke tokens, revoke
  all sessions of users and store other tokens, in whatever order their commands reach the cache and
  whatever is lost on the way, two tasks cannot both redeem the token \<open>j\<close>; and when one has, it stands
  for nobody.
\<close>

theorem concurrent_redeemed_once:
  assumes "session_cache R \<alpha> U" and "isteps (t, ps, ks) (t', ps', ks')"
    and "\<forall>p \<in> set ps. (\<exists>j'. p = revoke_prog R U j') \<or> (\<exists>u. p = revoke_all_prog R U u)
      \<or> (\<exists>j' u ttl. p = store_prog U j' u ttl \<and> j' \<noteq> j)"
    and "i < length ps" "ps ! i = revoke_prog R U j" "ps' ! i = Finished (Inr (Revoked (Some u)))"
    and "i' < length ps" "ps ! i' = revoke_prog R U j" "ps' ! i' = Finished (Inr (Revoked (Some u')))"
  shows "i = i' \<and> session_of U t'' ks' j = None"
proof -
  let ?key = "refresh_key U j" and ?I = "{i, i'}"
  have nil: "to_opt_string R Nil_Reply = Inr None"
    using assms(1) redis_service.opt_string_nil unfolding session_cache_def by blast
  have "\<forall>p \<in> set ps. all_cmds (creates_not ?key) p"
    using assms(3) by (auto intro: session_cache.store_progs_cmds [OF assms(1)])
  moreover have "honest ?key (ps ! x)" "\<not> granted ?key (ps ! x)" if "x \<in> ?I" for x
    using that assms(5,8) by (auto simp: revoke_prog_honest [OF nil] revoke_prog_start)
  ultimately have "once_inv ?key ?I ps ks" using assms(4,7) by (simp add: once_inv_def)
  with once_inv_steps [OF assms(2)] have "once_inv ?key ?I ps' ks'" by simp
  moreover have "granted ?key (ps' ! i)" "granted ?key (ps' ! i')" using assms(6,9) by simp_all
  ultimately have "i = i'" and "ks' ?key = None" unfolding once_inv_def by blast+
  then show ?thesis by (simp add: session_of_def lookup_def)
qed

lemma concurrent_redeemed_once_witness:
  "\<exists>ks'. isteps (0, [revoke_prog sim_api bits_uuid 3, revoke_prog sim_api bits_uuid 3], fst (cache ref_session))
      (0, [Finished (Inr (Revoked (Some 1))), Finished (Inr (Revoked None))], ks')
    \<and> session_of bits_uuid 0 ks' 3 = None"
proof -
  let ?p = "revoke_prog sim_api bits_uuid 3" and ?q = "Finished (Inr (Revoked (Some 1)))"
  have "\<exists>ks1 ks2. run_prog ?p 0 (fst (cache ref_session)) = (Inr (Revoked (Some 1)), ks1)
      \<and> run_prog ?p 0 ks1 = (Inr (Revoked None), ks2)"
    by (simp add: revoke_prog_def query_prog_def ref_session_def lookup_def)
  then obtain ks1 ks2 where "run_prog ?p 0 (fst (cache ref_session)) = (Inr (Revoked (Some 1)), ks1)"
    and "run_prog ?p 0 ks1 = (Inr (Revoked None), ks2)" by blast
  then have "isteps (0, [?p, ?p], fst (cache ref_session)) (0, [?q, ?p], ks1)"
    and "isteps (0, [?q, ?p], ks1) (0, [?q, Finished (Inr (Revoked None))], ks2)"
    using isteps_run_prog [of 0 "[?p, ?p]" ?p] isteps_run_prog [of 1 "[?q, ?p]" ?p] by simp_all
  then have steps: "isteps (0, [?p, ?p], fst (cache ref_session)) (0, [?q, Finished (Inr (Revoked None))], ks2)"
    by (rule rtranclp_trans)
  have tasks: "\<forall>p \<in> set [?p, ?p]. (\<exists>j'. p = revoke_prog sim_api bits_uuid j')
      \<or> (\<exists>u. p = revoke_all_prog sim_api bits_uuid u)
      \<or> (\<exists>j' u ttl. p = store_prog bits_uuid j' u ttl \<and> j' \<noteq> 3)" by auto
  from concurrent_redeemed_once [OF ref_cache.session_cache_axioms steps tasks, of 0 1 0 1]
  have "session_of bits_uuid 0 ks2 3 = None" by simp
  with steps show ?thesis by blast
qed

text \<open>
  C19. The window of a revocation of all sessions. It reads the index and deletes it with a second call.
  If a login or a refresh of the user stores its token in between, both requests succeed, but the new
  token stays valid for its seven days, and no index lists it: a later revocation of all sessions
  answers that it found none and leaves it valid too.
\<close>

theorem revoke_all_misses_concurrent_store:
  assumes "session_cache R \<alpha> U" and "lookup t ks (sessions_key U u) = Some (RSet ms, d)" and "ms \<noteq> []"
    and "uuid_show U j \<notin> set ms"
  shows "\<exists>ks'. isteps (t, [revoke_all_prog R U u, store_prog U j u refresh_ttl_secs], ks)
       (t, [Finished (Inr (Revoked_All (length ms))), Finished (Inr Stored)], ks')
    \<and> (\<forall>t'. t \<le> t' \<longrightarrow> t' < t + secs session_secs \<longrightarrow> session_of U t' ks' j = Some u)
    \<and> (\<forall>r t' n r'. \<alpha> r = ks' \<longrightarrow> t \<le> t' \<longrightarrow> t' < t + secs session_secs \<longrightarrow>
         revoke_all_sessions R U u t' r = (Inr n, r') \<longrightarrow> n = 0 \<and> session_of U t' (\<alpha> r') j = Some u)"
proof -
  obtain ks' where steps: "isteps (t, [revoke_all_prog R U u, store_prog U j u refresh_ttl_secs], ks)
       (t, [Finished (Inr (Revoked_All (length ms))), Finished (Inr Stored)], ks')"
    and alive: "\<And>t'. t \<le> t' \<Longrightarrow> t' < t + secs session_secs \<Longrightarrow> session_of U t' ks' j = Some u"
    and gone: "ks' (sessions_key U u) = None"
    by (rule session_cache.revoke_all_window [OF assms]) blast
  have "n = 0 \<and> session_of U t' (\<alpha> r') j = Some u"
    if "\<alpha> r = ks'" "t \<le> t'" "t' < t + secs session_secs" "revoke_all_sessions R U u t' r = (Inr n, r')" for r t' n r'
    using session_cache.revoke_all_unindexed [OF assms(1) _ that(4)] alive [OF that(2,3)] gone that(1) by simp
  with steps alive show ?thesis by blast
qed

lemma revoke_all_misses_concurrent_store_witness:
  "\<exists>ps' ks'. isteps (0, [revoke_all_prog sim_api bits_uuid 1, store_prog bits_uuid 5 1 refresh_ttl_secs],
      fst (cache ref_session)) (0, ps', ks') \<and> session_of bits_uuid 0 ks' 5 = Some 1"
proof -
  have idx: "lookup 0 (fst (cache ref_session)) (sessions_key bits_uuid 1)
      = Some (RSet [uuid_show bits_uuid 3], Some (secs session_secs))"
    by (simp add: ref_session_def lookup_def session_secs_def secs_def)
  have fresh: "uuid_show bits_uuid 5 \<notin> set [uuid_show bits_uuid 3]" by simp
  from revoke_all_misses_concurrent_store [OF ref_cache.session_cache_axioms idx _ fresh]
  obtain ks' where "isteps (0, [revoke_all_prog sim_api bits_uuid 1, store_prog bits_uuid 5 1 refresh_ttl_secs],
      fst (cache ref_session)) (0, [Finished (Inr (Revoked_All 1)), Finished (Inr Stored)], ks')"
    and "\<And>t'. 0 \<le> t' \<Longrightarrow> t' < secs session_secs \<Longrightarrow> session_of bits_uuid t' ks' 5 = Some 1" by auto
  moreover have "(0 :: int) < secs session_secs" by (simp add: session_secs_def)
  ultimately show ?thesis by blast
qed

text \<open>
  C29. The limiter is exact under any interleaving. Whatever checks of this address, of others and
  operations of the token store run at the same time, in whatever order their commands reach the cache
  and whatever is lost, within 60 seconds from a state without a counter at most five checks of the
  address admit their request by its number, and one that refuses it does so because five other checks
  have begun.
\<close>

theorem rate_limit_concurrent:
  assumes "redis_service R \<alpha>" and "isteps (t, ps, ks) (t', ps', ks')"
    and "key = rate_key path ip" and "lookup t ks key = None"
    and "t' < t + secs RATE_LIMIT_WINDOW_SECS" and "int (length ps) < redis_max"
    and "\<forall>p \<in> set ps. (\<exists>key'. p = rate_prog R key') \<or> (\<exists>j. p = revoke_prog R U j)
      \<or> (\<exists>u. p = revoke_all_prog R U u) \<or> (\<exists>j u ttl. p = store_prog U j u ttl)"
  shows "card {i. i < length ps \<and> ps ! i = rate_prog R key \<and> ps' ! i = Finished (Inr (Limited False))} \<le> 5
    \<and> (\<forall>i < length ps. ps ! i = rate_prog R key \<longrightarrow> ps' ! i = Finished (Inr (Limited True)) \<longrightarrow>
         5 \<le> card {k. k < length ps \<and> k \<noteq> i \<and> ps ! k = rate_prog R key \<and> ps' ! k \<noteq> rate_prog R key})"
proof -
  let ?I = "{i. i < length ps \<and> ps ! i = rate_prog R key}"
  let ?begun = "{i \<in> ?I. ps' ! i \<noteq> rate_prog R key}"
  have "\<forall>p \<in> set ps. p = rate_prog R key \<or> all_cmds (\<lambda>c. cmd_key c \<noteq> Some key) p"
    using assms(3,7) rate_prog_other [of _ key R] store_progs_other by metis
  from redis_service.rate_inv_steps [OF assms(1,2), unfolded fst_conv snd_conv,
      OF redis_service.rate_inv_start [OF assms(1,4) this] assms(5,6)]
  obtain v where v: "int (card {i \<in> ?I. admits key (ps' ! i)}) \<le> min 5 v" "v \<le> int (card ?begun)"
    "\<forall>i \<in> ?I. ps' ! i = Finished (Inr (Limited True)) \<longrightarrow> 5 < v"
    unfolding rate_inv_def by blast
  have "card {i. i < length ps \<and> ps ! i = rate_prog R key \<and> ps' ! i = Finished (Inr (Limited False))}
      \<le> card {i \<in> ?I. admits key (ps' ! i)}"
    by (intro card_mono) (auto simp: admits_def)
  moreover have "5 \<le> card {k. k < length ps \<and> k \<noteq> i \<and> ps ! k = rate_prog R key \<and> ps' ! k \<noteq> rate_prog R key}"
    if "i < length ps" "ps ! i = rate_prog R key" "ps' ! i = Finished (Inr (Limited True))" for i
  proof -
    have "5 < v" using v(3) that by blast
    moreover have "?begun - {i} = {k. k < length ps \<and> k \<noteq> i \<and> ps ! k = rate_prog R key \<and> ps' ! k \<noteq> rate_prog R key}"
      by auto
    moreover have "card (?begun - {i}) = card ?begun - 1" using that by (intro card_Diff_singleton) simp
    ultimately show ?thesis using v(2) by simp
  qed
  ultimately show ?thesis using v(1) by auto
qed

lemma run_ref_check:
  assumes "ks = (if n = 0 then Map.empty else [key \<mapsto> (RNum n, Some 60000000)])" and "0 \<le> n" "n < 10"
  shows "run_prog (rate_prog sim_api key) 0 ks = (Inr (Limited (5 \<le> n)), [key \<mapsto> (RNum (n + 1), Some 60000000)])"
  using assms of_int_u64_less [of "n + 1"] sim.u64_num [of "n + 1"] sim.u64_num [of 1]
  by (auto simp: rate_prog_def rate_rest_def query_prog_def lookup_def redis_max_def RATE_LIMIT_WINDOW_SECS_def
      RATE_LIMIT_MAX_def Let_def secs_def)

text \<open>Checks of one key, one after another.\<close>

lemma isteps_ref_checks:
  assumes "m \<le> 10"
  shows "isteps (0, replicate m (rate_prog sim_api key) @ ps, Map.empty)
    (0, map (\<lambda>n. Finished (Inr (Limited (5 \<le> int n)))) [0..<m] @ ps,
      if int m = 0 then Map.empty else [key \<mapsto> (RNum (int m), Some 60000000)])"
  using assms
proof (induction m arbitrary: ps)
  case (Suc m)
  let ?done = "map (\<lambda>n. Finished (Inr (Limited (5 \<le> int n)))) [0..<m]" and ?p = "rate_prog sim_api key"
  let ?ks = "if int m = 0 then Map.empty else [key \<mapsto> (RNum (int m), Some 60000000)]"
  have run: "run_prog ?p 0 ?ks = (Inr (Limited (5 \<le> int m)), [key \<mapsto> (RNum (int m + 1), Some 60000000)])"
    using Suc.prems by (intro run_ref_check refl) simp_all
  have "isteps (0, ?done @ ?p # ps, ?ks)
      (0, (?done @ ?p # ps)[m := Finished (Inr (Limited (5 \<le> int m)))], [key \<mapsto> (RNum (int m + 1), Some 60000000)])"
    by (rule isteps_run_prog [OF _ _ run]) (simp_all add: nth_append)
  then have one: "isteps (0, ?done @ ?p # ps, ?ks) (0, ?done @ Finished (Inr (Limited (5 \<le> int m))) # ps,
      [key \<mapsto> (RNum (int m + 1), Some 60000000)])"
    by (simp add: list_update_append)
  have "isteps (0, replicate m ?p @ ?p # ps, Map.empty) (0, ?done @ ?p # ps, ?ks)"
    using Suc.prems by (intro Suc.IH) simp
  from rtranclp_trans [OF this one] show ?case
    by (simp add: replicate_app_Cons_same add.commute fun_upd_def)
qed simp

lemma rate_limit_concurrent_witness:
  "\<exists>ps' ks'. isteps (0, replicate 6 (rate_prog sim_api (rate_key ''/login'' ''10.0.0.1'')), Map.empty) (0, ps', ks')
    \<and> card {i. i < 6 \<and> ps' ! i = Finished (Inr (Limited False))} \<le> 5
    \<and> ps' ! 5 = Finished (Inr (Limited True))
    \<and> 5 \<le> card {k. k < 6 \<and> k \<noteq> 5 \<and> ps' ! k \<noteq> rate_prog sim_api (rate_key ''/login'' ''10.0.0.1'')}"
proof -
  let ?key = "rate_key ''/login'' ''10.0.0.1''"
  let ?p = "rate_prog sim_api ?key" and ?ok = "Finished (Inr (Limited False))"
  obtain rs where rs: "rs = replicate 6 ?p" "length rs = 6" "\<And>i. i < 6 \<Longrightarrow> rs ! i = ?p" by simp
  obtain fs where fs: "fs = map (\<lambda>n. Finished (Inr (Limited (5 \<le> int n)))) [0..<6]"
    "fs ! 5 = Finished (Inr (Limited True))" by simp
  have steps: "isteps (0, rs, Map.empty) (0, fs, [?key \<mapsto> (RNum 6, Some 60000000)])"
    using isteps_ref_checks [of 6 ?key "[]"] by (simp add: rs(1) fs(1))
  have tasks: "\<forall>p \<in> set rs. (\<exists>key'. p = rate_prog sim_api key') \<or> (\<exists>j. p = revoke_prog sim_api bits_uuid j)
      \<or> (\<exists>u. p = revoke_all_prog sim_api bits_uuid u) \<or> (\<exists>j u ttl. p = store_prog bits_uuid j u ttl)"
    by (auto simp: rs(1))
  have time: "(0 :: int) < 0 + secs RATE_LIMIT_WINDOW_SECS" "int (length rs) < redis_max"
    by (simp_all add: RATE_LIMIT_WINDOW_SECS_def redis_max_def rs(2))
  have none: "lookup 0 Map.empty ?key = None" by (simp add: lookup_def)
  note limit = rate_limit_concurrent [OF sim.redis_service_axioms steps refl none time tasks]
  have five: "5 < length rs" "rs ! 5 = ?p" by (simp_all add: rs(2,3))
  have "5 \<le> card {k. k < length rs \<and> k \<noteq> 5 \<and> rs ! k = ?p \<and> fs ! k \<noteq> ?p}"
    using limit five fs(2) by blast
  also have "{k. k < length rs \<and> k \<noteq> 5 \<and> rs ! k = ?p \<and> fs ! k \<noteq> ?p} = {k. k < 6 \<and> k \<noteq> 5 \<and> fs ! k \<noteq> ?p}"
    using rs(2,3) by auto
  finally have "5 \<le> card {k. k < 6 \<and> k \<noteq> 5 \<and> fs ! k \<noteq> ?p}" .
  moreover have "{i. i < length rs \<and> rs ! i = ?p \<and> fs ! i = ?ok} = {i. i < 6 \<and> fs ! i = ?ok}"
    using rs(2,3) by auto
  with limit have "card {i. i < 6 \<and> fs ! i = ?ok} \<le> 5" by simp
  ultimately show ?thesis using steps fs(2) unfolding rs(1) by blast
qed

end
