(* ===== verification/Tasks.thy ===== *)
theory Tasks
  imports Router
begin

text \<open>
  The handlers of \<open>src/routes/mod.rs\<close> at the grain at which the server runs them. A request is a task
  that gives up the processor at every \<open>await\<close>; between two calls to the cache or the database any
  other task may act. A task is what a handler has still to do: the next call and how it goes on. A
  pipeline is one call here; \<open>Interleaving\<close> takes it apart. Run without interruption, the task of a
  handler does what the handler of \<open>Routes\<close> does.
\<close>

section \<open>Tasks\<close>

text \<open>
  \<open>Issue j u a r\<close> is a login or a refresh of user \<open>u\<close> that has signed its tokens \<open>a\<close> and \<open>r\<close> and has
  still to store the id \<open>j\<close> of \<open>r\<close> before it answers with them.
\<close>

datatype ('r, 'g) task =
    Done "api_error + response"
  | Act "('r, 'g) world \<Rightarrow> ('r, 'g) task \<times> ('r, 'g) world"
  | Issue uuid uuid string string

text \<open>One call; its error ends the task.\<close>

definition act ::
    "(('r, 'g) world, api_error, 'a) io \<Rightarrow> ('a \<Rightarrow> ('r, 'g) task) \<Rightarrow> ('r, 'g) task" where
  "act m k = Act (\<lambda>w. case m w of (Inl e, w') \<Rightarrow> (Done (Inl e), w') | (Inr a, w') \<Rightarrow> (k a, w'))"

abbreviation answer :: "nat \<Rightarrow> body \<Rightarrow> ('r, 'g) task" where
  "answer c b \<equiv> Done (Inr (respond c b))"

abbreviation refuse :: "api_error \<Rightarrow> ('r, 'g) task" where
  "refuse e \<equiv> Done (Inl e)"

definition store_session ::
    "('r, 'g) app_state \<Rightarrow> uuid \<Rightarrow> uuid \<Rightarrow> string \<Rightarrow> string \<Rightarrow> (('r, 'g) world, api_error, response) io" where
  "store_session St j uid access_tok refresh_tok =
     bindE (cache_op (store_refresh_token (st_redis St) (st_uuid St) j uid refresh_ttl_secs)) (\<lambda>_.
     okE (respond 200 (Login_Response access_tok refresh_tok)))"

section \<open>The calls of the stores\<close>

definition cache_call ::
    "(instant \<Rightarrow> ('r, redis_error, 'a) io) \<Rightarrow> (('r, 'g) world, api_error, 'a) io" where
  "cache_call m = cache_op (\<lambda>t. mapErrE Cache (m t))"

definition drop_task ::
    "('r, 'g) app_state \<Rightarrow> uuid \<Rightarrow> string option \<Rightarrow> ('r, 'g) task \<Rightarrow> ('r, 'g) task" where
  "drop_task St jti val k =
     (case val of
        Some uid_str \<Rightarrow>
          (case uuid_parse (st_uuid St) uid_str of
             Some owner \<Rightarrow>
               act (cache_call (rd_exec (st_redis St) (SREM (sessions_key (st_uuid St) owner) (uuid_show (st_uuid St) jti))))
                 (\<lambda>_. k)
           | None \<Rightarrow> k)
      | None \<Rightarrow> k)"

definition revoke_task ::
    "('r, 'g) app_state \<Rightarrow> uuid \<Rightarrow> (uuid option \<Rightarrow> ('r, 'g) task) \<Rightarrow> ('r, 'g) task" where
  "revoke_task St jti k =
     act (cache_call (\<lambda>_. rd_connect (st_redis St))) (\<lambda>_.
     act (cache_call (rd_query (st_redis St) (GETDEL (refresh_key (st_uuid St) jti)) (to_opt_string (st_redis St))))
       (\<lambda>val.
     drop_task St jti val (k (Option.bind val (uuid_parse (st_uuid St))))))"

definition revoke_all_task ::
    "('r, 'g) app_state \<Rightarrow> uuid \<Rightarrow> (nat \<Rightarrow> ('r, 'g) task) \<Rightarrow> ('r, 'g) task" where
  "revoke_all_task St uid k =
     act (cache_call (\<lambda>_. rd_connect (st_redis St))) (\<lambda>_.
     act (cache_call (rd_query (st_redis St) (SMEMBERS (sessions_key (st_uuid St) uid)) (to_strings (st_redis St))))
       (\<lambda>jtis.
     if length jtis = 0 then k 0
     else act (cache_call (rd_pipe (st_redis St) (revoke_cmds (st_uuid St) uid jtis))) (\<lambda>_. k (length jtis))))"

definition is_locked_task ::
    "('r, 'g) app_state \<Rightarrow> string \<Rightarrow> (bool \<Rightarrow> ('r, 'g) task) \<Rightarrow> ('r, 'g) task" where
  "is_locked_task St email k =
     act (cache_call (\<lambda>_. rd_connect (st_redis St))) (\<lambda>_.
     act (cache_call (rd_query (st_redis St) (GET (lockout_key email)) (to_opt_u32 (st_redis St)))) (\<lambda>count.
     k (LOCKOUT_MAX \<le> (case count of None \<Rightarrow> 0 | Some n \<Rightarrow> n))))"

definition record_failure_task ::
    "('r, 'g) app_state \<Rightarrow> string \<Rightarrow> (u32 \<Rightarrow> ('r, 'g) task) \<Rightarrow> ('r, 'g) task" where
  "record_failure_task St email k =
     act (cache_call (\<lambda>_. rd_connect (st_redis St))) (\<lambda>_.
     act (cache_call (rd_query (st_redis St) (INCRBY (lockout_key email) 1) (to_u32 (st_redis St)))) (\<lambda>count.
     act (cache_call (rd_exec (st_redis St) (EXPIRE (lockout_key email) LOCKOUT_WINDOW_SECS))) (\<lambda>_.
     k count)))"

definition clear_failures_task ::
    "('r, 'g) app_state \<Rightarrow> string \<Rightarrow> ('r, 'g) task \<Rightarrow> ('r, 'g) task" where
  "clear_failures_task St email k =
     act (cache_call (\<lambda>_. rd_connect (st_redis St))) (\<lambda>_.
     act (cache_call (rd_exec (st_redis St) (DEL (lockout_key email)))) (\<lambda>_. k))"

section \<open>The handlers as tasks\<close>

definition issue_task :: "('r, 'g) app_state \<Rightarrow> uuid \<Rightarrow> string \<Rightarrow> ('r, 'g) task" where
  "issue_task St uid email =
     act (gen_op (sign_access_token (st_jwt_crate St) (st_env St) (st_jwt St) uid email)) (\<lambda>access_token.
     act (gen_op (sign_refresh_token (st_jwt_crate St) (st_env St) (st_jwt St) uid email))
       (\<lambda>(refresh_token, refresh_jti). Issue refresh_jti uid access_token refresh_token))"

definition register_task :: "('r, 'g) app_state \<Rightarrow> register_request \<Rightarrow> ('r, 'g) task" where
  "register_task St b =
     act (liftE (register_validate b)) (\<lambda>_.
     act (gen_op (\<lambda>_. hash_of (st_argon2_crate St) (st_env St) (st_passwords St) (reg_password b))) (\<lambda>hash.
     act (db_op (create_user (st_env St) (reg_email b) hash)) (\<lambda>user.
     answer 201 (Register_Response (user_id user) (user_email user)))))"

text \<open>What is left of a login after the lockout was checked, and after the password was.\<close>

definition login_verified :: "('r, 'g) app_state \<Rightarrow> login_request \<Rightarrow> user \<Rightarrow> bool \<Rightarrow> ('r, 'g) task" where
  "login_verified St b user verified =
     (if \<not> verified then record_failure_task St (login_email b) (\<lambda>attempts. refuse Unauthorized)
      else clear_failures_task St (login_email b) (issue_task St (user_id user) (user_email user)))"

definition login_unlocked :: "('r, 'g) app_state \<Rightarrow> login_request \<Rightarrow> ('r, 'g) task" where
  "login_unlocked St b =
     act (db_op (\<lambda>_. find_by_email (st_env St) (login_email b))) (\<lambda>found.
     case found of
       None \<Rightarrow> refuse Unauthorized
     | Some user \<Rightarrow>
         act (domain_op (verify_hash (st_argon2_crate St) (st_passwords St) (login_password b) (password_hash user)))
           (login_verified St b user))"

definition login_task :: "('r, 'g) app_state \<Rightarrow> login_request \<Rightarrow> ('r, 'g) task" where
  "login_task St b =
     act (liftE (login_validate b)) (\<lambda>_.
     is_locked_task St (login_email b) (\<lambda>locked.
     if locked then refuse Unauthorized else login_unlocked St b))"

definition refresh_task :: "('r, 'g) app_state \<Rightarrow> refresh_request \<Rightarrow> ('r, 'g) task" where
  "refresh_task St b =
     act (liftE (refresh_validate b)) (\<lambda>_.
     act now (\<lambda>t.
     act (mapErrE (\<lambda>_. Unauthorized)
            (liftE (verify_refresh (st_jwt_crate St) (st_jwt St) (refresh_token b) t))) (\<lambda>claims.
     revoke_task St (c_jti claims) (\<lambda>revoked.
     case revoked of
       None \<Rightarrow> refuse Unauthorized
     | Some _ \<Rightarrow> issue_task St (c_sub claims) (c_email claims)))))"

definition me_task :: "('r, 'g) app_state \<Rightarrow> claims \<Rightarrow> ('r, 'g) task" where
  "me_task St claims = answer 200 (Me_Response (c_sub claims) (c_email claims))"

definition change_password_task ::
    "('r, 'g) app_state \<Rightarrow> claims \<Rightarrow> change_password_request \<Rightarrow> ('r, 'g) task" where
  "change_password_task St claims b =
     act (liftE (change_password_validate b)) (\<lambda>_.
     act (db_op (\<lambda>_. find_by_id (st_env St) (c_sub claims))) (\<lambda>found.
     act (ok_orE Unauthorized found) (\<lambda>user.
     act (domain_op (verify_hash (st_argon2_crate St) (st_passwords St) (current_password b) (password_hash user)))
       (\<lambda>verified.
     if \<not> verified then refuse Unauthorized else
     act (gen_op (\<lambda>_. hash_of (st_argon2_crate St) (st_env St) (st_passwords St) (new_password b))) (\<lambda>new_hash.
     act (db_op (update_password (st_env St) (c_sub claims) new_hash)) (\<lambda>_.
     answer 204 No_Body))))))"

definition delete_me_task :: "('r, 'g) app_state \<Rightarrow> claims \<Rightarrow> ('r, 'g) task" where
  "delete_me_task St claims =
     act (db_op (\<lambda>_. delete_by_id (st_env St) (c_sub claims))) (\<lambda>_. answer 204 No_Body)"

definition health_task :: "('r, 'g) app_state \<Rightarrow> ('r, 'g) task" where
  "health_task St =
     act (attemptE (on_db (\<lambda>_. pg_run (st_env St) (\<lambda>d. (Inr (), d))))) (\<lambda>db_res.
     act (attemptE (on_cache (\<lambda>_. rd_connect (st_redis St)))) (\<lambda>conn_res.
     act (case conn_res of
            Inl e \<Rightarrow> okE (Inl e)
          | Inr _ \<Rightarrow> attemptE (on_cache (rd_exec (st_redis St) PING))) (\<lambda>redis_res.
     let db_ok = (case db_res of Inl (_ :: sqlx_error) \<Rightarrow> False | Inr _ \<Rightarrow> True);
         redis_ok = (case redis_res of Inl (_ :: redis_error) \<Rightarrow> False | Inr _ \<Rightarrow> True)
     in answer (if db_ok \<and> redis_ok then 200 else 503)
          (Health_Response (if db_ok then ''ok'' else ''error'') (if redis_ok then ''ok'' else ''error'')))))"

definition logout_all_task :: "('r, 'g) app_state \<Rightarrow> claims \<Rightarrow> ('r, 'g) task" where
  "logout_all_task St claims = revoke_all_task St (c_sub claims) (\<lambda>count. answer 204 No_Body)"

definition logout_task :: "('r, 'g) app_state \<Rightarrow> logout_request \<Rightarrow> ('r, 'g) task" where
  "logout_task St b =
     act (liftE (logout_validate b)) (\<lambda>_.
     act now (\<lambda>t.
     act (mapErrE (\<lambda>_. Unauthorized)
            (liftE (verify_refresh (st_jwt_crate St) (st_jwt St) (logout_token b) t))) (\<lambda>claims.
     revoke_task St (c_jti claims) (\<lambda>_. answer 204 No_Body))))"

definition reset_request_task :: "('r, 'g) app_state \<Rightarrow> reset_request_body \<Rightarrow> ('r, 'g) task" where
  "reset_request_task St b =
     act (liftE (reset_request_validate b)) (\<lambda>_.
     act (db_op (\<lambda>_. find_by_email (st_env St) (rr_email b))) (\<lambda>found.
     case found of
       Some user \<Rightarrow>
         act (on_gen (\<lambda>_. generate_reset_token (st_digest St) (st_env St))) (\<lambda>(raw_token, hash).
         act now (\<lambda>t.
         act (db_op (\<lambda>_. create_reset_token (st_env St) (user_id user) hash (t + secs 900))) (\<lambda>_.
         act (attemptE (on_mail (send_password_reset (st_env St) (st_email St) (user_email user)
                  (reset_link (st_app_base_url St) raw_token))))
           (\<lambda>_ :: email_error + unit. answer 200 No_Body))))
     | None \<Rightarrow> answer 200 No_Body))"

definition reset_confirm_task :: "('r, 'g) app_state \<Rightarrow> reset_confirm_body \<Rightarrow> ('r, 'g) task" where
  "reset_confirm_task St b =
     act (liftE (reset_confirm_validate b)) (\<lambda>_.
     let hash = token_digest (st_digest St) (rc_token b) in
     act (db_op (consume_reset_token (st_env St) hash)) (\<lambda>consumed.
     act (ok_orE (BadRequest ''invalid or expired reset token'') consumed) (\<lambda>uid.
     act (gen_op (\<lambda>_. hash_of (st_argon2_crate St) (st_env St) (st_passwords St) (rc_new_password b))) (\<lambda>new_hash.
     act (db_op (update_password (st_env St) uid new_hash)) (\<lambda>_.
     revoke_all_task St uid (\<lambda>_. answer 200 No_Body))))))"

section \<open>Without interruption\<close>

primrec run_task ::
    "('r, 'g) app_state \<Rightarrow> ('r, 'g) task \<Rightarrow> (('r, 'g) world, api_error, response) io" where
  "run_task St (Done x) = (\<lambda>w. (x, w))"
| "run_task St (Act f) = (\<lambda>w. case (map_prod (run_task St) id \<circ> f) w of (g, w') \<Rightarrow> g w')"
| "run_task St (Issue j uid a r) = store_session St j uid a r"

lemma run_ends [simp]:
  "run_task St (answer c b) = okE (respond c b)" "run_task St (refuse e) = errE e"
  "run_task St (Issue j uid a r) = store_session St j uid a r"
  by (simp_all add: fun_eq_iff)

declare run_task.simps [simp del]

lemma run_act [simp]: "run_task St (act m k) = bindE m (\<lambda>a. run_task St (k a))"
  by (auto simp: act_def run_task.simps bindE_def fun_eq_iff split: prod.split sum.split)

lemma run_case_option [simp]:
  "run_task St (case x of None \<Rightarrow> p | Some a \<Rightarrow> q a) = (case x of None \<Rightarrow> run_task St p | Some a \<Rightarrow> run_task St (q a))"
  by (simp split: option.split)

lemma run_if [simp]: "run_task St (if c then p else q) = (if c then run_task St p else run_task St q)"
  by simp

text \<open>A composed operation of a store is the sequence of its calls.\<close>

lemma cache_op_bindE:
  "cache_op (\<lambda>t. bindE (m t) (\<lambda>a. n a t)) = bindE (cache_op m) (\<lambda>a. cache_op (n a))"
  by (auto simp: cache_op_def mapErrE_def on_cache_def bindE_def fun_eq_iff split: prod.split sum.split)

lemma cache_op_okE: "cache_op (\<lambda>t. okE a) = okE a"
  by (simp add: cache_op_def mapErrE_def on_cache_def fun_eq_iff)

lemma bindE_cong: "(\<And>a. f a = g a) \<Longrightarrow> bindE m f = bindE m g"
  by (metis ext)

lemma bindE_ok_orE: "bindE (ok_orE e x) f = (case x of None \<Rightarrow> errE e | Some a \<Rightarrow> f a)"
  by (cases x) simp_all

lemma bindE_if: "(if c then bindE m f else bindE m g) = bindE m (\<lambda>a. if c then f a else g a)"
  by simp

lemma run_drop_task:
  "run_task St (drop_task St j val p)
    = bindE (cache_op (drop_from_index (st_redis St) (st_uuid St) j val)) (\<lambda>_. run_task St p)"
  unfolding drop_task_def drop_from_index_def
  by (simp add: cache_call_def cache_op_okE cache_op_bindE bindE_assoc split: option.split)

lemma run_revoke_task:
  "run_task St (revoke_task St j k)
    = bindE (cache_op (revoke_refresh_token (st_redis St) (st_uuid St) j)) (\<lambda>v. run_task St (k v))"
  unfolding revoke_task_def revoke_refresh_token_def cache_op_bindE cache_op_okE
  by (simp add: cache_call_def bindE_assoc run_drop_task)

lemma cache_op_if: "cache_op (\<lambda>t. if c then m t else n t) = (if c then cache_op m else cache_op n)"
  by simp

lemma run_revoke_all_task:
  "run_task St (revoke_all_task St u k)
    = bindE (cache_op (revoke_all_sessions (st_redis St) (st_uuid St) u)) (\<lambda>n. run_task St (k n))"
  unfolding revoke_all_task_def revoke_all_sessions_def cache_op_bindE cache_op_if cache_op_okE
  by (auto simp: cache_call_def bindE_assoc intro!: bindE_cong)

lemma run_is_locked_task:
  "run_task St (is_locked_task St e k)
    = bindE (cache_op (is_locked (st_redis St) e)) (\<lambda>v. run_task St (k v))"
  unfolding is_locked_task_def is_locked_def cache_op_bindE cache_op_okE
  by (simp add: cache_call_def bindE_assoc)

lemma run_record_failure_task:
  "run_task St (record_failure_task St e k)
    = bindE (cache_op (record_failure (st_redis St) e)) (\<lambda>v. run_task St (k v))"
  unfolding record_failure_task_def record_failure_def cache_op_bindE cache_op_okE
  by (simp add: cache_call_def bindE_assoc)

lemma run_clear_failures_task:
  "run_task St (clear_failures_task St e k)
    = bindE (cache_op (clear_failures (st_redis St) e)) (\<lambda>_. run_task St k)"
  unfolding clear_failures_task_def clear_failures_def cache_op_bindE cache_op_okE
  by (simp add: cache_call_def bindE_assoc)

lemma run_issue_task: "run_task St (issue_task St u e) = issue_tokens St u e"
  by (simp add: issue_task_def issue_tokens_def store_session_def case_prod_beta')

lemmas run_tasks = run_revoke_task run_revoke_all_task run_is_locked_task run_record_failure_task
  run_clear_failures_task run_issue_task

lemma run_register_task: "run_task St (register_task St b) = register St b"
  by (simp add: register_task_def register_def)

lemma run_login_task: "run_task St (login_task St b) = login St b"
  by (simp add: login_task_def login_unlocked_def login_verified_def login_def run_tasks
      cong: option.case_cong if_cong)

lemma run_refresh_task: "run_task St (refresh_task St b) = refresh St b"
  by (simp add: refresh_task_def refresh_def run_tasks bindE_ok_orE cong: option.case_cong)

lemma run_me_task: "run_task St (me_task St c) = me c"
  by (simp add: me_task_def me_def)

lemma run_change_password_task: "run_task St (change_password_task St c b) = change_password St c b"
  by (simp add: change_password_task_def change_password_def cong: if_cong)

lemma run_delete_me_task: "run_task St (delete_me_task St c) = delete_me St c"
  by (simp add: delete_me_task_def delete_me_def)

lemma run_logout_all_task: "run_task St (logout_all_task St c) = logout_all St c"
  by (simp add: logout_all_task_def logout_all_def run_tasks)

lemma run_logout_task: "run_task St (logout_task St b) = logout St b"
  by (simp add: logout_task_def logout_def run_tasks)

lemma run_reset_request_task: "run_task St (reset_request_task St b) = password_reset_request St b"
  by (auto simp: reset_request_task_def password_reset_request_def bindE_assoc case_prod_beta'
      intro!: bindE_cong split: option.split) (simp_all add: okE_def)

lemma run_reset_confirm_task: "run_task St (reset_confirm_task St b) = password_reset_confirm St b"
  by (simp add: reset_confirm_task_def password_reset_confirm_def Let_def run_tasks)

lemma run_health_task: "run_task St (health_task St) = health St"
proof -
  have ping: "attemptE (on_cache (\<lambda>t. bindE (rd_connect (st_redis St)) (\<lambda>_. rd_exec (st_redis St) PING t)))
      = bindE (attemptE (on_cache (\<lambda>_. rd_connect (st_redis St)))) (\<lambda>x. case x of
          Inl e \<Rightarrow> okE (Inl e) | Inr _ \<Rightarrow> attemptE (on_cache (rd_exec (st_redis St) PING)))"
    by (auto simp: attemptE_def on_cache_def bindE_def fun_eq_iff split: prod.split sum.split)
  show ?thesis by (simp add: health_task_def health_def ping bindE_assoc Let_def)
qed

end
