(* ===== verification/Concurrent.thy ===== *)
theory Concurrent
  imports Tasks System
begin

text \<open>
  The service with many requests in flight: a pool of the tasks of \<open>Tasks\<close> on one world. Any task may
  make the next step, a new request may arrive, and time passes; a client that goes away is a task that
  is never continued. Finished tasks stay in the pool with their answer. Every handler is \<open>clean\<close>: it makes
  a session only in the step that stores the token it then answers with.
\<close>

section \<open>Steps of a task and of the pool\<close>

inductive tstep ::
    "('r, 'g) app_state \<Rightarrow> ('r, 'g) task \<times> ('r, 'g) world \<Rightarrow> ('r, 'g) task \<times> ('r, 'g) world \<Rightarrow> bool"
  for St where
    call: "f w = (p, w') \<Longrightarrow> tstep St (Act f, w) (p, w')"
  | store: "store_session St j u a r w = (x, w') \<Longrightarrow> tstep St (Issue j u a r, w) (Done x, w')"

inductive_cases tstepE: "tstep St (p, w) (p', w')"

inductive_simps tstep_Act: "tstep St (Act f, w) (p', w')"

inductive_simps tstep_Issue: "tstep St (Issue j u a r, w) (p', w')"

inductive_simps tstep_Done: "tstep St (Done x, w) (p', w')"

text \<open>The requests that can arrive: any handler with any body, and any claims where it takes some.\<close>

definition handler_tasks :: "('r, 'g) app_state \<Rightarrow> ('r, 'g) task set" where
  "handler_tasks St = range (register_task St) \<union> range (login_task St) \<union> range (refresh_task St)
     \<union> range (logout_task St) \<union> range (me_task St) \<union> range (\<lambda>(c, b). change_password_task St c b)
     \<union> range (delete_me_task St) \<union> range (logout_all_task St) \<union> {health_task St}
     \<union> range (reset_request_task St) \<union> range (reset_confirm_task St)"

type_synonym ('r, 'g) pool = "('r, 'g) task list \<times> ('r, 'g) world"

inductive cstep :: "('r, 'g) app_state \<Rightarrow> ('r, 'g) pool \<Rightarrow> ('r, 'g) pool \<Rightarrow> bool"
  for St where
    arrive: "p \<in> handler_tasks St \<Longrightarrow> cstep St (ps, w) (ps @ [p], w)"
  | run: "i < length ps \<Longrightarrow> tstep St (ps ! i, w) (p, w') \<Longrightarrow> cstep St (ps, w) (ps[i := p], w')"
  | time: "0 \<le> d \<Longrightarrow> cstep St (ps, w) (ps, w\<lparr>clock := clock w + d\<rparr>)"

inductive_cases cstepE: "cstep St s s'"

abbreviation csteps :: "('r, 'g) app_state \<Rightarrow> ('r, 'g) pool \<Rightarrow> ('r, 'g) pool \<Rightarrow> bool" where
  "csteps St \<equiv> (cstep St)\<^sup>*\<^sup>*"

definition pool_reachable :: "('r, 'g) app_state \<Rightarrow> ('r \<Rightarrow> keyspace) \<Rightarrow> ('r, 'g) pool \<Rightarrow> bool" where
  "pool_reachable St \<alpha> s \<longleftrightarrow> (\<exists>w. initial \<alpha> w \<and> csteps St ([], w) s)"

text \<open>The steps of one task are steps of the pool, and one of them is to run to its end.\<close>

lemma csteps_task:
  assumes "(tstep St)\<^sup>*\<^sup>* (p, w) (q, w')" and "i < length ps" and "ps ! i = p"
  shows "csteps St (ps, w) (ps[i := q], w')"
  using assms(1)
proof (induction rule: rtranclp_induct2)
  case refl
  with assms(3) have "ps[i := p] = ps" by (simp add: list_update_same_conv assms(2))
  then show ?case by simp
next
  case (step q1 w1 q2 w2)
  have "cstep St (ps[i := q1], w1) ((ps[i := q1])[i := q2], w2)"
    using step(2) assms(2) by (intro run) simp_all
  with step.IH show ?case by simp
qed

lemma tsteps_act: "m w = (Inr a, w') \<Longrightarrow> tstep St (act m k, w) (k a, w')"
  unfolding act_def by (rule call) simp

lemma tsteps_run_task: "run_task St p w = (x, w') \<Longrightarrow> (tstep St)\<^sup>*\<^sup>* (p, w) (Done x, w')"
proof (induction p arbitrary: w)
  case (Done y)
  then show ?case by (simp add: run_task.simps)
next
  case (Act f)
  obtain p w1 where f: "f w = (p, w1)" by fastforce
  with Act.prems have "run_task St p w1 = (x, w')" by (simp add: run_task.simps)
  moreover have "(p, w1) \<in> range f" using f by (metis rangeI)
  ultimately have "(tstep St)\<^sup>*\<^sup>* (p, w1) (Done x, w')" using Act.IH [of "f w" p w1] f by simp
  with call [of f w p w1 St] f show ?case by (simp add: converse_rtranclp_into_rtranclp)
next
  case (Issue j u a r)
  then have "tstep St (Issue j u a r, w) (Done x, w')" by (intro store) simp
  then show ?case by (rule r_into_rtranclp)
qed

section \<open>What a call may do\<close>

text \<open>No live refresh token is stored under the id \<open>j\<close>.\<close>

definition dead :: "('r, 'g) app_state \<Rightarrow> ('r \<Rightarrow> keyspace) \<Rightarrow> uuid \<Rightarrow> ('r, 'g) world \<Rightarrow> bool" where
  "dead St \<alpha> j w \<longleftrightarrow> lookup (clock w) (\<alpha> (cache w)) (refresh_key (st_uuid St) j) = None"

lemma dead_time: "0 \<le> d \<Longrightarrow> dead St \<alpha> j w \<Longrightarrow> dead St \<alpha> j (w\<lparr>clock := clock w + d\<rparr>)"
  using lookup_mono [of "clock w + d" "\<alpha> (cache w)" "refresh_key (st_uuid St) j" _ "clock w"]
  by (cases "lookup (clock w + d) (\<alpha> (cache w)) (refresh_key (st_uuid St) j)") (auto simp: dead_def)

text \<open>A call that stores no token, and at most adds to the log of drawn UUIDs.\<close>

definition quiet ::
    "('r, 'g) app_state \<Rightarrow> ('r \<Rightarrow> keyspace) \<Rightarrow> ('g \<Rightarrow> uuid list) \<Rightarrow> ('r, 'g) world \<Rightarrow> ('r, 'g) world \<Rightarrow> bool" where
  "quiet St \<alpha> drawn w w' \<longleftrightarrow> clock w' = clock w \<and> suffix (drawn (gen w)) (drawn (gen w'))
     \<and> (\<forall>j. dead St \<alpha> j w \<longrightarrow> dead St \<alpha> j w')"

lemma quiet_refl [simp, steps_rules]: "reflp (quiet St \<alpha> drawn)"
  by (simp add: quiet_def reflp_def)

lemma quiet_trans [simp, steps_rules]: "transp (quiet St \<alpha> drawn)"
  unfolding quiet_def transp_def by (auto intro: suffix_order.trans)

text \<open>A command that makes no entry for a refresh token.\<close>

definition unstoring :: "uuid_lib \<Rightarrow> redis_cmd \<Rightarrow> bool" where
  "unstoring U c \<longleftrightarrow>
     (\<forall>j t ks. lookup t ks (refresh_key U j) = None \<longrightarrow> lookup t (snd (ks_exec c t ks)) (refresh_key U j) = None)"

context auth_service begin

lemma unstoring_cmds:
  "unstoring U (GET k)" "unstoring U (DEL k)" "unstoring U (GETDEL k)" "unstoring U PING"
  "unstoring U (SMEMBERS k)" "unstoring (st_uuid St) (SREM (sessions_key (st_uuid St) u) m)"
  "unstoring (st_uuid St) (INCRBY (lockout_key e) n)" "unstoring (st_uuid St) (EXPIRE (lockout_key e) n)"
  by (auto simp: unstoring_def split: option.split redis_value.split)

lemma quiet_on_cache:
  fixes m :: "instant \<Rightarrow> ('r, 'e, 'a) io"
  assumes "\<And>t j. keeps (\<lambda>r. lookup t (\<alpha> r) (refresh_key (st_uuid St) j) = None) (m t)"
  shows "steps (quiet St \<alpha> drawn) (on_cache m)"
proof (rule stepsI)
  fix w :: "('r, 'g) world" and x w' assume "on_cache m w = (x, w')"
  then obtain c where "m (clock w) (cache w) = (x, c)" "w' = w\<lparr>cache := c\<rparr>" by (auto simp: on_cache_iff)
  with stepsD [OF assms this(1)] show "quiet St \<alpha> drawn w w'" by (simp add: quiet_def dead_def)
qed

lemma quiet_calls:
  fixes conv :: "reply \<Rightarrow> redis_error + 'a"
  shows "steps (quiet St \<alpha> drawn) (cache_call (\<lambda>_. rd_connect (st_redis St)))"
    and "unstoring (st_uuid St) c \<Longrightarrow> steps (quiet St \<alpha> drawn) (cache_call (rd_exec (st_redis St) c))"
    and "unstoring (st_uuid St) c \<Longrightarrow> steps (quiet St \<alpha> drawn) (cache_call (rd_query (st_redis St) c conv))"
    and "(\<And>c. c \<in> set cs \<Longrightarrow> unstoring (st_uuid St) c) \<Longrightarrow>
      steps (quiet St \<alpha> drawn) (cache_call (rd_pipe (st_redis St) cs))"
    and "steps (quiet St \<alpha> drawn) (on_cache (\<lambda>_. rd_connect (st_redis St)))"
    and "steps (quiet St \<alpha> drawn) (on_cache (rd_exec (st_redis St) PING))"
  unfolding cache_call_def cache_op_def
  by (intro steps_rules quiet_on_cache keeps_connect keeps_exec keeps_query keeps_pipe;
      simp add: unstoring_def unstoring_cmds(4) [unfolded unstoring_def])+

lemma quiet_other:
  "cache w' = cache w \<Longrightarrow> clock w' = clock w \<Longrightarrow> suffix (drawn (gen w)) (drawn (gen w')) \<Longrightarrow> quiet St \<alpha> drawn w w'"
  by (simp add: quiet_def dead_def)

lemma quiet_on_gen:
  fixes m :: "instant \<Rightarrow> ('g, 'e, 'a) io"
  assumes "\<And>t. grows (m t)"
  shows "steps (quiet St \<alpha> drawn) (on_gen m)"
  by (rule stepsI) (use stepsD [OF assms] in \<open>auto simp: on_gen_iff intro: quiet_other\<close>)

lemma quiet_on_db:
  fixes m :: "instant \<Rightarrow> (database \<times> 'g, 'e, 'a) io"
  assumes "\<And>t. grows_snd (m t)"
  shows "steps (quiet St \<alpha> drawn) (on_db m)"
  by (rule stepsI) (use stepsD [OF assms] in \<open>fastforce simp: on_db_iff intro: quiet_other\<close>)

lemma quiet_on_mail: "steps (quiet St \<alpha> drawn) (on_mail (send_password_reset (st_env St) c to link))"
  by (rule stepsI) (use stepsD [OF grows_mail] in \<open>fastforce simp: on_mail_iff intro: quiet_other\<close>)

lemma quiet_gen:
  "steps (quiet St \<alpha> drawn) (gen_op (\<lambda>_. hash_of A (st_env St) P pw))"
  "steps (quiet St \<alpha> drawn) (gen_op (sign_access_token J (st_env St) M uid email))"
  "steps (quiet St \<alpha> drawn) (gen_op (sign_refresh_token J (st_env St) M uid email))"
  "steps (quiet St \<alpha> drawn) (on_gen (\<lambda>_. generate_reset_token D (st_env St)))"
  unfolding gen_op_def
  by (intro steps_rules quiet_on_gen grows_hash_of grows_sign_access grows_sign_refresh grows_generate)+

lemma quiet_db:
  "steps (quiet St \<alpha> drawn) (db_op (create_user (st_env St) e h))"
  "steps (quiet St \<alpha> drawn) (db_op (\<lambda>_. find_by_email (st_env St) e))"
  "steps (quiet St \<alpha> drawn) (db_op (\<lambda>_. find_by_id (st_env St) i))"
  "steps (quiet St \<alpha> drawn) (db_op (update_password (st_env St) i h))"
  "steps (quiet St \<alpha> drawn) (db_op (\<lambda>_. delete_by_id (st_env St) i))"
  "steps (quiet St \<alpha> drawn) (db_op (\<lambda>_. create_reset_token (st_env St) i h x))"
  "steps (quiet St \<alpha> drawn) (db_op (consume_reset_token (st_env St) h))"
  "steps (quiet St \<alpha> drawn) (on_db (\<lambda>_. pg_run (st_env St) (\<lambda>d. (Inr (), d))))"
  unfolding db_op_def by (intro steps_rules quiet_on_db grows_repositories grows_pg_run)+

lemma quiet_pure:
  "steps (quiet St \<alpha> drawn) (liftE q)" "steps (quiet St \<alpha> drawn) (domain_op r)"
  "steps (quiet St \<alpha> drawn) now" "steps (quiet St \<alpha> drawn) (ok_orE e x)"
  unfolding domain_op_def by (intro steps_rules stepsI; auto simp: now_def quiet_other)+

lemmas quiet_rules = quiet_pure quiet_gen quiet_db quiet_calls quiet_on_mail

end

section \<open>What a task may do\<close>

text \<open>\<open>tok\<close> is, whenever it verifies, the refresh token with the id \<open>j\<close>.\<close>

definition names :: "('r, 'g) app_state \<Rightarrow> string \<Rightarrow> uuid \<Rightarrow> bool" where
  "names St tok j \<longleftrightarrow>
     (\<forall>t c. verify_refresh (st_jwt_crate St) (st_jwt St) tok t = Inr c \<longrightarrow> c_jti c = j)"

fun pending :: "('r, 'g) task \<Rightarrow> uuid option" where
  "pending (Issue j u a r) = Some j"
| "pending _ = None"

fun_cases pending_SomeE: "pending p = Some j"

text \<open>The refresh token that a task has answered with.\<close>

fun handed :: "('r, 'g) task \<Rightarrow> string option" where
  "handed (Done (Inr res)) = (case body res of Login_Response a r \<Rightarrow> Some r | _ \<Rightarrow> None)"
| "handed _ = None"

text \<open>
  \<open>clean p\<close>: every call of \<open>p\<close> is quiet; \<open>p\<close> answers with no token that it has not issued; and the id
  that it issues is drawn in the step before. All handlers are clean, so a session is only made by the
  step \<open>store\<close>.
\<close>

inductive clean ::
    "('r, 'g) app_state \<Rightarrow> ('r \<Rightarrow> keyspace) \<Rightarrow> ('g \<Rightarrow> uuid list) \<Rightarrow> ('r, 'g) task \<Rightarrow> bool"
  for St \<alpha> drawn where
    clean_Done: "clean St \<alpha> drawn (Done x)"
  | clean_Issue: "clean St \<alpha> drawn (Issue j u a r)"
  | clean_Act: "(\<And>w p w'. f w = (p, w') \<Longrightarrow> quiet St \<alpha> drawn w w' \<and> clean St \<alpha> drawn p \<and> handed p = None
      \<and> (\<forall>j u a r. p = Issue j u a r \<longrightarrow> names St r j \<and> (\<exists>ds. drawn (gen w') = j # ds @ drawn (gen w))))
      \<Longrightarrow> clean St \<alpha> drawn (Act f)"

inductive_cases clean_ActE: "clean St \<alpha> drawn (Act f)"

text \<open>A clean task that has issued nothing yet.\<close>

definition fit ::
    "('r, 'g) app_state \<Rightarrow> ('r \<Rightarrow> keyspace) \<Rightarrow> ('g \<Rightarrow> uuid list) \<Rightarrow> ('r, 'g) task \<Rightarrow> bool" where
  "fit St \<alpha> drawn p \<longleftrightarrow> clean St \<alpha> drawn p \<and> handed p = None \<and> pending p = None"

named_theorems fit_rules

lemma fit_refuse [fit_rules]: "fit St \<alpha> drawn (refuse e)"
  by (simp add: fit_def clean_Done)

lemma fit_answer [fit_rules]:
  "fit St \<alpha> drawn (answer c No_Body)" "fit St \<alpha> drawn (answer c (Register_Response i e))"
  "fit St \<alpha> drawn (answer c (Me_Response i e))" "fit St \<alpha> drawn (answer c (Health_Response x y))"
  by (simp_all add: fit_def clean_Done)

lemma act_cases:
  assumes "(case m w of (Inl e, w') \<Rightarrow> (Done (Inl e), w') | (Inr a, w') \<Rightarrow> (k a, w')) = (p, w')"
  obtains e where "m w = (Inl e, w')" and "p = Done (Inl e)"
  | a where "m w = (Inr a, w')" and "p = k a"
  using assms by (auto split: prod.splits sum.splits)

lemma fit_act [fit_rules]:
  assumes "steps (quiet St \<alpha> drawn) m" and "\<And>a. fit St \<alpha> drawn (k a)"
  shows "fit St \<alpha> drawn (act m k)"
proof -
  have "clean St \<alpha> drawn (act m k)"
    unfolding act_def
  proof (rule clean_Act)
    fix w p w'
    assume "(case m w of (Inl e, w') \<Rightarrow> (Done (Inl e), w') | (Inr a, w') \<Rightarrow> (k a, w')) = (p, w')"
    then show "quiet St \<alpha> drawn w w' \<and> clean St \<alpha> drawn p \<and> handed p = None
      \<and> (\<forall>j u a r. p = Issue j u a r \<longrightarrow> names St r j \<and> (\<exists>ds. drawn (gen w') = j # ds @ drawn (gen w)))"
    proof (cases rule: act_cases)
      case (1 e)
      with stepsD [OF assms(1) 1(1)] show ?thesis by (simp add: clean_Done)
    next
      case (2 a)
      with stepsD [OF assms(1) 2(1)] assms(2) [of a] show ?thesis by (auto simp: fit_def)
    qed
  qed
  then show ?thesis by (simp add: fit_def act_def)
qed

lemma fit_option [fit_rules]:
  "fit St \<alpha> drawn p \<Longrightarrow> (\<And>a. fit St \<alpha> drawn (q a)) \<Longrightarrow> fit St \<alpha> drawn (case x of None \<Rightarrow> p | Some a \<Rightarrow> q a)"
  by (simp split: option.split)

lemma fit_if [fit_rules]:
  "fit St \<alpha> drawn p \<Longrightarrow> fit St \<alpha> drawn q \<Longrightarrow> fit St \<alpha> drawn (if c then p else q)"
  by simp

context auth_service begin

lemma fit_issue_task: "fit St \<alpha> drawn (issue_task St uid email)"
  unfolding issue_task_def
proof (rule fit_act, rule quiet_gen(2))
  fix a
  let ?m = "gen_op (sign_refresh_token (st_jwt_crate St) (st_env St) (st_jwt St) uid email) :: (('r, 'g) world, _, _) io"
  have "clean St \<alpha> drawn (act ?m (\<lambda>(r, j). Issue j uid a r))"
    unfolding act_def
  proof (rule clean_Act)
    fix w w' :: "('r, 'g) world" and p :: "('r, 'g) task"
    assume "(case ?m w of (Inl e, w') \<Rightarrow> (Done (Inl e), w')
        | (Inr x, w') \<Rightarrow> (case x of (r, j) \<Rightarrow> Issue j uid a r, w')) = (p, w')"
    then show "quiet St \<alpha> drawn w w' \<and> clean St \<alpha> drawn p \<and> handed p = None
      \<and> (\<forall>j u a r. p = Issue j u a r \<longrightarrow> names St r j \<and> (\<exists>ds. drawn (gen w') = j # ds @ drawn (gen w)))"
    proof (cases rule: act_cases)
      case (1 e)
      with stepsD [OF quiet_gen(3) 1(1)] show ?thesis by (simp add: clean_Done)
    next
      case (2 x)
      obtain r j where x: "x = (r, j)" by (cases x)
      from 2(1) obtain c g where sign: "sign_with_claims (st_jwt_crate St) (st_env St) (st_jwt St) uid email
          (secs session_secs) Refresh (clock w) (gen w) = (Inr (r, c), g)"
        and w': "w' = w\<lparr>gen := g\<rparr>" and j: "j = c_jti c"
        by (auto simp: x gen_op_def on_gen_iff sign_refresh_token_def lifetimes elim!: bindE_InrE)
      note d = decode_signed [OF keys sign]
      have "new_v4 (st_env St) (gen w) = (j, g)" using d(1,2) j by (simp add: prod_eq_iff)
      from log_new [OF this] have "drawn (gen w') = j # [] @ drawn (gen w)" by (simp add: w')
      moreover have "names St r j" using d(3) [of Refresh] by (simp add: names_def verify_refresh_def d(1) j split: if_splits)
      ultimately show ?thesis using 2 x stepsD [OF quiet_gen(3) 2(1)] by (auto simp: clean_Issue intro: exI [of _ "[]"])
    qed
  qed
  then show "fit St \<alpha> drawn (act ?m (\<lambda>(r, j). Issue j uid a r))" by (simp add: fit_def act_def)
qed

lemmas fit_task_rules = fit_rules fit_issue_task quiet_rules steps_rules unstoring_cmds

lemma fit_revoke_task:
  assumes "\<And>v. fit St \<alpha> drawn (k v)"
  shows "fit St \<alpha> drawn (revoke_task St j k)"
  unfolding revoke_task_def drop_task_def by (intro fit_task_rules assms)

lemma fit_revoke_all_task:
  assumes "\<And>v. fit St \<alpha> drawn (k v)"
  shows "fit St \<alpha> drawn (revoke_all_task St u k)"
proof -
  have "unstoring (st_uuid St) c" if "c \<in> set (revoke_cmds (st_uuid St) u js)" for c js
    using that by (auto simp: revoke_cmds_def unstoring_cmds)
  then show ?thesis unfolding revoke_all_task_def by (intro fit_task_rules assms) simp_all
qed

lemma fit_lockout_tasks:
  "(\<And>v. fit St \<alpha> drawn (k v)) \<Longrightarrow> fit St \<alpha> drawn (is_locked_task St e k)"
  "(\<And>v. fit St \<alpha> drawn (n v)) \<Longrightarrow> fit St \<alpha> drawn (record_failure_task St e n)"
  "fit St \<alpha> drawn p \<Longrightarrow> fit St \<alpha> drawn (clear_failures_task St e p)"
  unfolding is_locked_task_def record_failure_task_def clear_failures_task_def
  by (intro fit_task_rules; simp)+

lemma fit_handlers:
  assumes "p \<in> handler_tasks St"
  shows "fit St \<alpha> drawn p"
  using assms unfolding handler_tasks_def
  by (auto simp: register_task_def login_task_def login_unlocked_def login_verified_def refresh_task_def
      logout_task_def me_task_def change_password_task_def delete_me_task_def logout_all_task_def
      health_task_def reset_request_task_def reset_confirm_task_def Let_def
      intro!: fit_task_rules fit_revoke_task fit_revoke_all_task fit_lockout_tasks
      split: prod.split sum.split)

end

end
