(* ===== verification/Pool_Invariant.thy ===== *)
theory Pool_Invariant
  imports Concurrent
begin

text \<open>
  The invariant \<open>pool_inv\<close> of the requests in flight: what holds between any two of their steps. From it,
  what is gone of a session stays gone, whoever acts next.
\<close>

section \<open>The invariant of the pool\<close>

text \<open>\<open>j\<close> was drawn, and no task is about to store a session under it.\<close>

definition settled :: "('g \<Rightarrow> uuid list) \<Rightarrow> uuid \<Rightarrow> ('r, 'g) pool \<Rightarrow> bool" where
  "settled drawn j s \<longleftrightarrow> j \<in> set (drawn (gen (snd s))) \<and> (\<forall>p \<in> set (fst s). pending p \<noteq> Some j)"

text \<open>
  The ids that the tasks are about to store are drawn, not stored yet, and each belongs to one task; what
  is stored was drawn; and a token that a task has answered with is settled.
\<close>

definition pool_inv ::
    "('r, 'g) app_state \<Rightarrow> ('r \<Rightarrow> keyspace) \<Rightarrow> ('g \<Rightarrow> uuid list) \<Rightarrow> ('r, 'g) pool \<Rightarrow> bool" where
  "pool_inv St \<alpha> drawn s \<longleftrightarrow>
     (\<forall>p \<in> set (fst s). clean St \<alpha> drawn p)
   \<and> (\<forall>p \<in> set (fst s). \<forall>j u a r. p = Issue j u a r \<longrightarrow>
        j \<in> set (drawn (gen (snd s))) \<and> dead St \<alpha> j (snd s) \<and> names St r j)
   \<and> (\<forall>i k j. i < length (fst s) \<longrightarrow> k < length (fst s) \<longrightarrow>
        pending (fst s ! i) = Some j \<longrightarrow> pending (fst s ! k) = Some j \<longrightarrow> i = k)
   \<and> (\<forall>j. \<not> dead St \<alpha> j (snd s) \<longrightarrow> j \<in> set (drawn (gen (snd s))))
   \<and> (\<forall>p \<in> set (fst s). \<forall>tok. handed p = Some tok \<longrightarrow> (\<exists>j. names St tok j \<and> settled drawn j s))"

context auth_service begin

lemma store_session_quiet_other:
  assumes "store_session St j u a r w = (x, w')"
  shows "gen w' = gen w" and "\<And>i. i \<noteq> j \<Longrightarrow> dead St \<alpha> i w' = dead St \<alpha> i w"
    and "handed (Done x) = Some tok \<Longrightarrow> tok = r"
proof -
  obtain y where st: "cache_op (store_refresh_token (st_redis St) (st_uuid St) j u refresh_ttl_secs) w = (y, w')"
    and x: "x = map_sum id (\<lambda>_. respond 200 (Login_Response a r)) y"
    using assms unfolding store_session_def by (cases rule: bindE_cases) auto
  show "gen w' = gen w" using cache_op_frame [OF st] by simp
  show "tok = r" if "handed (Done x) = Some tok" using that x by (cases y) auto
  fix i assume i: "i \<noteq> j"
  obtain z c where c: "store_refresh_token (st_redis St) (st_uuid St) j u refresh_ttl_secs (clock w) (cache w) = (z, c)"
    and w': "w' = w\<lparr>cache := c\<rparr>"
    using st by (cases y) (auto simp: cache_op_def mapErrE_Inl_iff on_cache_iff)
  have "keeps (\<lambda>q. (lookup t' (\<alpha> q) (refresh_key (st_uuid St) i) = None) = b)
      (store_refresh_token (st_redis St) (st_uuid St) j u refresh_ttl_secs t)" for b t t'
    unfolding store_refresh_token_def
    by (intro steps_rules keeps_pipe) (use i in \<open>auto simp: store_cmds_def lookup_def ks_exec_frame simp del: ks_exec.simps\<close>)
  from stepsD [OF this c] show "dead St \<alpha> i w' = dead St \<alpha> i w" by (simp add: dead_def w')
qed

text \<open>What one step of one task can do.\<close>

lemma tstep_quiet:
  assumes "tstep St (p, w) (p', w')" and "clean St \<alpha> drawn p"
  shows "clean St \<alpha> drawn p'" and "suffix (drawn (gen w)) (drawn (gen w'))"
    and "\<And>j. dead St \<alpha> j w \<Longrightarrow> pending p \<noteq> Some j \<Longrightarrow> dead St \<alpha> j w'"
    and "\<And>j. pending p' = Some j \<Longrightarrow> pending p = None \<and> (\<exists>ds. drawn (gen w') = j # ds @ drawn (gen w))"
    and "\<And>j u a r. p' = Issue j u a r \<Longrightarrow> names St r j"
    and "\<And>tok. handed p' = Some tok \<Longrightarrow> \<exists>j u a. p = Issue j u a tok"
proof -
  have "clean St \<alpha> drawn p' \<and> suffix (drawn (gen w)) (drawn (gen w'))
      \<and> (\<forall>j. dead St \<alpha> j w \<longrightarrow> pending p \<noteq> Some j \<longrightarrow> dead St \<alpha> j w')
      \<and> (\<forall>j. pending p' = Some j \<longrightarrow> pending p = None \<and> (\<exists>ds. drawn (gen w') = j # ds @ drawn (gen w)))
      \<and> (\<forall>j u a r. p' = Issue j u a r \<longrightarrow> names St r j)
      \<and> (\<forall>tok. handed p' = Some tok \<longrightarrow> (\<exists>j u a. p = Issue j u a tok))"
    using assms(1)
  proof (cases rule: tstep.cases)
    case (call f)
    with assms(2) show ?thesis by (auto simp: quiet_def elim!: clean_ActE pending_SomeE)
  next
    case (store j u a r x)
    then show ?thesis
      using store_session_quiet_other [of j u a r w x w'] by (auto simp: clean_Done)
  qed
  then show "clean St \<alpha> drawn p'" "suffix (drawn (gen w)) (drawn (gen w'))"
    "\<And>j. dead St \<alpha> j w \<Longrightarrow> pending p \<noteq> Some j \<Longrightarrow> dead St \<alpha> j w'"
    "\<And>j. pending p' = Some j \<Longrightarrow> pending p = None \<and> (\<exists>ds. drawn (gen w') = j # ds @ drawn (gen w))"
    "\<And>j u a r. p' = Issue j u a r \<Longrightarrow> names St r j"
    "\<And>tok. handed p' = Some tok \<Longrightarrow> \<exists>j u a. p = Issue j u a tok" by blast+
qed

lemma cstep_log:
  assumes "cstep St s s'" and "\<forall>p \<in> set (fst s). clean St \<alpha> drawn p"
  shows "suffix (drawn (gen (snd s))) (drawn (gen (snd s')))" and "\<forall>p \<in> set (fst s'). clean St \<alpha> drawn p"
proof -
  have "suffix (drawn (gen (snd s))) (drawn (gen (snd s'))) \<and> (\<forall>p \<in> set (fst s'). clean St \<alpha> drawn p)"
    using assms(1)
  proof cases
    case (arrive p ps w)
    with assms(2) fit_handlers [of p] show ?thesis by (auto simp: fit_def)
  next
    case (run i ps w p w')
    with assms(2) have "clean St \<alpha> drawn (ps ! i)" by simp
    with tstep_quiet(1,2) [OF run(4)] assms(2) show ?thesis
      by (auto simp: run dest!: set_update_subset_insert [THEN subsetD])
  next
    case (time d ps w)
    with assms(2) show ?thesis by simp
  qed
  then show "suffix (drawn (gen (snd s))) (drawn (gen (snd s')))" "\<forall>p \<in> set (fst s'). clean St \<alpha> drawn p"
    by blast+
qed

lemma settled_cstep:
  assumes "cstep St s s'" and clean: "\<forall>p \<in> set (fst s). clean St \<alpha> drawn p"
    and "settled drawn j s" and "distinct (drawn (gen (snd s')))"
  shows "settled drawn j s'"
  using assms(1)
proof cases
  case (arrive p ps w)
  with assms(3) fit_handlers [of p] show ?thesis by (auto simp: settled_def fit_def)
next
  case (run i ps w p w')
  have "clean St \<alpha> drawn (ps ! i)" using clean run by simp
  note t = tstep_quiet [OF run(4) this]
  have "pending p \<noteq> Some j"
  proof
    assume "pending p = Some j"
    with t(4) obtain ds where "drawn (gen w') = j # ds @ drawn (gen w)" by blast
    with assms(3,4) run show False by (simp add: settled_def)
  qed
  with assms(3) set_mono_suffix [OF t(2)] show ?thesis
    by (auto simp: settled_def run dest!: set_update_subset_insert [THEN subsetD])
next
  case (time d ps w)
  with assms(3) show ?thesis by (simp add: settled_def)
qed

lemma gone_cstep:
  assumes "cstep St s s'" and "\<forall>p \<in> set (fst s). clean St \<alpha> drawn p"
    and "settled drawn j s" and "dead St \<alpha> j (snd s)"
  shows "dead St \<alpha> j (snd s')"
  using assms(1)
proof cases
  case (run i ps w p w')
  have "clean St \<alpha> drawn (ps ! i)" "pending (ps ! i) \<noteq> Some j" using assms(2,3) run by (auto simp: settled_def)
  with tstep_quiet(3) [OF run(4)] assms(4) run show ?thesis by simp
qed (use assms(4) dead_time in auto)

lemma pool_inv_run:
  assumes inv: "pool_inv St \<alpha> drawn (ps, w)" and i: "i < length ps" and step: "tstep St (ps ! i, w) (p, w')"
    and fresh: "distinct (drawn (gen w'))"
  shows "pool_inv St \<alpha> drawn (ps[i := p], w')"
proof -
  have clean: "\<forall>q \<in> set ps. clean St \<alpha> drawn q"
    and issue: "\<And>k j u a r. k < length ps \<Longrightarrow> ps ! k = Issue j u a r \<Longrightarrow>
      j \<in> set (drawn (gen w)) \<and> dead St \<alpha> j w \<and> names St r j"
    and one: "\<And>k l j. k < length ps \<Longrightarrow> l < length ps \<Longrightarrow> pending (ps ! k) = Some j \<Longrightarrow>
      pending (ps ! l) = Some j \<Longrightarrow> k = l"
    and stored: "\<And>j. \<not> dead St \<alpha> j w \<Longrightarrow> j \<in> set (drawn (gen w))"
    and answered: "\<And>q tok. q \<in> set ps \<Longrightarrow> handed q = Some tok \<Longrightarrow>
      \<exists>j. names St tok j \<and> settled drawn j (ps, w)"
    using inv unfolding pool_inv_def fst_conv snd_conv by (blast intro: nth_mem)+
  have drawn_pending: "j \<in> set (drawn (gen w))" if "k < length ps" "pending (ps ! k) = Some j" for k j
    using issue [OF that(1)] that(2) by (auto elim!: pending_SomeE)
  from clean i have "clean St \<alpha> drawn (ps ! i)" by simp
  note t = tstep_quiet [OF step this]
  have c: "cstep St (ps, w) (ps[i := p], w')" using i step by (rule run)
  have new: "pending (ps ! i) = None \<and> j \<notin> set (drawn (gen w)) \<and> j \<in> set (drawn (gen w'))"
    if "pending p = Some j" for j
    using t(4) [OF that] fresh by auto
  have log: "set (drawn (gen w)) \<subseteq> set (drawn (gen w'))" using t(2) by (rule set_mono_suffix)
  have at: "q = p \<or> (\<exists>k < length ps. k \<noteq> i \<and> q = ps ! k)" if "q \<in> set (ps[i := p])" for q
    using that i by (auto simp: in_set_conv_nth nth_list_update split: if_splits)
  have "j \<in> set (drawn (gen w')) \<and> dead St \<alpha> j w' \<and> names St r j"
    if q: "Issue j u a r \<in> set (ps[i := p])" for j u a r
    using at [OF q]
  proof (elim disjE exE conjE)
    assume p: "Issue j u a r = p"
    with new [of j] have n: "pending (ps ! i) = None" "j \<notin> set (drawn (gen w))" "j \<in> set (drawn (gen w'))" by auto
    with stored [of j] t(3) [of j] t(5) [of j u a r] p show ?thesis by auto
  next
    fix k assume k: "k < length ps" "k \<noteq> i" "Issue j u a r = ps ! k"
    with one [OF i k(1), of j] have "pending (ps ! i) \<noteq> Some j" by (metis pending.simps(1))
    with issue [OF k(1) k(3) [symmetric]] t(3) [of j] log show ?thesis by auto
  qed
  moreover have "k = l"
    if "k < length ps" "l < length ps" "pending (ps[i := p] ! k) = Some j" "pending (ps[i := p] ! l) = Some j" for k l j
    using that i one [of k l j] new [of j] drawn_pending [of k j] drawn_pending [of l j]
    by (auto simp: nth_list_update split: if_splits)
  moreover have "j \<in> set (drawn (gen w'))" if "\<not> dead St \<alpha> j w'" for j
    using that t(3) [of j] stored [of j] drawn_pending [OF i, of j] log by blast
  moreover have "\<exists>j. names St tok j \<and> settled drawn j (ps[i := p], w')"
    if q: "q \<in> set (ps[i := p])" "handed q = Some tok" for q tok
    using at [OF q(1)]
  proof (elim disjE exE conjE)
    assume p: "q = p"
    with t(6) q(2) obtain j u a where iss: "ps ! i = Issue j u a tok" by blast
    have "pending x \<noteq> Some j" if "x \<in> set (ps[i := p])" for x
      using at [OF that] one [OF i, of _ j] iss q(2) p
      by (cases p) auto
    with issue [OF i iss] log show ?thesis by (auto simp: settled_def)
  next
    fix k assume "k < length ps" "k \<noteq> i" "q = ps ! k"
    with answered [of q tok] q(2) settled_cstep [OF c] clean fresh show ?thesis by auto
  qed
  ultimately show ?thesis
    using cstep_log(2) [OF c] clean unfolding pool_inv_def fst_conv snd_conv length_list_update by blast
qed

lemma pool_inv_arrive:
  assumes inv: "pool_inv St \<alpha> drawn (ps, w)" and p: "p \<in> handler_tasks St"
  shows "pool_inv St \<alpha> drawn (ps @ [p], w)"
proof -
  note f = fit_handlers [OF p, unfolded fit_def]
  have "settled drawn j (ps @ [p], w) \<longleftrightarrow> settled drawn j (ps, w)" for j
    using f by (auto simp: settled_def)
  moreover have "k = l" if "k < length (ps @ [p])" "l < length (ps @ [p])"
      "pending ((ps @ [p]) ! k) = Some j" "pending ((ps @ [p]) ! l) = Some j" for k l j
    using that f inv by (auto simp: pool_inv_def nth_append less_Suc_eq split: if_splits)
  ultimately show ?thesis using inv f unfolding pool_inv_def by auto
qed

lemma pool_inv_cong:
  assumes "pool_inv St \<alpha> drawn (ps, w)" and log: "drawn (gen w') = drawn (gen w)"
    and dead: "\<And>j. dead St \<alpha> j w \<Longrightarrow> dead St \<alpha> j w'"
  shows "pool_inv St \<alpha> drawn (ps, w')"
proof -
  have same: "settled drawn j (ps, w') = settled drawn j (ps, w)" for j by (simp add: settled_def log)
  have alive: "\<not> dead St \<alpha> j w' \<Longrightarrow> \<not> dead St \<alpha> j w" for j using dead by blast
  show ?thesis
    unfolding pool_inv_def fst_conv snd_conv same log
  proof (intro conjI)
    note inv = assms(1) [unfolded pool_inv_def fst_conv snd_conv]
    show "\<forall>p \<in> set ps. \<forall>j u a r. p = Issue j u a r \<longrightarrow>
        j \<in> set (drawn (gen w)) \<and> dead St \<alpha> j w' \<and> names St r j"
      using inv dead by simp
    show "\<forall>j. \<not> dead St \<alpha> j w' \<longrightarrow> j \<in> set (drawn (gen w))" using inv alive by simp
  qed (use assms(1) in \<open>simp_all add: pool_inv_def\<close>)
qed

lemma pool_inv_cstep:
  assumes "cstep St s s'" and inv: "pool_inv St \<alpha> drawn s" and "distinct (drawn (gen (snd s')))"
  shows "pool_inv St \<alpha> drawn s'"
  using assms(1)
proof cases
  case (arrive p ps w)
  with inv show ?thesis by (simp add: pool_inv_arrive)
next
  case (run i ps w p w')
  with inv assms(3) show ?thesis by (simp add: pool_inv_run)
next
  case (time d ps w)
  show ?thesis
    unfolding time(2) by (rule pool_inv_cong [OF inv [unfolded time(1)]]) (simp_all add: dead_time [OF time(3)])
qed

lemma pool_inv_initial: "initial \<alpha> w \<Longrightarrow> pool_inv St \<alpha> drawn ([], w)"
  by (simp add: initial_def pool_inv_def dead_def lookup_def)

lemma pool_clean: "pool_inv St \<alpha> drawn s \<Longrightarrow> \<forall>p \<in> set (fst s). clean St \<alpha> drawn p"
  by (simp add: pool_inv_def)

text \<open>
  An invariant that a step keeps while the drawn ids stay distinct holds throughout a run.
\<close>

lemma csteps_keep:
  assumes "csteps St s s'" and "pool_inv St \<alpha> drawn s" and "I s" and "distinct (drawn (gen (snd s')))"
    and "\<And>s s'. cstep St s s' \<Longrightarrow> pool_inv St \<alpha> drawn s \<Longrightarrow> distinct (drawn (gen (snd s'))) \<Longrightarrow> I s \<Longrightarrow> I s'"
  shows "pool_inv St \<alpha> drawn s'" and "I s'"
proof -
  have "(\<forall>p \<in> set (fst s'). clean St \<alpha> drawn p)
      \<and> (distinct (drawn (gen (snd s'))) \<longrightarrow> pool_inv St \<alpha> drawn s' \<and> I s')"
    using assms(1)
  proof (induction rule: rtranclp_induct)
    case base
    with assms(2,3) pool_clean show ?case by blast
  next
    case (step s1 s2)
    note l = cstep_log [OF step(2)]
    from step.IH l have c: "\<forall>p \<in> set (fst s2). clean St \<alpha> drawn p"
      and suffix: "suffix (drawn (gen (snd s1))) (drawn (gen (snd s2)))" by blast+
    have "pool_inv St \<alpha> drawn s2 \<and> I s2" if "distinct (drawn (gen (snd s2)))"
      using step.IH suffix_distinct [OF suffix that] pool_inv_cstep [OF step(2) _ that]
        assms(5) [OF step(2) _ that] by blast
    with c show ?case by blast
  qed
  with assms(4) show "pool_inv St \<alpha> drawn s'" "I s'" by blast+
qed

lemma csteps_log:
  assumes "csteps St s s'" and "\<forall>p \<in> set (fst s). clean St \<alpha> drawn p"
  shows "suffix (drawn (gen (snd s))) (drawn (gen (snd s')))" and "\<forall>p \<in> set (fst s'). clean St \<alpha> drawn p"
proof -
  have "(\<forall>p \<in> set (fst s'). clean St \<alpha> drawn p)
      \<and> suffix (drawn (gen (snd s))) (drawn (gen (snd s')))"
    using assms(1)
  proof (induction rule: rtranclp_induct)
    case base
    with assms(2) show ?case by blast
  next
    case (step s1 s2)
    then have cl: "\<forall>p \<in> set (fst s1). clean St \<alpha> drawn p" and sf: "suffix (drawn (gen (snd s))) (drawn (gen (snd s1)))"
      by simp_all
    from cstep_log [OF step(2) cl] sf show ?case by (auto intro: suffix_order.trans)
  qed
  then show "suffix (drawn (gen (snd s))) (drawn (gen (snd s')))" "\<forall>p \<in> set (fst s'). clean St \<alpha> drawn p"
    by blast+
qed

text \<open>A run from a reachable pool whose ids are distinct at its end.\<close>

lemma pool_reachable_run:
  assumes "pool_reachable St \<alpha> s" and "csteps St s s'" and "distinct (drawn (gen (snd s')))"
  shows "distinct (drawn (gen (snd s)))" and "pool_inv St \<alpha> drawn s"
proof -
  from assms(1) obtain w where w: "initial \<alpha> w" "csteps St ([], w) s" by (auto simp: pool_reachable_def)
  then have "\<forall>p \<in> set (fst s). clean St \<alpha> drawn p" using csteps_log(2) [OF w(2)] by simp
  from csteps_log(1) [OF assms(2) this] assms(3) show d: "distinct (drawn (gen (snd s)))" by (rule suffix_distinct)
  show "pool_inv St \<alpha> drawn s"
    by (rule csteps_keep(1) [where I = "\<lambda>_. True", OF w(2) pool_inv_initial [OF w(1)] _ d]) simp_all
qed

section \<open>A session that is gone\<close>

lemma gone_csteps:
  assumes "csteps St s s'" and "pool_inv St \<alpha> drawn s" and "distinct (drawn (gen (snd s')))"
    and "settled drawn j s" and "dead St \<alpha> j (snd s)"
  shows "settled drawn j s'" and "dead St \<alpha> j (snd s')"
proof -
  have "settled drawn j s' \<and> dead St \<alpha> j (snd s')"
  proof (rule csteps_keep(2) [where I = "\<lambda>s. settled drawn j s \<and> dead St \<alpha> j (snd s)", OF assms(1,2) _ assms(3)])
    show "settled drawn j s \<and> dead St \<alpha> j (snd s)" using assms(4,5) ..
    fix s1 s2 assume c: "cstep St s1 s2" and inv: "pool_inv St \<alpha> drawn s1"
      and d: "distinct (drawn (gen (snd s2)))" and I: "settled drawn j s1 \<and> dead St \<alpha> j (snd s1)"
    note cl = pool_clean [OF inv]
    from settled_cstep [OF c cl _ d] gone_cstep [OF c cl] I
    show "settled drawn j s2 \<and> dead St \<alpha> j (snd s2)" by blast
  qed
  then show "settled drawn j s'" "dead St \<alpha> j (snd s')" by simp_all
qed

end

text \<open>
  \<open>pays j p\<close>: before \<open>p\<close> answers with a success it takes a stored token \<open>j\<close> away. \<open>kills j p\<close>: before
  \<open>p\<close> answers with a success it has seen \<open>j\<close> gone.
\<close>

inductive pays :: "('r, 'g) app_state \<Rightarrow> ('r \<Rightarrow> keyspace) \<Rightarrow> uuid \<Rightarrow> ('r, 'g) task \<Rightarrow> bool"
  for St \<alpha> j where
    pays_fail: "pays St \<alpha> j (Done (Inl e))"
  | pays_Act: "(\<And>w p w'. f w = (p, w') \<Longrightarrow>
      pays St \<alpha> j p \<or> (\<not> dead St \<alpha> j w \<and> dead St \<alpha> j w')) \<Longrightarrow> pays St \<alpha> j (Act f)"

inductive kills :: "('r, 'g) app_state \<Rightarrow> ('r \<Rightarrow> keyspace) \<Rightarrow> uuid \<Rightarrow> ('r, 'g) task \<Rightarrow> bool"
  for St \<alpha> j where
    kills_fail: "kills St \<alpha> j (Done (Inl e))"
  | kills_Act: "(\<And>w p w'. f w = (p, w') \<Longrightarrow> kills St \<alpha> j p \<or> dead St \<alpha> j w') \<Longrightarrow> kills St \<alpha> j (Act f)"

inductive_simps pays_simps [simp]:
  "pays St \<alpha> j (Act f)" "pays St \<alpha> j (Done x)" "pays St \<alpha> j (Issue i u a r)"

inductive_simps kills_simps [simp]:
  "kills St \<alpha> j (Act f)" "kills St \<alpha> j (Done x)" "kills St \<alpha> j (Issue i u a r)"

lemma pays_act:
  assumes "\<And>w a w'. m w = (Inr a, w') \<Longrightarrow> pays St \<alpha> j (k a) \<or> (\<not> dead St \<alpha> j w \<and> dead St \<alpha> j w')"
  shows "pays St \<alpha> j (act m k)"
  unfolding act_def by (rule pays_Act, erule act_cases) (use assms in \<open>auto simp: pays_fail\<close>)

lemma kills_act:
  assumes "\<And>w a w'. m w = (Inr a, w') \<Longrightarrow> kills St \<alpha> j (k a) \<or> dead St \<alpha> j w'"
  shows "kills St \<alpha> j (act m k)"
  unfolding act_def by (rule kills_Act, erule act_cases) (use assms in \<open>auto simp: kills_fail\<close>)

context auth_service begin

lemma getdel_call:
  assumes "cache_call (rd_query (st_redis St) (GETDEL (refresh_key (st_uuid St) j)) (to_opt_string (st_redis St))) w
    = (Inr val, w')"
  shows "dead St \<alpha> j w'" and "val \<noteq> None \<Longrightarrow> \<not> dead St \<alpha> j w"
proof -
  from assms obtain c where q: "rd_query (st_redis St) (GETDEL (refresh_key (st_uuid St) j)) (to_opt_string (st_redis St))
      (clock w) (cache w) = (Inr val, c)" and w': "w' = w\<lparr>cache := c\<rparr>"
    by (auto simp: cache_call_def cache_op_def on_cache_iff)
  from q obtain rep rep' where "ks_exec (GETDEL (refresh_key (st_uuid St) j)) (clock w) (\<alpha> (cache w)) = (Inr rep', \<alpha> c)"
    "same_reply rep rep'" "to_opt_string (st_redis St) rep = Inr val" by (rule query_InrE)
  note r = this
  let ?l = "lookup (clock w) (\<alpha> (cache w)) (refresh_key (st_uuid St) j)"
  from r(1) have c: "\<alpha> c = snd (ks_exec (GETDEL (refresh_key (st_uuid St) j)) (clock w) (\<alpha> (cache w)))" by simp
  have v: "?l \<noteq> None" if "val \<noteq> None"
  proof
    assume "?l = None"
    with r(1,2) have "rep = Nil_Reply" by auto
    with r(3) that opt_string_nil show False by simp
  qed
  have set: "?l \<noteq> Some (RSet ms, d)" for ms d
    using r(1) by (auto simp: wrong_type_def)
  show "val \<noteq> None \<Longrightarrow> \<not> dead St \<alpha> j w" using v by (simp add: dead_def)
  show "dead St \<alpha> j w'"
    using set by (auto simp: dead_def w' c split: option.split redis_value.split)
qed

lemma names_verified:
  assumes "names St tok j"
    and "mapErrE (\<lambda>_. Unauthorized) (liftE (verify_refresh (st_jwt_crate St) (st_jwt St) tok t)) w = (Inr c, w')"
  shows "c_jti c = j"
  using assms by (auto simp: names_def)

lemma pays_revoke_task:
  assumes "k None = refuse e"
  shows "pays St \<alpha> j (revoke_task St j k)"
  unfolding revoke_task_def
proof (rule pays_act, rule disjI1, rule pays_act)
  fix w w' :: "('r, 'g) world" and val
  assume "cache_call (rd_query (st_redis St) (GETDEL (refresh_key (st_uuid St) j)) (to_opt_string (st_redis St))) w
    = (Inr val, w')"
  note g = getdel_call [OF this]
  show "pays St \<alpha> j (drop_task St j val (k (Option.bind val (uuid_parse (st_uuid St)))))
      \<or> (\<not> dead St \<alpha> j w \<and> dead St \<alpha> j w')"
    using g assms by (cases val) (simp_all add: drop_task_def pays_fail)
qed

lemma kills_revoke_task: "kills St \<alpha> j (revoke_task St j k)"
  unfolding revoke_task_def
  by (rule kills_act, rule disjI1, rule kills_act) (use getdel_call(1) in blast)

lemma pays_refresh_task: "names St tok j \<Longrightarrow> pays St \<alpha> j (refresh_task St \<lparr>refresh_token = tok\<rparr>)"
  unfolding refresh_task_def
  by (intro pays_act disjI1) (auto dest!: names_verified intro!: pays_revoke_task)

lemma kills_logout_task: "names St tok j \<Longrightarrow> kills St \<alpha> j (logout_task St \<lparr>logout_token = tok\<rparr>)"
  unfolding logout_task_def
  by (intro kills_act disjI1) (auto dest!: names_verified intro: kills_revoke_task)

lemma pays_cstep:
  assumes "cstep St s s'" and "i < length (fst s)" and "pays St \<alpha> j (fst s ! i)"
  shows "pays St \<alpha> j (fst s' ! i)
    \<or> (\<not> dead St \<alpha> j (snd s) \<and> dead St \<alpha> j (snd s') \<and> (\<forall>k < length (fst s). k \<noteq> i \<longrightarrow> fst s' ! k = fst s ! k))"
  using assms(1)
proof cases
  case (run k ps w p w')
  show ?thesis
  proof (cases "k = i")
    case True
    with run assms(3) have "tstep St (ps ! i, w) (p, w')" "pays St \<alpha> j (ps ! i)" by simp_all
    then have "pays St \<alpha> j p \<or> (\<not> dead St \<alpha> j w \<and> dead St \<alpha> j w')" by cases auto
    with True run show ?thesis by simp
  qed (use run assms(3) in simp)
qed (use assms(2,3) in \<open>simp_all add: nth_append\<close>)

lemma kills_cstep:
  assumes "cstep St s s'" and "i < length (fst s)" and "kills St \<alpha> j (fst s ! i)"
  shows "kills St \<alpha> j (fst s' ! i) \<or> dead St \<alpha> j (snd s')"
  using assms(1)
proof cases
  case (run k ps w p w')
  show ?thesis
  proof (cases "k = i")
    case True
    with run assms(3) have "tstep St (ps ! i, w) (p, w')" "kills St \<alpha> j (ps ! i)" by simp_all
    then have "kills St \<alpha> j p \<or> dead St \<alpha> j w'" by cases auto
    with True run show ?thesis by simp
  qed (use run assms(3) in simp)
qed (use assms(2,3) in \<open>simp_all add: nth_append\<close>)

lemma cstep_length: "cstep St s s' \<Longrightarrow> length (fst s) \<le> length (fst s')"
  by (cases rule: cstep.cases) auto

lemma two_payers:
  assumes "csteps St s s'" and "pool_inv St \<alpha> drawn s" and "distinct (drawn (gen (snd s')))" and "settled drawn j s"
    and "i < length (fst s)" "pays St \<alpha> j (fst s ! i)" and "k < length (fst s)" "pays St \<alpha> j (fst s ! k)" and "i \<noteq> k"
  shows "pays St \<alpha> j (fst s' ! i) \<or> pays St \<alpha> j (fst s' ! k)"
proof -
  let ?I = "\<lambda>s. settled drawn j s \<and> i < length (fst s) \<and> k < length (fst s)
      \<and> (pays St \<alpha> j (fst s ! i) \<and> pays St \<alpha> j (fst s ! k)
        \<or> dead St \<alpha> j (snd s) \<and> (pays St \<alpha> j (fst s ! i) \<or> pays St \<alpha> j (fst s ! k)))"
  have "?I s'"
  proof (rule csteps_keep(2) [where I = ?I, OF assms(1,2) _ assms(3)])
    show "?I s" using assms(4-8) by simp
    fix s1 s2 assume c: "cstep St s1 s2" and inv: "pool_inv St \<alpha> drawn s1"
      and d: "distinct (drawn (gen (snd s2)))" and I: "?I s1"
    note cl = pool_clean [OF inv]
    from I have len: "i < length (fst s1)" "k < length (fst s1)" by simp_all
    note pi = pays_cstep [OF c len(1), of j] and pk = pays_cstep [OF c len(2), of j]
    from settled_cstep [OF c cl _ d] gone_cstep [OF c cl] I pi pk assms(9) len cstep_length [OF c]
    show "?I s2" by (smt (verit) order_less_le_trans)
  qed
  then show ?thesis by blast
qed

lemma killed:
  assumes "csteps St s s'" and "pool_inv St \<alpha> drawn s" and "distinct (drawn (gen (snd s')))" and "settled drawn j s"
    and "i < length (fst s)" "kills St \<alpha> j (fst s ! i)"
  shows "settled drawn j s' \<and> (kills St \<alpha> j (fst s' ! i) \<or> dead St \<alpha> j (snd s'))"
proof -
  let ?I = "\<lambda>s. settled drawn j s \<and> i < length (fst s) \<and> (kills St \<alpha> j (fst s ! i) \<or> dead St \<alpha> j (snd s))"
  have "?I s'"
  proof (rule csteps_keep(2) [where I = ?I, OF assms(1,2) _ assms(3)])
    show "?I s" using assms(4-6) by simp
    fix s1 s2 assume c: "cstep St s1 s2" and inv: "pool_inv St \<alpha> drawn s1"
      and d: "distinct (drawn (gen (snd s2)))" and I: "?I s1"
    note cl = pool_clean [OF inv]
    from settled_cstep [OF c cl _ d] gone_cstep [OF c cl] kills_cstep [OF c, of i j] I cstep_length [OF c]
    show "?I s2" by (meson order_less_le_trans)
  qed
  then show ?thesis by blast
qed

lemma gone_payer:
  assumes "csteps St s s'" and "pool_inv St \<alpha> drawn s" and "distinct (drawn (gen (snd s')))" and "settled drawn j s"
    and "dead St \<alpha> j (snd s)" and "i < length (fst s)" "pays St \<alpha> j (fst s ! i)"
  shows "pays St \<alpha> j (fst s' ! i)"
proof -
  let ?I = "\<lambda>s. settled drawn j s \<and> i < length (fst s) \<and> dead St \<alpha> j (snd s) \<and> pays St \<alpha> j (fst s ! i)"
  have "?I s'"
  proof (rule csteps_keep(2) [where I = ?I, OF assms(1,2) _ assms(3)])
    show "?I s" using assms(4-7) by simp
    fix s1 s2 assume c: "cstep St s1 s2" and inv: "pool_inv St \<alpha> drawn s1"
      and d: "distinct (drawn (gen (snd s2)))" and I: "?I s1"
    note cl = pool_clean [OF inv]
    from settled_cstep [OF c cl _ d] gone_cstep [OF c cl] pays_cstep [OF c, of i j] I cstep_length [OF c]
    show "?I s2" by (meson order_less_le_trans)
  qed
  then show ?thesis by blast
qed

end

end
