(* ===== verification/Concurrent_Logins.thy ===== *)
theory Concurrent_Logins
  imports Concurrent Handler_Outcome
begin

text \<open>
  Logins in parallel. A login reads the number of failures, compares the password, and only then counts
  the failure; between the first and the last any number of other logins for the address can read the
  same number.
\<close>

lemma tsteps_is_locked:
  assumes "cache_op (is_locked (st_redis St) e) w = (Inr v, w')"
  shows "(tstep St)\<^sup>*\<^sup>* (is_locked_task St e k, w) (k v, w')"
proof -
  have "bindE (cache_call (\<lambda>_. rd_connect (st_redis St))) (\<lambda>_.
      bindE (cache_call (rd_query (st_redis St) (GET (lockout_key e)) (to_opt_u32 (st_redis St)))) (\<lambda>count.
      okE (LOCKOUT_MAX \<le> (case count of None \<Rightarrow> 0 | Some n \<Rightarrow> n)))) w = (Inr v, w')"
    using assms unfolding is_locked_def cache_op_bindE cache_op_okE by (simp add: cache_call_def)
  then obtain u w1 count where conn: "cache_call (\<lambda>_. rd_connect (st_redis St)) w = (Inr u, w1)"
    and get: "cache_call (rd_query (st_redis St) (GET (lockout_key e)) (to_opt_u32 (st_redis St))) w1 = (Inr count, w')"
    and v: "v = (LOCKOUT_MAX \<le> (case count of None \<Rightarrow> 0 | Some n \<Rightarrow> n))"
    by (auto elim!: bindE_InrE)
  show ?thesis
    unfolding is_locked_task_def v
    by (rule converse_rtranclp_into_rtranclp, rule tsteps_act [where m = "cache_call _", OF conn],
        rule r_into_rtranclp, rule tsteps_act [where m = "cache_call _", OF get])
qed

context draw_log begin

lemma find_by_email_log:
  "drawn (gen (snd (db_op (\<lambda>_. find_by_email E e) w))) = drawn (gen w)"
  by (auto simp: db_op_def on_db_def find_by_email_def pg_run_def mapErrE_def dest: log_next
      split: prod.splits pg_outcome.splits sum.splits)

end

context available_service begin

text \<open>A login for an address that is not locked, up to the comparison of its password.\<close>

lemma login_compares:
  assumes up: "up (cache w)" and calm: "calm (gen w)" and ok: "counters_ok (\<alpha> (cache w))"
    and below: "lockout_failures (clock w) (\<alpha> (cache w)) (login_email b) < 10"
    and b: "login_validate b = Inr ()" "user_with_email (db w) (login_email b) = Some user"
      "verify_hash (st_argon2_crate St) (st_passwords St) (login_password b) (password_hash user) = Inr v"
  obtains c g where
    "(tstep St)\<^sup>*\<^sup>* (login_task St b, w) (login_verified St b user v, w\<lparr>cache := c, gen := g\<rparr>)"
    and "up c" and "calm g" and "\<alpha> c = \<alpha> (cache w)" and "drawn g = drawn (gen w)"
proof -
  obtain c where l: "cache_op (is_locked (st_redis St) (login_email b)) w = (Inr False, w\<lparr>cache := c\<rparr>)"
    and c: "up c" "\<alpha> c = \<alpha> (cache w)"
    using is_locked_step [OF up ok, of "login_email b"] below by (auto simp: not_le)
  let ?w1 = "w\<lparr>cache := c\<rparr>"
  obtain g where f: "db_op (\<lambda>_. find_by_email (st_env St) (login_email b)) ?w1 = (Inr (Some user), ?w1\<lparr>gen := g\<rparr>)"
    and g: "calm g"
    using find_by_email_up [of ?w1 "login_email b"] calm b(2) by auto
  have d: "drawn g = drawn (gen w)" using find_by_email_log [of "login_email b" ?w1] f by simp
  have "tstep St (login_task St b, w) (is_locked_task St (login_email b)
      (\<lambda>locked. if locked then refuse Unauthorized else login_unlocked St b), w)"
    unfolding login_task_def by (rule tsteps_act) (simp add: b(1))
  also have "(tstep St)\<^sup>*\<^sup>* \<dots> (login_unlocked St b, ?w1)"
    using tsteps_is_locked [OF l, where k = "\<lambda>locked. if locked then refuse Unauthorized else login_unlocked St b"]
    by simp
  also have "tstep St \<dots> (act (domain_op (verify_hash (st_argon2_crate St) (st_passwords St) (login_password b)
      (password_hash user))) (login_verified St b user), ?w1\<lparr>gen := g\<rparr>)"
    unfolding login_unlocked_def using tsteps_act [where m = "db_op _", OF f, where k = "\<lambda>found. case found of None \<Rightarrow> refuse Unauthorized
      | Some user \<Rightarrow> act (domain_op (verify_hash (st_argon2_crate St) (st_passwords St) (login_password b)
          (password_hash user))) (login_verified St b user)"] by simp
  also have "tstep St \<dots> (login_verified St b user v, ?w1\<lparr>gen := g\<rparr>)"
    by (rule tsteps_act) (simp add: b(3) domain_op_def)
  finally show thesis by (rule that) (use c g d in simp_all)
qed

lemma logins_compare:
  assumes "up (cache w)" and "calm (gen w)" and "counters_ok (\<alpha> (cache w))"
    and "lockout_failures (clock w) (\<alpha> (cache w)) e < 10"
    and "\<forall>b \<in> set bs. wrong_password St (db w) e b" and "user_with_email (db w) e = Some user"
  shows "\<exists>c g. csteps St (qs @ map (login_task St) bs @ ps, w)
      (qs @ map (\<lambda>b. login_verified St b user False) bs @ ps, w\<lparr>cache := c, gen := g\<rparr>)
    \<and> up c \<and> calm g \<and> \<alpha> c = \<alpha> (cache w) \<and> drawn g = drawn (gen w)"
  using assms
proof (induction bs arbitrary: qs w)
  case Nil
  then show ?case by (intro exI [of _ "cache w"] exI [of _ "gen w"]) simp
next
  case (Cons b bs)
  have b: "login_email b = e" "login_validate b = Inr ()"
    "verify_hash (st_argon2_crate St) (st_passwords St) (login_password b) (password_hash user) = Inr False"
    using Cons.prems(5,6) by (auto simp: wrong_password_def)
  have "\<exists>c g. (tstep St)\<^sup>*\<^sup>* (login_task St b, w) (login_verified St b user False, w\<lparr>cache := c, gen := g\<rparr>)
      \<and> up c \<and> calm g \<and> \<alpha> c = \<alpha> (cache w) \<and> drawn g = drawn (gen w)"
    by (rule login_compares [of w b user False]) (use Cons.prems b in auto)
  then obtain c g where
    one: "(tstep St)\<^sup>*\<^sup>* (login_task St b, w) (login_verified St b user False, w\<lparr>cache := c, gen := g\<rparr>)"
    and c: "up c" "calm g" "\<alpha> c = \<alpha> (cache w)" "drawn g = drawn (gen w)" by blast
  let ?w1 = "w\<lparr>cache := c, gen := g\<rparr>" and ?q = "login_verified St b user False"
  have "csteps St (qs @ map (login_task St) (b # bs) @ ps, w) (qs @ ?q # map (login_task St) bs @ ps, ?w1)"
    using csteps_task [OF one, of "length qs" "qs @ map (login_task St) (b # bs) @ ps"]
    by (simp add: nth_append list_update_append)
  moreover have "\<exists>c' g'. csteps St ((qs @ [?q]) @ map (login_task St) bs @ ps, ?w1)
      ((qs @ [?q]) @ map (\<lambda>b. login_verified St b user False) bs @ ps, ?w1\<lparr>cache := c', gen := g'\<rparr>)
    \<and> up c' \<and> calm g' \<and> \<alpha> c' = \<alpha> (cache ?w1) \<and> drawn g' = drawn (gen ?w1)"
    by (rule Cons.IH) (use Cons.prems c in simp_all)
  ultimately show ?case using c(3,4) by (fastforce intro: rtranclp_trans)
qed

text \<open>However many wrong guesses are compared, none is counted before the right one is let in.\<close>

lemma logins_race:
  assumes "svc_inv St \<alpha> drawn N w" and "up (cache w)" and "calm (gen w)"
    and "lockout_failures (clock w) (\<alpha> (cache w)) e < 10"
    and "\<forall>b \<in> set bs. wrong_password St (db w) e b" and "user_with_email (db w) e = Some user"
    and "login_validate b = Inr ()" "login_email b = e"
    and "verify_hash (st_argon2_crate St) (st_passwords St) (login_password b) (password_hash user) = Inr True"
  shows "\<exists>a r w'. csteps St (map (login_task St) (bs @ [b]), w)
    (map (\<lambda>b. login_verified St b user False) bs @ [answer 200 (Login_Response a r)], w')"
proof -
  obtain c g where steps: "csteps St (map (login_task St) bs @ [login_task St b], w)
      (map (\<lambda>b. login_verified St b user False) bs @ [login_task St b], w\<lparr>cache := c, gen := g\<rparr>)"
    and c: "up c" "calm g" "\<alpha> c = \<alpha> (cache w)" "drawn g = drawn (gen w)"
    using logins_compare [OF assms(2,3) svc_counters [OF assms(1)] assms(4-6), of "[]" "[login_task St b]"] by auto
  let ?w1 = "w\<lparr>cache := c, gen := g\<rparr>"
  have "svc_inv St \<alpha> drawn N ?w1" using assms(1) c(3,4) by (simp add: svc_inv_def)
  moreover have "login_spec St \<alpha> b ?w1 = Inr user" using assms(4,6-9) c(3) by (simp add: login_spec_def)
  ultimately obtain a r w' where "login St b ?w1 = (Inr (respond 200 (Login_Response a r)), w')"
    using login_outcome_up [of N ?w1 b] c(1,2) by auto
  then have "(tstep St)\<^sup>*\<^sup>* (login_task St b, ?w1) (answer 200 (Login_Response a r), w')"
    by (intro tsteps_run_task) (simp add: run_login_task)
  from csteps_task [OF this, of "length bs" "map (\<lambda>b. login_verified St b user False) bs @ [login_task St b]"]
  have "csteps St (map (\<lambda>b. login_verified St b user False) bs @ [login_task St b], ?w1)
      (map (\<lambda>b. login_verified St b user False) bs @ [answer 200 (Login_Response a r)], w')"
    by (simp add: nth_append list_update_append)
  with steps show ?thesis by (auto intro: rtranclp_trans)
qed

end

end
