(* ===== verification/Concurrent_Revocation.thy ===== *)
theory Concurrent_Revocation
  imports Concurrent Refresh_Chain
begin

text \<open>
  A refresh in flight against a revocation. A refresh redeems its token first and stores the new one
  last; whatever is revoked in between, it stores a session that no revocation has seen.
\<close>

lemma tsteps_act_then:
  "m w = (Inr a, w1) \<Longrightarrow> (tstep St)\<^sup>*\<^sup>* (k a, w1) s \<Longrightarrow> (tstep St)\<^sup>*\<^sup>* (act m k, w) s"
  by (rule converse_rtranclp_into_rtranclp, rule tsteps_act)

lemma tsteps_drop_task:
  assumes "cache_op (drop_from_index (st_redis St) (st_uuid St) j val) w = (Inr (), w')"
  shows "(tstep St)\<^sup>*\<^sup>* (drop_task St j val p, w) (p, w')"
proof (cases "\<exists>s u. val = Some s \<and> uuid_parse (st_uuid St) s = Some u")
  case True
  then obtain s u where v: "val = Some s" "uuid_parse (st_uuid St) s = Some u" by blast
  with assms obtain y where
    "cache_call (rd_exec (st_redis St) (SREM (sessions_key (st_uuid St) u) (uuid_show (st_uuid St) j))) w = (Inr y, w')"
    unfolding drop_from_index_def cache_call_def by (auto simp: cache_op_okE cache_op_bindE elim!: bindE_InrE)
  then have "(tstep St)\<^sup>*\<^sup>* (act (cache_call (rd_exec (st_redis St) (SREM (sessions_key (st_uuid St) u)
      (uuid_show (st_uuid St) j)))) (\<lambda>_. p), w) (p, w')"
    by (rule tsteps_act_then) simp
  with v show ?thesis by (simp add: drop_task_def)
next
  case False
  with assms have "w' = w"
    unfolding drop_from_index_def by (cases val) (auto simp: cache_op_okE)
  moreover have "drop_task St j val p = p" using False by (auto simp: drop_task_def split: option.split)
  ultimately show ?thesis by simp
qed

lemma tsteps_revoke_task:
  assumes "cache_op (revoke_refresh_token (st_redis St) (st_uuid St) j) w = (Inr v, w')"
  shows "(tstep St)\<^sup>*\<^sup>* (revoke_task St j k, w) (k v, w')"
proof -
  from assms obtain u w1 val w2 where c: "cache_call (\<lambda>_. rd_connect (st_redis St)) w = (Inr u, w1)"
    and q: "cache_call (rd_query (st_redis St) (GETDEL (refresh_key (st_uuid St) j)) (to_opt_string (st_redis St))) w1
      = (Inr val, w2)"
    and d: "cache_op (drop_from_index (st_redis St) (st_uuid St) j val) w2 = (Inr (), w')"
    and v: "v = Option.bind val (uuid_parse (st_uuid St))"
    unfolding revoke_refresh_token_def cache_op_bindE cache_op_okE cache_call_def by (elim bindE_InrE) auto
  show ?thesis
    unfolding revoke_task_def v
    by (rule tsteps_act_then, rule c, rule tsteps_act_then, rule q, rule tsteps_drop_task, rule d)
qed

text \<open>A request that runs without interruption.\<close>

context auth_service begin

lemma evolves_handlers:
  assumes "q \<in> handler_tasks St"
  shows "evolves N (run_task St q)"
  using assms unfolding handler_tasks_def
  by (auto simp: run_register_task run_login_task run_refresh_task run_logout_task run_me_task
      run_change_password_task run_delete_me_task run_logout_all_task run_health_task
      run_reset_request_task run_reset_confirm_task
      intro: evolves_register evolves_login evolves_refresh evolves_logout evolves_me evolves_change_password
        evolves_delete_me evolves_logout_all evolves_health evolves_reset_request evolves_reset_confirm)

end

context available_service begin

text \<open>A refresh that will be granted, up to the store of its new token.\<close>

lemma refresh_in_flight:
  assumes inv: "svc_inv St \<alpha> drawn N w" and "up (cache w)" and "calm (gen w)"
    and spec: "refresh_spec St \<alpha> b w = Inr c"
  obtains j a r w1 where "(tstep St)\<^sup>*\<^sup>* (refresh_task St b, w) (Issue j (c_sub c) a r, w1)"
    and "evo St \<alpha> drawn N w w1" and "up (cache w1)" and "calm (gen w1)"
    and "\<And>t. timestamp t \<le> timestamp (clock w) + session_secs \<Longrightarrow>
      \<exists>c'. verify_refresh (st_jwt_crate St) (st_jwt St) r t = Inr c' \<and> c_jti c' = j \<and> c_sub c' = c_sub c"
    and "\<exists>x. jwt_encode (st_jwt_crate St) EdDSA x (encoding_key (st_jwt St)) = Inr r"
    and "gen (snd (refresh St b w)) = gen w1"
proof -
  from spec obtain u where v: "refresh_validate b = Inr ()"
    and c: "verify_refresh (st_jwt_crate St) (st_jwt St) (refresh_token b) (clock w) = Inr c"
    and s: "session_of (st_uuid St) (clock w) (\<alpha> (cache w)) (c_jti c) = Some u"
    by (auto simp: refresh_spec_def split: sum.splits option.splits)
  obtain x k where rv: "revoke_refresh_token (st_redis St) (st_uuid St) (c_jti c) (clock w) (cache w) = (Inr x, k)" "up k"
    using revoke_up [OF assms(2) svc_typed [OF inv]] by blast
  have x: "x = Some u" using revoke_ok(1) [OF svc_typed [OF inv] rv(1)] s by simp
  let ?w0 = "w\<lparr>cache := k\<rparr>"
  have op: "cache_op (revoke_refresh_token (st_redis St) (st_uuid St) (c_jti c)) w = (Inr (Some u), ?w0)"
    using cache_op_run [where m = "revoke_refresh_token (st_redis St) (st_uuid St) (c_jti c)", OF rv(1)] x by simp
  have "calm (gen ?w0)" using assms(3) by simp
  then obtain a w1 r j w2 where
    sa: "gen_op (sign_access_token (st_jwt_crate St) (st_env St) (st_jwt St) (c_sub c) (c_email c)) ?w0 = (Inr a, w1)"
    and sr: "gen_op (sign_refresh_token (st_jwt_crate St) (st_env St) (st_jwt St) (c_sub c) (c_email c)) w1 = (Inr (r, j), w2)"
    and w2: "cache w2 = cache ?w0" "calm (gen w2)"
    by (rule sign_ops_up)
  note so = sign_op_ok [OF sa sr]
  let ?k = "\<lambda>revoked. case revoked of None \<Rightarrow> refuse Unauthorized | Some _ \<Rightarrow> issue_task St (c_sub c) (c_email c)"
  have "(tstep St)\<^sup>*\<^sup>* (issue_task St (c_sub c) (c_email c), ?w0) (Issue j (c_sub c) a r, w2)"
    unfolding issue_task_def
    by (rule tsteps_act_then, rule sa, rule tsteps_act_then, rule sr) simp
  then have "(tstep St)\<^sup>*\<^sup>* (?k (Some u), ?w0) (Issue j (c_sub c) a r, w2)" by simp
  with tsteps_revoke_task [OF op, of ?k]
  have rest: "(tstep St)\<^sup>*\<^sup>* (revoke_task St (c_jti c) ?k, w) (Issue j (c_sub c) a r, w2)" by simp
  have "(tstep St)\<^sup>*\<^sup>* (refresh_task St b, w) (Issue j (c_sub c) a r, w2)"
    unfolding refresh_task_def
    by (rule tsteps_act_then [where a = "()"], simp add: v, rule tsteps_act_then [where a = "clock w"], simp add: now_def,
        rule tsteps_act_then [where a = c], simp add: c, rule rest)
  moreover have "evo St \<alpha> drawn N w w2"
    using stepsD [OF evolves_cache(3) op] stepsD [OF evolves_gen(2) sa] stepsD [OF evolves_gen(3) sr]
    by (blast intro: transpD [OF evo_trans])
  moreover have "\<exists>x. jwt_encode (st_jwt_crate St) EdDSA x (encoding_key (st_jwt St)) = Inr r"
    using sr unfolding sign_refresh_token_def sign_with_claims_def Let_def
    by (auto elim!: bindE_InrE gen_op_InrE split: prod.splits)
  moreover have "\<exists>c'. verify_refresh (st_jwt_crate St) (st_jwt St) r t = Inr c' \<and> c_jti c' = j \<and> c_sub c' = c_sub c"
    if "timestamp t \<le> timestamp (clock w) + session_secs" for t
    using so(11) [of t] that leeway_nonneg by simp
  moreover have "refresh St b w = store_session St j (c_sub c) a r w2"
    using v c op sa sr by (simp add: refresh_def issue_tokens_def store_session_def bindE_def now_def mapErrE_def)
  then have "gen (snd (refresh St b w)) = gen w2"
    using cache_op_frame [of "store_refresh_token (st_redis St) (st_uuid St) j (c_sub c) refresh_ttl_secs" w2]
    by (cases "cache_op (store_refresh_token (st_redis St) (st_uuid St) j (c_sub c) refresh_ttl_secs) w2")
      (auto simp: store_session_def bindE_def split: sum.split)
  ultimately show thesis using that w2 rv(2) by simp
qed

text \<open>The store of the new token, whatever happened since.\<close>

lemma store_in_flight:
  assumes "well_typed (st_uuid St) (\<alpha> (cache w))" and "up (cache w)"
  obtains w' where "tstep St (Issue j u a r, w) (answer 200 (Login_Response a r), w')"
    and "clock w' = clock w"
    and "\<And>t. clock w \<le> t \<Longrightarrow> t < clock w + secs session_secs \<Longrightarrow> session_of (st_uuid St) t (\<alpha> (cache w')) j = Some u"
proof -
  obtain k where k: "store_refresh_token (st_redis St) (st_uuid St) j u refresh_ttl_secs (clock w) (cache w) = (Inr (), k)"
    using store_up [OF assms(2,1)] by blast
  have "store_session St j u a r w = (Inr (respond 200 (Login_Response a r)), w\<lparr>cache := k\<rparr>)"
    using cache_op_run [where m = "store_refresh_token (st_redis St) (st_uuid St) j u refresh_ttl_secs", OF k]
    by (simp add: store_session_def bindE_def)
  then have "tstep St (Issue j u a r, w) (answer 200 (Login_Response a r), w\<lparr>cache := k\<rparr>)" by (rule store)
  then show thesis
    by (rule that) (use store_session_of [OF _ _ _ k] in simp_all)
qed

lemma refresh_survives:
  assumes inv: "svc_inv St \<alpha> drawn N w" and "up (cache w)" and "calm (gen w)"
    and spec: "refresh_spec St \<alpha> b w = Inr c" and fresh: "distinct (drawn (gen (snd (refresh St b w))))"
    and nonempty: "\<forall>x tok. jwt_encode (st_jwt_crate St) EdDSA x (encoding_key (st_jwt St)) = Inr tok \<longrightarrow> tok \<noteq> []"
  obtains p a r w1 where "csteps St ([refresh_task St b], w) ([p], w1)"
    and "\<And>q x w2. q \<in> handler_tasks St \<Longrightarrow> run_task St q w1 = (x, w2) \<Longrightarrow> up (cache w2) \<Longrightarrow>
      distinct (drawn (gen w2)) \<Longrightarrow>
      \<exists>w3. csteps St ([p, q], w1) ([p, Done x], w2)
        \<and> csteps St ([p, Done x], w2) ([answer 200 (Login_Response a r), Done x], w3)
        \<and> stands_for St \<alpha> r (c_sub c) w3"
    and "\<And>c'. \<exists>w2. run_task St (logout_all_task St c') w1 = (Inr (respond 204 No_Body), w2)
        \<and> up (cache w2) \<and> distinct (drawn (gen w2))"
proof -
  from assms(1-4) obtain j a r w1 where p: "(tstep St)\<^sup>*\<^sup>* (refresh_task St b, w) (Issue j (c_sub c) a r, w1)"
    and e: "evo St \<alpha> drawn N w w1" and up1: "up (cache w1)"
    and ver: "\<And>t. timestamp t \<le> timestamp (clock w) + session_secs \<Longrightarrow>
      \<exists>c'. verify_refresh (st_jwt_crate St) (st_jwt St) r t = Inr c' \<and> c_jti c' = j \<and> c_sub c' = c_sub c"
    and r: "\<exists>x. jwt_encode (st_jwt_crate St) EdDSA x (encoding_key (st_jwt St)) = Inr r"
    and g: "gen (snd (refresh St b w)) = gen w1"
    by (rule refresh_in_flight) blast
  let ?p = "Issue j (c_sub c) a r"
  show thesis
  proof (rule that)
    show "csteps St ([refresh_task St b], w) ([?p], w1)" using csteps_task [OF p, of 0 "[refresh_task St b]"] by simp
    have d1: "distinct (drawn (gen w1))" using fresh g by simp
    show "\<exists>w2. run_task St (logout_all_task St c') w1 = (Inr (respond 204 No_Body), w2)
        \<and> up (cache w2) \<and> distinct (drawn (gen w2))" for c'
    proof -
      obtain n k where k: "revoke_all_sessions (st_redis St) (st_uuid St) (c_sub c') (clock w1) (cache w1) = (Inr n, k)"
          "up k" using revoke_all_up [OF up1 svc_typed [OF evoD(1) [OF e inv d1]]] by blast
      from cache_op_run [where m = "revoke_all_sessions (st_redis St) (st_uuid St) (c_sub c')", OF k(1)] k(2) d1
      show ?thesis by (simp add: run_logout_all_task logout_all_def bindE_def)
    qed
    fix q x w2
    assume q: "q \<in> handler_tasks St" "run_task St q w1 = (x, w2)" and w2: "up (cache w2)" "distinct (drawn (gen w2))"
    have "evo St \<alpha> drawn N w w2"
      using e stepsD [OF evolves_handlers [OF q(1)] q(2)] by (blast intro: transpD [OF evo_trans])
    note i = evoD [OF this inv w2(2)]
    obtain w3 where s: "tstep St (?p, w2) (answer 200 (Login_Response a r), w3)" "clock w3 = clock w2"
      and alive: "\<And>t. clock w2 \<le> t \<Longrightarrow> t < clock w2 + secs session_secs \<Longrightarrow>
        session_of (st_uuid St) t (\<alpha> (cache w3)) j = Some (c_sub c)"
      using store_in_flight [OF svc_typed [OF i(1)] w2(1), of j "c_sub c" a r] by blast
    have "csteps St ([?p, q], w1) ([?p, Done x], w2)"
      using csteps_task [OF tsteps_run_task [OF q(2)], of 1 "[?p, q]"] by simp
    moreover have "csteps St ([?p, Done x], w2) ([answer 200 (Login_Response a r), Done x], w3)"
      using csteps_task [OF r_into_rtranclp [of "tstep St", OF s(1)], of 0 "[?p, Done x]"] by simp
    moreover have "stands_for St \<alpha> r (c_sub c) w3"
      unfolding stands_for_def using r nonempty ver alive i(2) s(2) by auto
    ultimately show "\<exists>w3. csteps St ([?p, q], w1) ([?p, Done x], w2)
        \<and> csteps St ([?p, Done x], w2) ([answer 200 (Login_Response a r), Done x], w3)
        \<and> stands_for St \<alpha> r (c_sub c) w3" by blast
  qed
qed

end

end
