(* ===== verification/Pool_Typing.thy ===== *)
theory Pool_Typing
  imports Concurrent
begin

text \<open>
  The types of the entries in the cache, for requests in flight at the same time: every command that a
  handler gives keeps them, so every task does, whatever the schedule and whatever is lost.
\<close>

section \<open>Entries and their types\<close>

definition due_by :: "instant \<Rightarrow> int \<Rightarrow> instant option \<Rightarrow> bool" where
  "due_by t n d \<longleftrightarrow> (\<forall>x. d = Some x \<longrightarrow> x \<le> t + secs n)"

text \<open>
  A refresh token is the text of a user id with a deadline; an index is a non-empty set of texts of ids of
  tokens; a counter of failures is a positive number. Index and counter are written before their deadline
  is set, so they may have none.
\<close>

definition entry_typed :: "uuid_lib \<Rightarrow> instant \<Rightarrow> string \<Rightarrow> entry \<Rightarrow> bool" where
  "entry_typed U t k e \<longleftrightarrow> (case e of (v, d) \<Rightarrow>
     (\<exists>j u. k = refresh_key U j \<and> v = RStr (uuid_show U u) \<and> d \<noteq> None \<and> due_by t session_secs d)
   \<or> (\<exists>u ms. k = sessions_key U u \<and> v = RSet ms \<and> ms \<noteq> [] \<and> distinct ms \<and> set ms \<subseteq> range (uuid_show U)
        \<and> due_by t session_secs d)
   \<or> (\<exists>e n. k = lockout_key e \<and> v = RNum n \<and> 1 \<le> n \<and> due_by t LOCKOUT_WINDOW_SECS d))"

definition cache_typed :: "uuid_lib \<Rightarrow> instant \<Rightarrow> keyspace \<Rightarrow> bool" where
  "cache_typed U t ks \<longleftrightarrow> (\<forall>k e. ks k = Some e \<longrightarrow> entry_typed U t k e)"

lemma entry_typed_at [simp]:
  "entry_typed U t (refresh_key U j) (v, d) \<longleftrightarrow>
     (\<exists>u. v = RStr (uuid_show U u)) \<and> d \<noteq> None \<and> due_by t session_secs d"
  "entry_typed U t (sessions_key U u) (v, d) \<longleftrightarrow>
     (\<exists>ms. v = RSet ms \<and> ms \<noteq> [] \<and> distinct ms \<and> set ms \<subseteq> range (uuid_show U)) \<and> due_by t session_secs d"
  "entry_typed U t (lockout_key e) (v, d) \<longleftrightarrow> (\<exists>n. v = RNum n \<and> 1 \<le> n) \<and> due_by t LOCKOUT_WINDOW_SECS d"
  by (auto simp: entry_typed_def)

lemma due_by_later: "due_by t n d \<Longrightarrow> t \<le> t' \<Longrightarrow> due_by t' n d"
  by (fastforce simp: due_by_def)

lemma due_by_simps [simp]: "due_by t n None" "due_by t n (Some (t + secs n))"
  by (simp_all add: due_by_def)

lemma entry_typed_later: "entry_typed U t k e \<Longrightarrow> t \<le> t' \<Longrightarrow> entry_typed U t' k e"
  by (cases e) (fastforce simp: entry_typed_def intro: due_by_later)

lemma cache_typed_later: "cache_typed U t ks \<Longrightarrow> t \<le> t' \<Longrightarrow> cache_typed U t' ks"
  unfolding cache_typed_def by (blast intro: entry_typed_later)

lemma cache_typed_upd: "cache_typed U t ks \<Longrightarrow> entry_typed U t k e \<Longrightarrow> cache_typed U t (ks(k \<mapsto> e))"
  by (auto simp: cache_typed_def)

lemma cache_typed_remove: "cache_typed U t ks \<Longrightarrow> cache_typed U t (ks(k := None))"
  by (simp add: cache_typed_def)

lemma cache_typed_lookup: "cache_typed U t ks \<Longrightarrow> lookup t ks k = Some e \<Longrightarrow> entry_typed U t k e"
  by (cases e) (auto simp: cache_typed_def lookup_Some_iff)

section \<open>The commands keep the types\<close>

definition typed_cmd :: "uuid_lib \<Rightarrow> redis_cmd \<Rightarrow> bool" where
  "typed_cmd U c \<longleftrightarrow> (\<forall>t ks. cache_typed U t ks \<longrightarrow> cache_typed U t (snd (ks_exec c t ks)))"

lemma typed_cmdD: "typed_cmd U c \<Longrightarrow> cache_typed U t ks \<Longrightarrow> cache_typed U t (snd (ks_exec c t ks))"
  by (simp add: typed_cmd_def)

lemma typed_readers:
  "typed_cmd U (GET k)" "typed_cmd U (SMEMBERS k)" "typed_cmd U PING" "typed_cmd U (DEL k)" "typed_cmd U (GETDEL k)"
  by (auto simp: typed_cmd_def cache_typed_remove split: option.split redis_value.split)

lemma typed_writers:
  "typed_cmd U (SETEX (refresh_key U j) (uint refresh_ttl_secs) (uuid_show U u))"
  "typed_cmd U (SADD (sessions_key U u) (uuid_show U j))"
  "typed_cmd U (EXPIRE (sessions_key U u) (sint refresh_ttl_secs))"
  "typed_cmd U (SREM (sessions_key U u) m)"
  "typed_cmd U (INCRBY (lockout_key e) 1)"
  "typed_cmd U (EXPIRE (lockout_key e) LOCKOUT_WINDOW_SECS)"
proof -
  have "cache_typed U t (snd (ks_exec c t ks))"
    if c: "c \<in> {SETEX (refresh_key U j) session_secs (uuid_show U u), SADD (sessions_key U u) (uuid_show U j),
        EXPIRE (sessions_key U u) session_secs, SREM (sessions_key U u) m, INCRBY (lockout_key e) 1,
        EXPIRE (lockout_key e) LOCKOUT_WINDOW_SECS}"
      and typed: "cache_typed U t ks" for c t ks
  proof -
    note upd = cache_typed_upd [OF typed] cache_typed_remove [OF typed] and at = cache_typed_lookup [OF typed]
    show ?thesis
      using c
      by (auto simp: typed List.insert_def distinct_removeAll intro!: upd dest!: at
          split: option.split redis_value.split) blast+
  qed
  then show "typed_cmd U (SETEX (refresh_key U j) (uint refresh_ttl_secs) (uuid_show U u))"
    "typed_cmd U (SADD (sessions_key U u) (uuid_show U j))"
    "typed_cmd U (EXPIRE (sessions_key U u) (sint refresh_ttl_secs))" "typed_cmd U (SREM (sessions_key U u) m)"
    "typed_cmd U (INCRBY (lockout_key e) 1)" "typed_cmd U (EXPIRE (lockout_key e) LOCKOUT_WINDOW_SECS)"
    by (simp_all add: typed_cmd_def del: ks_exec.simps)
qed

section \<open>The tasks keep the types\<close>

text \<open>The cache of a world is well typed at its time.\<close>

definition world_typed :: "('r, 'g) app_state \<Rightarrow> ('r \<Rightarrow> keyspace) \<Rightarrow> ('r, 'g) world \<Rightarrow> bool" where
  "world_typed St \<alpha> w \<longleftrightarrow> cache_typed (st_uuid St) (clock w) (\<alpha> (cache w))"

lemma world_typed_cong: "cache w' = cache w \<Longrightarrow> clock w' = clock w \<Longrightarrow> world_typed St \<alpha> w' \<longleftrightarrow> world_typed St \<alpha> w"
  by (simp add: world_typed_def)

lemma typed_other:
  "keeps (world_typed St \<alpha>) (on_db m)" "keeps (world_typed St \<alpha>) (on_gen n)" "keeps (world_typed St \<alpha>) (on_mail q)"
  "keeps (world_typed St \<alpha>) now" "keeps (world_typed St \<alpha>) (domain_op r)" "keeps (world_typed St \<alpha>) (db_op h)"
  "keeps (world_typed St \<alpha>) (gen_op p)"
  unfolding domain_op_def db_op_def gen_op_def
  by (intro steps_rules stepsI; auto simp: on_iffs now_def world_typed_def)+

text \<open>\<open>typing p\<close>: every call of the task \<open>p\<close> keeps the cache well typed.\<close>

inductive typing :: "('r, 'g) app_state \<Rightarrow> ('r \<Rightarrow> keyspace) \<Rightarrow> ('r, 'g) task \<Rightarrow> bool" for St \<alpha> where
    typing_Done: "typing St \<alpha> (Done x)"
  | typing_Issue: "typing St \<alpha> (Issue j u a r)"
  | typing_Act: "(\<And>w p w'. f w = (p, w') \<Longrightarrow> (world_typed St \<alpha> w \<longrightarrow> world_typed St \<alpha> w') \<and> typing St \<alpha> p)
      \<Longrightarrow> typing St \<alpha> (Act f)"

inductive_cases typing_ActE: "typing St \<alpha> (Act f)"

named_theorems typing_rules

declare typing_Done [typing_rules] typing_Issue [typing_rules]

lemma typing_act [typing_rules]:
  assumes "keeps (world_typed St \<alpha>) m" and "\<And>a. typing St \<alpha> (k a)"
  shows "typing St \<alpha> (act m k)"
  unfolding act_def
proof (rule typing_Act)
  fix w p w'
  assume "(case m w of (Inl e, w') \<Rightarrow> (Done (Inl e), w') | (Inr a, w') \<Rightarrow> (k a, w')) = (p, w')"
  then show "(world_typed St \<alpha> w \<longrightarrow> world_typed St \<alpha> w') \<and> typing St \<alpha> p"
    by (cases rule: act_cases) (use stepsD [OF assms(1)] assms(2) in \<open>auto intro: typing_Done\<close>)
qed

lemma typing_branches [typing_rules]:
  "typing St \<alpha> p \<Longrightarrow> (\<And>a. typing St \<alpha> (q a)) \<Longrightarrow> typing St \<alpha> (case x of None \<Rightarrow> p | Some a \<Rightarrow> q a)"
  "typing St \<alpha> p \<Longrightarrow> typing St \<alpha> p' \<Longrightarrow> typing St \<alpha> (if c then p else p')"
  "(\<And>a b. typing St \<alpha> (h a b)) \<Longrightarrow> typing St \<alpha> (case y of (a, b) \<Rightarrow> h a b)"
  by (simp_all split: option.split prod.split)

context redis_service begin

lemma typed_on_cache:
  fixes m :: "instant \<Rightarrow> ('r, 'e, 'x) io"
  assumes "\<And>t. keeps (\<lambda>r. cache_typed (st_uuid St) t (\<alpha> r)) (m t)"
  shows "keeps (world_typed St \<alpha>) (on_cache m)"
  by (rule stepsI) (use stepsD [OF assms] in \<open>auto simp: on_cache_iff world_typed_def\<close>)

lemma typed_calls:
  fixes conv :: "reply \<Rightarrow> redis_error + 'x"
  shows "keeps (world_typed St \<alpha>) (cache_call (\<lambda>_. rd_connect R))"
    and "typed_cmd (st_uuid St) c \<Longrightarrow> keeps (world_typed St \<alpha>) (cache_call (rd_exec R c))"
    and "typed_cmd (st_uuid St) c \<Longrightarrow> keeps (world_typed St \<alpha>) (cache_call (rd_query R c conv))"
    and "(\<And>c. c \<in> set cs \<Longrightarrow> typed_cmd (st_uuid St) c) \<Longrightarrow> keeps (world_typed St \<alpha>) (cache_call (rd_pipe R cs))"
    and "keeps (world_typed St \<alpha>) (on_cache (\<lambda>_. rd_connect R))"
    and "typed_cmd (st_uuid St) c \<Longrightarrow> keeps (world_typed St \<alpha>) (on_cache (rd_exec R c))"
  unfolding cache_call_def cache_op_def
  by (intro steps_rules typed_on_cache keeps_connect keeps_exec keeps_query keeps_pipe typed_cmdD; assumption?; simp)+

end

lemma typing_handlers:
  assumes "redis_service (st_redis St) \<alpha>" and "p \<in> handler_tasks St"
  shows "typing St \<alpha> p"
proof -
  note calls = redis_service.typed_calls [OF assms(1)]
  note rules = typing_rules typed_other calls typed_readers typed_writers steps_rules
  have "typed_cmd U c" if "c \<in> set (revoke_cmds U u js)" for U c u js
    using that by (auto simp: revoke_cmds_def typed_readers)
  note revoke_all = calls(4) [OF this]
  show ?thesis
    using assms(2) unfolding handler_tasks_def
    by (auto simp: register_task_def login_task_def login_unlocked_def login_verified_def refresh_task_def
        logout_task_def me_task_def change_password_task_def delete_me_task_def logout_all_task_def
        health_task_def reset_request_task_def reset_confirm_task_def Let_def revoke_task_def drop_task_def
        revoke_all_task_def is_locked_task_def record_failure_task_def clear_failures_task_def issue_task_def
        intro!: rules revoke_all split: prod.split sum.split)
qed

lemma typed_store_session:
  assumes "redis_service (st_redis St) \<alpha>"
  shows "keeps (world_typed St \<alpha>) (store_session St j u a r)"
proof -
  have pipe: "keeps (world_typed St \<alpha>) (cache_call (rd_pipe (st_redis St) (store_cmds (st_uuid St) j u refresh_ttl_secs)))"
    by (rule redis_service.typed_calls(4) [OF assms]) (use typed_writers [of "st_uuid St"] in \<open>auto simp: store_cmds_def\<close>)
  show ?thesis
    unfolding store_session_def store_refresh_token_def cache_op_bindE
    by (intro steps_rules pipe [unfolded cache_call_def]
        redis_service.typed_calls(1) [OF assms, unfolded cache_call_def])
qed

section \<open>The pool\<close>

lemma typed_tstep:
  assumes "redis_service (st_redis St) \<alpha>" and "tstep St (p, w) (p', w')" and "typing St \<alpha> p"
  shows "typing St \<alpha> p' \<and> (world_typed St \<alpha> w \<longrightarrow> world_typed St \<alpha> w')"
  using assms(2)
proof (cases rule: tstep.cases)
  case (call f)
  with assms(3) show ?thesis by (auto elim!: typing_ActE)
next
  case (store j u a r x)
  with stepsD [OF typed_store_session [OF assms(1)] store(3)] show ?thesis by (simp add: typing_Done)
qed

lemma typed_csteps:
  assumes R: "redis_service (st_redis St) \<alpha>" and "csteps St s s'"
    and "\<forall>p \<in> set (fst s). typing St \<alpha> p" and "world_typed St \<alpha> (snd s)"
  shows "(\<forall>p \<in> set (fst s'). typing St \<alpha> p) \<and> world_typed St \<alpha> (snd s')"
  using assms(2)
proof (induction rule: rtranclp_induct)
  case base
  with assms(3,4) show ?case by simp
next
  case (step s1 s2)
  from step(2) show ?case
  proof cases
    case (arrive p ps w)
    with step.IH typing_handlers [OF R arrive(3)] show ?thesis by auto
  next
    case (run i ps w p w')
    then have "typing St \<alpha> (ps ! i)" using step.IH by simp
    from typed_tstep [OF R run(4) this] run step.IH show ?thesis
      by (auto dest!: set_update_subset_insert [THEN subsetD])
  next
    case (time d ps w)
    with step.IH show ?thesis by (auto simp: world_typed_def intro: cache_typed_later)
  qed
qed

lemma pool_typed:
  assumes "redis_service (st_redis St) \<alpha>" and "pool_reachable St \<alpha> (ps, w)"
  shows "cache_typed (st_uuid St) (clock w) (\<alpha> (cache w))"
proof -
  obtain w0 where w0: "initial \<alpha> w0" and run: "csteps St ([], w0) (ps, w)"
    using assms(2) by (auto simp: pool_reachable_def)
  have "world_typed St \<alpha> w0" using w0 by (simp add: world_typed_def initial_def cache_typed_def)
  with typed_csteps [OF assms(1) run] show ?thesis by (simp add: world_typed_def)
qed

text \<open>So the token store finds what it has written.\<close>

lemma cache_typed_well_typed: "cache_typed U t ks \<Longrightarrow> well_typed U ks"
  unfolding well_typed_def cache_typed_def by fastforce

end
