(* ===== verification/Concurrent_Properties.thy ===== *)
theory Concurrent_Properties
  imports Pool_Invariant Concurrent_Logins Concurrent_Revocation Pool_Typing Reference_Service
begin

text \<open>
  Properties of the service with many requests in flight. The tasks are the handlers; a refresh token is
  exchanged by one request at most, and by none after a logout with it was answered, whatever the order
  in which their calls reach the stores; but the lockout does not bound the guesses made in parallel. The
  entries of the cache keep their types.
\<close>

section \<open>The tasks are the handlers\<close>

text \<open>
  The task of a handler, run without interruption, is the handler: the same answer and the same
  effect in every state, whatever the calls return. So every run of one request after another is one of
  the interleavings.
\<close>

lemma tasks_are_handlers:
  "run_task St (register_task St rg) = register St rg
    \<and> run_task St (login_task St lg) = login St lg
    \<and> run_task St (refresh_task St rf) = refresh St rf
    \<and> run_task St (logout_task St lo) = logout St lo
    \<and> run_task St (me_task St c) = me c
    \<and> run_task St (change_password_task St c cp) = change_password St c cp
    \<and> run_task St (delete_me_task St c) = delete_me St c
    \<and> run_task St (logout_all_task St c) = logout_all St c
    \<and> run_task St (health_task St) = health St
    \<and> run_task St (reset_request_task St rr) = password_reset_request St rr
    \<and> run_task St (reset_confirm_task St rc) = password_reset_confirm St rc"
  by (simp only: run_register_task run_login_task run_refresh_task run_logout_task run_me_task
      run_change_password_task run_delete_me_task run_logout_all_task run_health_task
      run_reset_request_task run_reset_confirm_task simp_thms)

section \<open>One exchange\<close>

text \<open>A request that arrives and runs to its end.\<close>

lemma csteps_request:
  assumes "p \<in> handler_tasks St" and "run_task St p w = (x, w')"
  shows "csteps St (ps, w) (ps @ [Done x], w')"
proof -
  have "csteps St (ps, w) (ps @ [p], w)" using assms(1) by (intro r_into_rtranclp arrive)
  also have "csteps St \<dots> ((ps @ [p])[length ps := Done x], w')"
    using assms(2) by (intro csteps_task tsteps_run_task) simp_all
  finally show ?thesis by simp
qed

lemma csteps_arrive: "p \<in> handler_tasks St \<Longrightarrow> csteps St (ps, w) (ps @ [p], w)"
  by (intro r_into_rtranclp arrive)

lemma handler_tasks_members:
  "register_task St rg \<in> handler_tasks St" "login_task St lg \<in> handler_tasks St"
  "refresh_task St rf \<in> handler_tasks St" "logout_task St lo \<in> handler_tasks St"
  by (simp_all add: handler_tasks_def)

text \<open>The reference service after a registration and a login.\<close>

lemma ref_register_run:
  "register ref_state \<lparr>reg_email = ''a@b.c'', reg_password = ''password1''\<rparr> ref_world
    = (Inr (respond 201 (Register_Response 1 ''a@b.c'')), ref_registered)"
  by (simp add: eval ref_worlds cong: eval_cong)

lemma ref_login_run:
  "login ref_state \<lparr>login_email = ''a@b.c'', login_password = ''password1''\<rparr> ref_registered
    = (Inr (respond 200 (Login_Response ref_access ref_refresh)), ref_session)"
  by (simp add: eval ref_worlds cong: eval_cong)

lemma ref_pool:
  "pool_reachable ref_state fst
    ([answer 201 (Register_Response 1 ''a@b.c''), answer 200 (Login_Response ref_access ref_refresh)], ref_session)"
proof -
  have reg: "csteps ref_state ([], ref_world) ([] @ [answer 201 (Register_Response 1 ''a@b.c'')], ref_registered)"
    by (rule csteps_request [OF handler_tasks_members(1)]) (rule trans [OF fun_cong [OF run_register_task] ref_register_run])
  have "csteps ref_state ([answer 201 (Register_Response 1 ''a@b.c'')], ref_registered)
      ([answer 201 (Register_Response 1 ''a@b.c'')] @ [answer 200 (Login_Response ref_access ref_refresh)], ref_session)"
    by (rule csteps_request [OF handler_tasks_members(2)]) (rule trans [OF fun_cong [OF run_login_task] ref_login_run])
  with reg have "csteps ref_state ([], ref_world)
      ([answer 201 (Register_Response 1 ''a@b.c''), answer 200 (Login_Response ref_access ref_refresh)], ref_session)"
    by simp
  then show ?thesis
    unfolding pool_reachable_def by (intro exI [of _ ref_world]) (simp add: initial_def ref_world_def)
qed

text \<open>
  C6. A refresh token is exchanged once, also by requests in flight at the same time. Of two requests to
  refresh with the same handed-out token, at most one is ever answered with a success, however their
  calls interleave with each other and with any other requests, and whatever is lost.
\<close>

theorem concurrent_exchange_once:
  assumes "auth_service St \<alpha> keypair drawn" and "pool_reachable St \<alpha> (ps, w)"
    and "answer 200 (Login_Response a tok) \<in> set ps"
    and "i < length ps" "ps ! i = refresh_task St \<lparr>refresh_token = tok\<rparr>"
    and "k < length ps" "ps ! k = refresh_task St \<lparr>refresh_token = tok\<rparr>" and "i \<noteq> k"
    and "csteps St (ps, w) (ps', w')" and "distinct (drawn (gen w'))" and "ps' ! i = Done (Inr res)"
  shows "ps' ! k \<noteq> Done (Inr res')"
proof
  assume both: "ps' ! k = Done (Inr res')"
  note inv = auth_service.pool_reachable_run(2) [OF assms(1,2,9), unfolded snd_conv, OF assms(10)]
  then obtain j where j: "names St tok j" "settled drawn j (ps, w)"
    using assms(3) by (fastforce simp: pool_inv_def)
  have "pays St \<alpha> j (ps ! i)" "pays St \<alpha> j (ps ! k)"
    using auth_service.pays_refresh_task [OF assms(1) j(1)] assms(5,7) by simp_all
  with auth_service.two_payers [OF assms(1,9) inv _ j(2), unfolded fst_conv snd_conv, OF assms(10,4) _ assms(6) _ assms(8)]
  show False using assms(11) both by auto
qed

lemma concurrent_exchange_once_witness:
  "\<exists>ps' w'. csteps ref_state ([answer 201 (Register_Response 1 ''a@b.c''), answer 200 (Login_Response ref_access ref_refresh),
        refresh_task ref_state \<lparr>refresh_token = ref_refresh\<rparr>, refresh_task ref_state \<lparr>refresh_token = ref_refresh\<rparr>],
      ref_session) (ps', w')
    \<and> (\<exists>res. ps' ! 2 = Done (Inr res)) \<and> (\<forall>res. ps' ! 3 \<noteq> Done (Inr res))"
proof -
  let ?t = "refresh_task ref_state \<lparr>refresh_token = ref_refresh\<rparr>"
  let ?ps = "[answer 201 (Register_Response 1 ''a@b.c''), answer 200 (Login_Response ref_access ref_refresh), ?t, ?t]"
  let ?r = "respond 200 (Login_Response (fst ref_rotated_tokens) (snd ref_rotated_tokens))"
  have "csteps ref_state ([answer 201 (Register_Response 1 ''a@b.c''), answer 200 (Login_Response ref_access ref_refresh)],
      ref_session) (?ps, ref_session)"
    using csteps_arrive [OF handler_tasks_members(3)] csteps_arrive [OF handler_tasks_members(3)]
    by (fastforce intro: rtranclp_trans)
  with ref_pool have reach: "pool_reachable ref_state fst (?ps, ref_session)"
    by (auto simp: pool_reachable_def intro: rtranclp_trans)
  have run: "csteps ref_state (?ps, ref_session) (?ps[2 := Done (Inr ?r)], ref_rotated)"
    by (rule csteps_task [OF tsteps_run_task]) (simp_all add: run_refresh_task ref_refresh_result)
  have "?ps[2 := Done (Inr ?r)] ! 3 \<noteq> Done (Inr res)" for res
    by (rule concurrent_exchange_once [OF ref.auth_service_axioms reach _ _ _ _ _ _ run, of ref_access ref_refresh 2])
      (simp_all add: ref_rotated_def ref_drawn_def)
  with run show ?thesis by (intro exI conjI) (assumption, simp, blast)
qed

text \<open>
  C7. Logging out is final also under concurrency. Once a logout with a handed-out refresh token is
  answered with a success, no request that then starts to refresh with this token is ever answered with
  a success, whatever other requests are in flight and however the calls interleave.
\<close>

theorem concurrent_logout_final:
  assumes "auth_service St \<alpha> keypair drawn" and "pool_reachable St \<alpha> (ps, w)"
    and "answer 200 (Login_Response a tok) \<in> set ps"
    and "i < length ps" "ps ! i = logout_task St \<lparr>logout_token = tok\<rparr>"
    and "csteps St (ps, w) (ps1, w1)" and "ps1 ! i = Done (Inr res)"
    and "k < length ps1" "ps1 ! k = refresh_task St \<lparr>refresh_token = tok\<rparr>"
    and "csteps St (ps1, w1) (ps2, w2)" and "distinct (drawn (gen w2))"
  shows "ps2 ! k \<noteq> Done (Inr res')"
proof
  assume success: "ps2 ! k = Done (Inr res')"
  have "pool_reachable St \<alpha> (ps1, w1)"
    using assms(2,6) unfolding pool_reachable_def by (blast intro: rtranclp_trans)
  note inv1 = auth_service.pool_reachable_run [OF assms(1) this assms(10), unfolded snd_conv, OF assms(11)]
  note inv = auth_service.pool_reachable_run(2) [OF assms(1,2,6), unfolded snd_conv, OF inv1(1)]
  then obtain j where j: "names St tok j" "settled drawn j (ps, w)"
    using assms(3) by (fastforce simp: pool_inv_def)
  have "kills St \<alpha> j (ps ! i)" using auth_service.kills_logout_task [OF assms(1) j(1)] assms(5) by simp
  from auth_service.killed [OF assms(1,6) inv _ j(2), unfolded fst_conv snd_conv, OF inv1(1) assms(4) this] assms(7)
  have gone: "settled drawn j (ps1, w1)" "dead St \<alpha> j w1" by auto
  have "pays St \<alpha> j (ps1 ! k)" using auth_service.pays_refresh_task [OF assms(1) j(1)] assms(9) by simp
  from auth_service.gone_payer [OF assms(1,10) inv1(2) _ gone(1), unfolded fst_conv snd_conv, OF assms(11) gone(2) assms(8) this]
  show False by (simp add: success)
qed

lemma concurrent_logout_final_witness:
  "\<exists>ps w. csteps ref_state ([answer 201 (Register_Response 1 ''a@b.c''), answer 200 (Login_Response ref_access ref_refresh),
        logout_task ref_state \<lparr>logout_token = ref_refresh\<rparr>], ref_session) (ps, w)
    \<and> ps ! 2 = answer 204 No_Body \<and> length ps = 4 \<and> (\<forall>res. ps ! 3 \<noteq> Done (Inr res))"
proof -
  let ?ps = "[answer 201 (Register_Response 1 ''a@b.c''), answer 200 (Login_Response ref_access ref_refresh)]"
  let ?out = "logout_task ref_state \<lparr>logout_token = ref_refresh\<rparr>"
    and ?t = "refresh_task ref_state \<lparr>refresh_token = ref_refresh\<rparr>"
  have "csteps ref_state (?ps, ref_session) (?ps @ [?out], ref_session)"
    by (rule csteps_arrive [OF handler_tasks_members(4)])
  with ref_pool have reach: "pool_reachable ref_state fst (?ps @ [?out], ref_session)"
    by (auto simp: pool_reachable_def intro: rtranclp_trans)
  have "csteps ref_state (?ps @ [?out], ref_session) ((?ps @ [?out])[2 := answer 204 No_Body], ref_logged_out)"
    by (rule csteps_task [OF tsteps_run_task]) (simp_all add: run_logout_task ref_logout_result)
  moreover have "csteps ref_state ((?ps @ [?out])[2 := answer 204 No_Body], ref_logged_out)
      ((?ps @ [?out])[2 := answer 204 No_Body] @ [?t], ref_logged_out)"
    by (rule csteps_arrive [OF handler_tasks_members(3)])
  ultimately have run: "csteps ref_state (?ps @ [?out], ref_session) (?ps @ [answer 204 No_Body, ?t], ref_logged_out)"
    by (auto intro: rtranclp_trans)
  let ?x = "run_task ref_state ?t ref_logged_out"
  have last: "csteps ref_state (?ps @ [answer 204 No_Body, ?t], ref_logged_out)
      (?ps @ [answer 204 No_Body, Done (fst ?x)], snd ?x)"
    using csteps_task [OF tsteps_run_task [of ref_state ?t ref_logged_out "fst ?x" "snd ?x"], of 3
        "?ps @ [answer 204 No_Body, ?t]"] by simp
  have "distinct (ref_drawn (gen (snd ?x)))"
    unfolding run_refresh_task
    by (simp add: eval ref_worlds ref_logged_out_def ref_drawn_def cong: eval_cong)
  note final = concurrent_logout_final [OF ref.auth_service_axioms reach _ _ _ run _ _ _ last this,
      of ref_access ref_refresh 2 "respond 204 No_Body" 3]
  have "(?ps @ [answer 204 No_Body, Done (fst ?x)]) ! 3 \<noteq> Done (Inr res)" for res
    using final [of res] by simp
  with rtranclp_trans [OF run last] show ?thesis
    by (intro exI [of _ "?ps @ [answer 204 No_Body, Done (fst ?x)]"] exI [of _ "snd ?x"]) simp
qed

section \<open>Guesses in parallel\<close>

text \<open>
  C8. The lockout does not bound parallel guesses. While the services answer and the address is not
  locked, any number of logins with wrong passwords can all have their password compared before one of
  them is counted; a login with the right password among them is then answered with tokens. Made one
  after another, the eleventh would have been refused.
\<close>

theorem parallel_guesses_pass_lockout:
  assumes "available_service St \<alpha> keypair drawn up calm" and "reachable rs St L \<alpha> (w, H)"
    and "distinct (drawn (gen w))" and "up (cache w)" and "calm (gen w)"
    and "lockout_failures (clock w) (\<alpha> (cache w)) e < 10"
    and "\<forall>b \<in> set bs. wrong_password St (db w) e b"
    and "login_validate b = Inr ()" and "login_email b = e" and "user_with_email (db w) e = Some user"
    and "verify_hash (st_argon2_crate St) (st_passwords St) (login_password b) (password_hash user) = Inr True"
  shows "\<exists>a r w'. csteps St (map (login_task St) (bs @ [b]), w)
    (map (\<lambda>b. login_verified St b user False) bs @ [answer 200 (Login_Response a r)], w')"
proof -
  from assms(1) have "auth_service St \<alpha> keypair drawn" by (simp add: available_service_def)
  from auth_service.reachable_svc(2) [OF this assms(2,3)]
  show ?thesis by (rule available_service.logins_race [OF assms(1) _ assms(4-7,10,8,9,11)])
qed

lemma parallel_guesses_pass_lockout_witness:
  "\<exists>a r w'. csteps ref_state (map (login_task ref_state)
        (replicate 1000 \<lparr>login_email = ''a@b.c'', login_password = ''wrong''\<rparr>
          @ [\<lparr>login_email = ''a@b.c'', login_password = ''password1''\<rparr>]), ref_session)
      (map (\<lambda>b. login_verified ref_state b ref_user False)
        (replicate 1000 \<lparr>login_email = ''a@b.c'', login_password = ''wrong''\<rparr>)
        @ [answer 200 (Login_Response a r)], w')"
proof -
  have wrong: "wrong_password ref_state (db ref_session) ''a@b.c''
      \<lparr>login_email = ''a@b.c'', login_password = ''wrong''\<rparr>"
    by (simp add: wrong_password_def eval_requests verify_hash_def ref_worlds ref_argon2_def
        user_with_email_def Let_def)
  have right: "login_validate \<lparr>login_email = ''a@b.c'', login_password = ''password1''\<rparr> = Inr ()"
    by (simp add: eval_requests Let_def)
  have user: "user_with_email (db ref_session) ''a@b.c'' = Some ref_user"
    by (simp add: user_with_email_def ref_worlds)
  have ok: "verify_hash (st_argon2_crate ref_state) (st_passwords ref_state) ''password1'' (password_hash ref_user) = Inr True"
    by (simp add: verify_hash_def ref_worlds ref_argon2_def)
  have "lockout_failures (clock ref_session) (fst (cache ref_session)) ''a@b.c'' = 0"
    by (simp add: lockout_failures_def lookup_def ref_session_def)
  then have none: "lockout_failures (clock ref_session) (fst (cache ref_session)) ''a@b.c'' < 10" by simp
  show ?thesis
    by (rule parallel_guesses_pass_lockout [OF ref_up.available_service_axioms ref_reachable _ _ _ none _ right _ user])
      (use wrong ok in \<open>simp_all add: ref_worlds ref_drawn_def\<close>)
qed

section \<open>A refresh in flight\<close>

text \<open>
  C13. A revocation does not reach a refresh in flight. A refresh that is granted passes a point at which
  its old token is redeemed and its new one not yet stored. Whatever other request is answered there, a
  logout from everywhere of the same user included, which succeeds, or a confirmed reset of the password,
  the refresh is then answered with a token that stands for the user for seven days.
\<close>

theorem refresh_in_flight_survives:
  assumes "available_service St \<alpha> keypair drawn up calm" and "reachable rs St L \<alpha> (w, H)"
    and "up (cache w)" and "calm (gen w)" and "refresh_spec St \<alpha> b w = Inr c"
    and "distinct (drawn (gen (snd (refresh St b w))))"
    and "\<forall>x tok. jwt_encode (st_jwt_crate St) EdDSA x (encoding_key (st_jwt St)) = Inr tok \<longrightarrow> tok \<noteq> []"
  shows "\<exists>p a r w1. csteps St ([refresh_task St b], w) ([p], w1)
    \<and> (\<forall>c'. \<exists>w2 w3. csteps St ([p, logout_all_task St c'], w1) ([p, answer 204 No_Body], w2)
         \<and> csteps St ([p, answer 204 No_Body], w2) ([answer 200 (Login_Response a r), answer 204 No_Body], w3)
         \<and> stands_for St \<alpha> r (c_sub c) w3)
    \<and> (\<forall>q \<in> handler_tasks St. \<forall>x w2. run_task St q w1 = (x, w2) \<longrightarrow> up (cache w2) \<longrightarrow> distinct (drawn (gen w2)) \<longrightarrow>
         (\<exists>w3. csteps St ([p, q], w1) ([p, Done x], w2)
            \<and> csteps St ([p, Done x], w2) ([answer 200 (Login_Response a r), Done x], w3)
            \<and> stands_for St \<alpha> r (c_sub c) w3))"
proof -
  have svc: "auth_service St \<alpha> keypair drawn" using assms(1) by (simp add: available_service_def)
  have "evo St \<alpha> drawn {} w (snd (refresh St b w))"
    by (rule stepsD [OF auth_service.evolves_refresh [OF svc] prod.collapse [symmetric]])
  then have "distinct (drawn (gen w))" using assms(6) by (auto simp: evo_def intro: suffix_distinct)
  note inv = auth_service.reachable_svc(2) [OF svc assms(2) this]
  obtain p a r w1 where p: "csteps St ([refresh_task St b], w) ([p], w1)"
    and q: "\<And>q x w2. q \<in> handler_tasks St \<Longrightarrow> run_task St q w1 = (x, w2) \<Longrightarrow> up (cache w2) \<Longrightarrow>
      distinct (drawn (gen w2)) \<Longrightarrow>
      \<exists>w3. csteps St ([p, q], w1) ([p, Done x], w2)
        \<and> csteps St ([p, Done x], w2) ([answer 200 (Login_Response a r), Done x], w3)
        \<and> stands_for St \<alpha> r (c_sub c) w3"
    and l: "\<And>c'. \<exists>w2. run_task St (logout_all_task St c') w1 = (Inr (respond 204 No_Body), w2)
        \<and> up (cache w2) \<and> distinct (drawn (gen w2))"
    by (rule available_service.refresh_survives [OF assms(1) inv assms(3-7)]) blast
  have "\<exists>w2 w3. csteps St ([p, logout_all_task St c'], w1) ([p, answer 204 No_Body], w2)
       \<and> csteps St ([p, answer 204 No_Body], w2) ([answer 200 (Login_Response a r), answer 204 No_Body], w3)
       \<and> stands_for St \<alpha> r (c_sub c) w3" for c'
  proof -
    obtain w2 where "run_task St (logout_all_task St c') w1 = (Inr (respond 204 No_Body), w2)"
      "up (cache w2)" "distinct (drawn (gen w2))" using l by blast
    from q [OF _ this] show ?thesis by (auto simp: handler_tasks_def)
  qed
  with p q show ?thesis by (intro exI [of _ p] exI [of _ a] exI [of _ r] exI [of _ w1] conjI) auto
qed

lemma refresh_in_flight_survives_witness:
  "\<exists>p a r w1 w2 w3. csteps ref_state ([refresh_task ref_state \<lparr>refresh_token = ref_refresh\<rparr>], ref_session) ([p], w1)
    \<and> csteps ref_state ([p, logout_all_task ref_state ref_access_claims], w1) ([p, answer 204 No_Body], w2)
    \<and> csteps ref_state ([p, answer 204 No_Body], w2) ([answer 200 (Login_Response a r), answer 204 No_Body], w3)
    \<and> stands_for ref_state fst r (c_sub ref_access_claims) w3"
proof -
  have spec: "refresh_spec ref_state fst \<lparr>refresh_token = ref_refresh\<rparr> ref_session = Inr ref_refresh_claims"
    by (simp add: refresh_spec_def refresh_validate_def ref_verify_refresh ref_session_alive)
      (simp add: ref_refresh_def)
  have nonempty: "\<forall>x tok. jwt_encode (st_jwt_crate ref_state) EdDSA x (encoding_key (st_jwt ref_state)) = Inr tok
      \<longrightarrow> tok \<noteq> []"
    by (simp add: eval_library ref_encode_def claims_text_def)
  have same: "c_sub ref_access_claims = c_sub ref_refresh_claims"
    by (simp add: ref_access_claims_def ref_refresh_claims_def)
  have "distinct (ref_drawn (gen (snd (refresh ref_state \<lparr>refresh_token = ref_refresh\<rparr> ref_session))))"
    by (simp add: ref_refresh_result ref_rotated_def ref_drawn_def)
  from refresh_in_flight_survives [OF ref_up.available_service_axioms ref_reachable _ _ spec this nonempty] same
  show ?thesis by (simp add: ref_worlds) blast
qed

section \<open>The entries of the cache\<close>

text \<open>
  C21. The entries of the cache stay well typed, however the calls of the requests in flight interleave and
  whatever is lost. Starting from an empty cache, the handlers write no entries but these: under the key of
  a refresh token the text of a user id, with a deadline at most seven days away; under the key of a user's
  sessions a non-empty set of texts of token ids without repetition, with no deadline later than that; and
  under the key of an address a positive count of failures, with no deadline later than 900 seconds. A set
  or a count may be without a deadline: the command that sets it comes after the one that writes it. The
  count has no bound of ten. The limiter, which is not a task of the pool, writes other keys.
\<close>

theorem pool_cache_typed:
  assumes "redis_service (st_redis St) \<alpha>" and "pool_reachable St \<alpha> (ps, w)" and "\<alpha> (cache w) k = Some (v, d)"
  shows "(\<exists>j u x. k = refresh_key (st_uuid St) j \<and> v = RStr (uuid_show (st_uuid St) u)
        \<and> d = Some x \<and> x \<le> clock w + secs 604800)
    \<or> (\<exists>u ms. k = sessions_key (st_uuid St) u \<and> v = RSet ms \<and> ms \<noteq> [] \<and> distinct ms
        \<and> set ms \<subseteq> range (uuid_show (st_uuid St)) \<and> (d = None \<or> (\<exists>x. d = Some x \<and> x \<le> clock w + secs 604800)))
    \<or> (\<exists>e n. k = lockout_key e \<and> v = RNum n \<and> 1 \<le> n
        \<and> (d = None \<or> (\<exists>x. d = Some x \<and> x \<le> clock w + secs 900)))"
proof -
  have "entry_typed (st_uuid St) (clock w) k (v, d)"
    using pool_typed [OF assms(1,2)] assms(3) by (simp add: cache_typed_def)
  then show ?thesis
    unfolding entry_typed_def due_by_def session_secs_def LOCKOUT_WINDOW_SECS_def by (cases d) auto
qed

lemma pool_cache_typed_witness:
  "fst (cache ref_session) (refresh_key bits_uuid 3) = Some (RStr (uuid_show bits_uuid 1), Some (secs 604800))
    \<and> secs 604800 \<le> clock ref_session + secs 604800"
proof -
  have entry: "fst (cache ref_session) (refresh_key bits_uuid 3) = Some (RStr (uuid_show bits_uuid 1), Some (secs 604800))"
    by (simp add: ref_session_def secs_def)
  from pool_cache_typed [OF ref_redis ref_pool entry] entry show ?thesis by auto
qed

end
