(* ===== verification/Validation_Tests.thy ===== *)
theory Validation_Tests
  imports Requests
begin

text \<open>
  The unit tests of \<open>src/routes/mod.rs\<close>, each a predicate with the name of its function: it holds if
  the test passes, that is, if none of its assertions panics. The helpers \<open>ok\<close> and \<open>err\<close> of the
  module, and the pairs after them, are \<open>register_ok\<close>, \<open>register_err\<close> and so on here.
\<close>

section \<open>Registration\<close>

definition is_ok :: "('e + 'a) \<Rightarrow> bool" where
  "is_ok r = (case r of Inl _ \<Rightarrow> False | Inr _ \<Rightarrow> True)"

definition is_err :: "('e + 'a) \<Rightarrow> bool" where
  "is_err r = (case r of Inl _ \<Rightarrow> True | Inr _ \<Rightarrow> False)"

definition register_ok :: "string \<Rightarrow> string \<Rightarrow> bool" where
  "register_ok email password \<longleftrightarrow>
     is_ok (register_validate \<lparr>reg_email = email, reg_password = password\<rparr>)"

definition register_err :: "string \<Rightarrow> string \<Rightarrow> bool" where
  "register_err email password \<longleftrightarrow>
     is_err (register_validate \<lparr>reg_email = email, reg_password = password\<rparr>)"

text \<open>\<open>"a".repeat(n)\<close>.\<close>

definition repeat_a :: "nat \<Rightarrow> string" where
  "repeat_a n = replicate n CHR ''a''"

definition valid_inputs_pass :: bool where
  "valid_inputs_pass \<longleftrightarrow>
     register_ok ''alice@example.com'' ''password123''
   \<and> register_ok ''a@b.io'' ''password123''
   \<and> register_ok ''user+tag@sub.domain.org'' ''password123''"

definition email_missing_at_fails :: bool where
  "email_missing_at_fails \<longleftrightarrow> register_err ''notanemail'' ''password123''"

definition email_empty_local_part_fails :: bool where
  "email_empty_local_part_fails \<longleftrightarrow> register_err ''@example.com'' ''password123''"

definition email_no_dot_in_domain_fails :: bool where
  "email_no_dot_in_domain_fails \<longleftrightarrow> register_err ''user@nodot'' ''password123''"

definition email_domain_starts_with_dot_fails :: bool where
  "email_domain_starts_with_dot_fails \<longleftrightarrow> register_err ''user@.example.com'' ''password123''"

definition email_domain_ends_with_dot_fails :: bool where
  "email_domain_ends_with_dot_fails \<longleftrightarrow> register_err ''user@example.'' ''password123''"

definition email_multiple_at_signs_fails :: bool where
  "email_multiple_at_signs_fails \<longleftrightarrow> register_err ''a@b@c.com'' ''password123''"

definition email_too_long_fails :: bool where
  "email_too_long_fails \<longleftrightarrow> (let long = repeat_a 245 @ ''@example.com'' in register_err long ''password123'')"

definition password_empty_fails :: bool where
  "password_empty_fails \<longleftrightarrow> register_err ''alice@example.com'' ''''"

definition password_too_short_fails :: bool where
  "password_too_short_fails \<longleftrightarrow>
     register_err ''alice@example.com'' ''short'' \<and> register_err ''alice@example.com'' ''1234567''"

definition password_exactly_8_chars_passes :: bool where
  "password_exactly_8_chars_passes \<longleftrightarrow> register_ok ''alice@example.com'' ''12345678''"

definition password_too_long_fails :: bool where
  "password_too_long_fails \<longleftrightarrow> (let long = repeat_a 129 in register_err ''alice@example.com'' long)"

definition password_exactly_128_chars_passes :: bool where
  "password_exactly_128_chars_passes \<longleftrightarrow> register_ok ''alice@example.com'' (repeat_a 128)"

section \<open>Login\<close>

definition login_ok :: "string \<Rightarrow> string \<Rightarrow> bool" where
  "login_ok email password \<longleftrightarrow>
     is_ok (login_validate \<lparr>login_email = email, login_password = password\<rparr>)"

definition login_err :: "string \<Rightarrow> string \<Rightarrow> bool" where
  "login_err email password \<longleftrightarrow>
     is_err (login_validate \<lparr>login_email = email, login_password = password\<rparr>)"

definition login_valid_inputs_pass :: bool where
  "login_valid_inputs_pass \<longleftrightarrow>
     login_ok ''alice@example.com'' ''anypassword''
   \<and> login_ok ''alice@example.com'' ''short''
   \<and> login_ok ''alice@example.com'' (repeat_a 128)"

definition login_invalid_email_fails :: bool where
  "login_invalid_email_fails \<longleftrightarrow>
     login_err ''notanemail'' ''anypassword''
   \<and> login_err ''@example.com'' ''anypassword''
   \<and> login_err ''user@nodot'' ''anypassword''"

definition login_empty_password_fails :: bool where
  "login_empty_password_fails \<longleftrightarrow> login_err ''alice@example.com'' ''''"

definition login_password_over_128_chars_fails :: bool where
  "login_password_over_128_chars_fails \<longleftrightarrow> login_err ''alice@example.com'' (repeat_a 129)"

section \<open>Refresh and logout\<close>

definition refresh_empty_token_fails :: bool where
  "refresh_empty_token_fails \<longleftrightarrow>
     (let req = \<lparr>refresh_token = ''''\<rparr> in is_err (refresh_validate req))"

definition refresh_non_empty_token_passes :: bool where
  "refresh_non_empty_token_passes \<longleftrightarrow>
     (let req = \<lparr>refresh_token = ''some.jwt.token''\<rparr> in is_ok (refresh_validate req))"

definition logout_empty_token_fails :: bool where
  "logout_empty_token_fails \<longleftrightarrow>
     (let req = \<lparr>logout_token = ''''\<rparr> in is_err (logout_validate req))"

definition logout_non_empty_token_passes :: bool where
  "logout_non_empty_token_passes \<longleftrightarrow>
     (let req = \<lparr>logout_token = ''some.jwt.token''\<rparr> in is_ok (logout_validate req))"

section \<open>Change of password\<close>

definition cp_ok :: "string \<Rightarrow> string \<Rightarrow> bool" where
  "cp_ok current new \<longleftrightarrow>
     is_ok (change_password_validate \<lparr>current_password = current, new_password = new\<rparr>)"

definition cp_err :: "string \<Rightarrow> string \<Rightarrow> bool" where
  "cp_err current new \<longleftrightarrow>
     is_err (change_password_validate \<lparr>current_password = current, new_password = new\<rparr>)"

definition change_password_valid_inputs_pass :: bool where
  "change_password_valid_inputs_pass \<longleftrightarrow>
     cp_ok ''oldpassword'' ''newpassword'' \<and> cp_ok ''a'' ''12345678'' \<and> cp_ok (repeat_a 128) ''12345678''"

definition change_password_empty_current_fails :: bool where
  "change_password_empty_current_fails \<longleftrightarrow> cp_err '''' ''newpassword''"

definition change_password_current_over_128_fails :: bool where
  "change_password_current_over_128_fails \<longleftrightarrow> cp_err (repeat_a 129) ''newpassword''"

definition change_password_new_too_short_fails :: bool where
  "change_password_new_too_short_fails \<longleftrightarrow> cp_err ''oldpassword'' ''short''"

definition change_password_new_too_long_fails :: bool where
  "change_password_new_too_long_fails \<longleftrightarrow> cp_err ''oldpassword'' (repeat_a 129)"

section \<open>They pass\<close>

lemmas test_checks = is_ok_def is_err_def repeat_a_def Let_def
  register_ok_def register_err_def login_ok_def login_err_def cp_ok_def cp_err_def
  register_validate_def login_validate_def refresh_validate_def logout_validate_def change_password_validate_def
  validate_email_def validate_password_def thenR_def rfind_char_def starts_with_def

lemma register_tests:
  "valid_inputs_pass" "email_missing_at_fails" "email_empty_local_part_fails"
  "email_no_dot_in_domain_fails" "email_domain_starts_with_dot_fails" "email_domain_ends_with_dot_fails"
  "email_multiple_at_signs_fails" "email_too_long_fails" "password_empty_fails" "password_too_short_fails"
  "password_exactly_8_chars_passes" "password_too_long_fails" "password_exactly_128_chars_passes"
  unfolding valid_inputs_pass_def email_missing_at_fails_def email_empty_local_part_fails_def
    email_no_dot_in_domain_fails_def email_domain_starts_with_dot_fails_def email_domain_ends_with_dot_fails_def
    email_multiple_at_signs_fails_def email_too_long_fails_def password_empty_fails_def
    password_too_short_fails_def password_exactly_8_chars_passes_def password_too_long_fails_def
    password_exactly_128_chars_passes_def
  by (simp_all add: test_checks)

lemma login_tests:
  "login_valid_inputs_pass" "login_invalid_email_fails" "login_empty_password_fails"
  "login_password_over_128_chars_fails"
  unfolding login_valid_inputs_pass_def login_invalid_email_fails_def login_empty_password_fails_def
    login_password_over_128_chars_fails_def
  by (simp_all add: test_checks)

lemma other_body_tests:
  "refresh_empty_token_fails" "refresh_non_empty_token_passes" "logout_empty_token_fails"
  "logout_non_empty_token_passes" "change_password_valid_inputs_pass" "change_password_empty_current_fails"
  "change_password_current_over_128_fails" "change_password_new_too_short_fails"
  "change_password_new_too_long_fails"
  unfolding refresh_empty_token_fails_def refresh_non_empty_token_passes_def logout_empty_token_fails_def
    logout_non_empty_token_passes_def change_password_valid_inputs_pass_def
    change_password_empty_current_fails_def change_password_current_over_128_fails_def
    change_password_new_too_short_fails_def change_password_new_too_long_fails_def
  by (simp_all add: test_checks)

end
