(* ===== verification/Test_Harness.thy ===== *)
theory Test_Harness
  imports Auth_Prelude
begin

text \<open>
  How the unit tests of the program are read. A test is a computation that may panic: an \<open>unwrap\<close> of an
  error is the panic \<open>Call_Failed\<close>, an assertion that does not hold the panic \<open>Assertion_Failed\<close>. A call
  that is not answered says nothing about the program, so a test is \<open>sound\<close> from a state if it does not
  end with a failed assertion, whatever calls fail; it passes if it does not panic at all.
\<close>

datatype panic = Call_Failed | Assertion_Failed

definition unwrapE :: "('s, 'e, 'a) io \<Rightarrow> ('s, panic, 'a) io" where
  "unwrapE m = mapErrE (\<lambda>_. Call_Failed) m"

text \<open>\<open>Result::unwrap_err\<close>, and \<open>expect\<close> or \<open>unwrap\<close> of an \<open>Option\<close>.\<close>

definition unwrap_errE :: "('s, 'e, 'a) io \<Rightarrow> ('s, panic, 'e) io" where
  "unwrap_errE m = (\<lambda>s. case m s of (Inl e, s') \<Rightarrow> (Inr e, s') | (Inr _, s') \<Rightarrow> (Inl Assertion_Failed, s'))"

definition expectE :: "'a option \<Rightarrow> ('s, panic, 'a) io" where
  "expectE x = ok_orE Assertion_Failed x"

definition assertE :: "bool \<Rightarrow> ('s, panic, unit) io" where
  "assertE b = (if b then okE () else errE Assertion_Failed)"

definition sound :: "('s, panic, 'a) io \<Rightarrow> 's \<Rightarrow> bool" where
  "sound m s \<longleftrightarrow> fst (m s) \<noteq> Inl Assertion_Failed"

definition passes :: "('s, panic, 'a) io \<Rightarrow> 's \<Rightarrow> bool" where
  "passes m s \<longleftrightarrow> (\<exists>a. fst (m s) = Inr a)"

lemma passes_sound: "passes m s \<Longrightarrow> sound m s"
  by (auto simp: passes_def sound_def)

text \<open>A test is sound if what follows an answered call is, from the state that the call left.\<close>

named_theorems sound_rules

lemma sound_unwrapE [sound_rules]:
  "(\<And>a s'. m s = (Inr a, s') \<Longrightarrow> sound (f a) s') \<Longrightarrow> sound (bindE (unwrapE m) f) s"
  by (auto simp: sound_def bindE_def unwrapE_def mapErrE_def split: prod.split sum.split)

lemma sound_assertE [sound_rules]: "b \<Longrightarrow> sound (f ()) s \<Longrightarrow> sound (bindE (assertE b) f) s"
  by (simp add: assertE_def)

lemma sound_assertE_last [sound_rules]: "b \<Longrightarrow> sound (assertE b) s"
  by (simp add: assertE_def sound_def)

lemma sound_okE [sound_rules]: "sound (okE a) s"
  by (simp add: sound_def)

end
