(* ===== verification/Store_Tests.thy ===== *)
theory Store_Tests
  imports Token_Store Lockout_Store Test_Harness
begin

text \<open>
  The unit tests of \<open>src/data/token_store.rs\<close> and \<open>src/data/lockout_store.rs\<close>, each with the name of
  its function. The UUIDs that a test draws are arguments; a test runs at one instant. Every test is
  sound on every service that satisfies the contract, from every state in which what its random ids name
  is not there yet.
\<close>

section \<open>The tests of the token store\<close>

definition store_creates_jti_key_and_sessions_set ::
    "'r redis_api \<Rightarrow> uuid_lib \<Rightarrow> uuid \<Rightarrow> uuid \<Rightarrow> instant \<Rightarrow> ('r, panic, unit) io" where
  "store_creates_jti_key_and_sessions_set R U jti user_id t =
     bindE (unwrapE (store_refresh_token R U jti user_id 60 t)) (\<lambda>_.
     bindE (unwrapE (rd_connect R)) (\<lambda>_.
     bindE (unwrapE (rd_query R (GET (refresh_key U jti)) (to_opt_string R) t)) (\<lambda>stored_uid.
     bindE (assertE (stored_uid = Some (uuid_show U user_id))) (\<lambda>_.
     bindE (unwrapE (rd_query R (SISMEMBER (sessions_key U user_id) (uuid_show U jti)) (to_bool R) t)) (\<lambda>is_member.
     bindE (assertE is_member) (\<lambda>_.
     bindE (unwrapE (rd_exec R (DEL (refresh_key U jti)) t)) (\<lambda>_.
     bindE (unwrapE (rd_exec R (DEL (sessions_key U user_id)) t)) (\<lambda>_.
     okE ()))))))))"

definition revoke_removes_jti_key_and_sessions_membership ::
    "'r redis_api \<Rightarrow> uuid_lib \<Rightarrow> uuid \<Rightarrow> uuid \<Rightarrow> instant \<Rightarrow> ('r, panic, unit) io" where
  "revoke_removes_jti_key_and_sessions_membership R U jti user_id t =
     bindE (unwrapE (store_refresh_token R U jti user_id 60 t)) (\<lambda>_.
     bindE (unwrapE (revoke_refresh_token R U jti t)) (\<lambda>revoked.
     bindE (assertE (revoked = Some user_id)) (\<lambda>_.
     bindE (unwrapE (rd_connect R)) (\<lambda>_.
     bindE (unwrapE (rd_query R (GET (refresh_key U jti)) (to_opt_string R) t)) (\<lambda>stored.
     bindE (assertE (stored = None)) (\<lambda>_.
     bindE (unwrapE (rd_query R (SISMEMBER (sessions_key U user_id) (uuid_show U jti)) (to_bool R) t)) (\<lambda>is_member.
     bindE (assertE (\<not> is_member)) (\<lambda>_.
     bindE (unwrapE (rd_exec R (DEL (sessions_key U user_id)) t)) (\<lambda>_.
     okE ())))))))))"

definition revoke_unknown_jti_returns_none ::
    "'r redis_api \<Rightarrow> uuid_lib \<Rightarrow> uuid \<Rightarrow> instant \<Rightarrow> ('r, panic, unit) io" where
  "revoke_unknown_jti_returns_none R U jti t =
     bindE (unwrapE (revoke_refresh_token R U jti t)) (\<lambda>result.
     assertE (result = None))"

definition revoke_all_removes_all_jti_keys_and_sessions_set ::
    "'r redis_api \<Rightarrow> uuid_lib \<Rightarrow> uuid \<Rightarrow> uuid \<Rightarrow> uuid \<Rightarrow> instant \<Rightarrow> ('r, panic, unit) io" where
  "revoke_all_removes_all_jti_keys_and_sessions_set R U user_id jti1 jti2 t =
     bindE (unwrapE (store_refresh_token R U jti1 user_id 60 t)) (\<lambda>_.
     bindE (unwrapE (store_refresh_token R U jti2 user_id 60 t)) (\<lambda>_.
     bindE (unwrapE (revoke_all_sessions R U user_id t)) (\<lambda>count.
     bindE (assertE (count = 2)) (\<lambda>_.
     bindE (unwrapE (rd_connect R)) (\<lambda>_.
     bindE (unwrapE (rd_query R (GET (refresh_key U jti1)) (to_opt_string R) t)) (\<lambda>k1.
     bindE (unwrapE (rd_query R (GET (refresh_key U jti2)) (to_opt_string R) t)) (\<lambda>k2.
     bindE (assertE (k1 = None)) (\<lambda>_.
     bindE (assertE (k2 = None)) (\<lambda>_.
     bindE (unwrapE (rd_query R (EXISTS (sessions_key U user_id)) (to_bool R) t)) (\<lambda>set_exists.
     assertE (\<not> set_exists)))))))))))"

definition revoke_all_with_no_sessions_returns_zero ::
    "'r redis_api \<Rightarrow> uuid_lib \<Rightarrow> uuid \<Rightarrow> instant \<Rightarrow> ('r, panic, unit) io" where
  "revoke_all_with_no_sessions_returns_zero R U user_id t =
     bindE (unwrapE (revoke_all_sessions R U user_id t)) (\<lambda>count.
     assertE (count = 0))"

section \<open>The tests of the lockout store\<close>

definition not_locked_with_no_failures :: "'r redis_api \<Rightarrow> string \<Rightarrow> instant \<Rightarrow> ('r, panic, unit) io" where
  "not_locked_with_no_failures R email t =
     bindE (unwrapE (is_locked R email t)) (\<lambda>locked.
     assertE (\<not> locked))"

text \<open>\<open>for _ in 0..n\<close> with the body \<open>record_failure\<close>.\<close>

fun fail_times :: "nat \<Rightarrow> 'r redis_api \<Rightarrow> string \<Rightarrow> instant \<Rightarrow> ('r, panic, unit) io" where
  "fail_times 0 R email t = okE ()"
| "fail_times (Suc n) R email t =
     bindE (unwrapE (record_failure R email t)) (\<lambda>_. fail_times n R email t)"

definition locked_after_max_failures :: "'r redis_api \<Rightarrow> string \<Rightarrow> instant \<Rightarrow> ('r, panic, unit) io" where
  "locked_after_max_failures R email t =
     bindE (fail_times (unat LOCKOUT_MAX) R email t) (\<lambda>_.
     bindE (unwrapE (is_locked R email t)) (\<lambda>locked.
     bindE (assertE locked) (\<lambda>_.
     bindE (unwrapE (rd_connect R)) (\<lambda>_.
     bindE (unwrapE (rd_exec R (DEL (lockout_key email)) t)) (\<lambda>_.
     okE ())))))"

definition clear_resets_lock :: "'r redis_api \<Rightarrow> string \<Rightarrow> instant \<Rightarrow> ('r, panic, unit) io" where
  "clear_resets_lock R email t =
     bindE (fail_times (unat LOCKOUT_MAX) R email t) (\<lambda>_.
     bindE (unwrapE (is_locked R email t)) (\<lambda>locked.
     bindE (assertE locked) (\<lambda>_.
     bindE (unwrapE (clear_failures R email t)) (\<lambda>_.
     bindE (unwrapE (is_locked R email t)) (\<lambda>still_locked.
     assertE (\<not> still_locked))))))"

definition record_failure_returns_incrementing_count ::
    "'r redis_api \<Rightarrow> string \<Rightarrow> instant \<Rightarrow> ('r, panic, unit) io" where
  "record_failure_returns_incrementing_count R email t =
     bindE (unwrapE (record_failure R email t)) (\<lambda>c1.
     bindE (assertE (c1 = 1)) (\<lambda>_.
     bindE (unwrapE (record_failure R email t)) (\<lambda>c2.
     bindE (assertE (c2 = 2)) (\<lambda>_.
     bindE (unwrapE (record_failure R email t)) (\<lambda>c3.
     bindE (assertE (c3 = 3)) (\<lambda>_.
     bindE (unwrapE (rd_connect R)) (\<lambda>_.
     bindE (unwrapE (rd_exec R (DEL (lockout_key email)) t)) (\<lambda>_.
     okE ()))))))))"

section \<open>They are sound\<close>

context session_cache begin

text \<open>An answered query of one key.\<close>

lemma get_reply:
  assumes "rd_query R (GET (refresh_key U j)) (to_opt_string R) t r = (Inr v, r')"
    and "lookup t (\<alpha> r) (refresh_key U j) = None \<or> (\<exists>s d. lookup t (\<alpha> r) (refresh_key U j) = Some (RStr s, d))"
  shows "\<alpha> r' = \<alpha> r"
    and "v = (case lookup t (\<alpha> r) (refresh_key U j) of Some (RStr s, _) \<Rightarrow> Some s | _ \<Rightarrow> None)"
  using assms by (auto elim!: query_InrE simp: opt_string_nil opt_string_bulk)

lemma ismember_reply:
  assumes "rd_query R (SISMEMBER k m) (to_bool R) t r = (Inr b, r')"
  shows "\<alpha> r' = \<alpha> r" and "b \<longleftrightarrow> (\<exists>ms d. lookup t (\<alpha> r) k = Some (RSet ms, d) \<and> m \<in> set ms)"
  using assms by (auto elim!: query_InrE simp: bool_num split: option.splits redis_value.splits prod.splits if_splits)

lemma exists_reply:
  assumes "rd_query R (EXISTS k) (to_bool R) t r = (Inr b, r')"
  shows "\<alpha> r' = \<alpha> r" and "b \<longleftrightarrow> lookup t (\<alpha> r) k \<noteq> None"
  using assms by (auto elim!: query_InrE simp: bool_num split: if_splits)

lemmas test_replies = get_reply ismember_reply exists_reply

text \<open>What an answered call of the tests leaves under the keys of a token and its user.\<close>

lemma stored_entries:
  assumes "store_refresh_token R U j u 60 t r = (Inr (), r')"
    and "lookup t (\<alpha> r) (sessions_key U u) = (if js = [] then None else Some (RSet js, Some (t + secs 60)))"
  shows "lookup t (\<alpha> r') (refresh_key U i)
      = (if i = j then Some (RStr (uuid_show U u), Some (t + secs 60)) else lookup t (\<alpha> r) (refresh_key U i))"
    and "lookup t (\<alpha> r') (sessions_key U u) = Some (RSet (List.insert (uuid_show U j) js), Some (t + secs 60))"
  using store_ok(2) [OF assms(1)] assms(2) by (auto simp: store_cmds_def split: if_splits)

lemma revoked_entries:
  assumes run: "revoke_refresh_token R U j t r = (Inr v, r')"
    and "lookup t (\<alpha> r) (refresh_key U j) = Some (RStr (uuid_show U u), d)"
    and "lookup t (\<alpha> r) (sessions_key U u) = Some (RSet ms, d')"
  shows "v = Some u" and "lookup t (\<alpha> r') (refresh_key U j) = None"
    and "lookup t (\<alpha> r') (sessions_key U u) = Some (RSet ms', d'') \<Longrightarrow> uuid_show U j \<notin> set ms'"
proof -
  obtain r1 val r2 where conn: "rd_connect R r = (Inr (), r1)"
    and get: "rd_query R (GETDEL (refresh_key U j)) (to_opt_string R) t r1 = (Inr val, r2)"
    and v: "v = Option.bind val (uuid_parse U)" and drop: "drop_from_index R U j val t r2 = (Inr (), r')"
    using run unfolding revoke_refresh_token_def by (auto elim!: bindE_InrE)
  have a: "\<alpha> r1 = \<alpha> r" using conn by (rule connect)
  with get assms(2) have val: "val = Some (uuid_show U u)" and r2: "\<alpha> r2 = (\<alpha> r)(refresh_key U j := None)"
    by (auto elim!: query_InrE simp: opt_string_bulk)
  from v val show "v = Some u" by simp
  from drop val obtain rep where "rd_exec R (SREM (sessions_key U u) (uuid_show U j)) t r2 = (Inr rep, r')"
    by (auto simp: drop_from_index_def elim!: bindE_InrE)
  from exec_ok [OF this] assms(3) r2
  have r': "\<alpha> r' = (\<alpha> r2)(sessions_key U u := (if removeAll (uuid_show U j) ms = [] then None
      else Some (RSet (removeAll (uuid_show U j) ms), d')))" by auto
  then show "lookup t (\<alpha> r') (refresh_key U j) = None" by (simp add: r2)
  show "uuid_show U j \<notin> set ms'" if "lookup t (\<alpha> r') (sessions_key U u) = Some (RSet ms', d'')"
    using that by (auto simp: r' split: if_splits)
qed

lemma revoked_unknown:
  assumes "revoke_refresh_token R U j t r = (Inr v, r')" and "lookup t (\<alpha> r) (refresh_key U j) = None"
  shows "v = None"
  using assms unfolding revoke_refresh_token_def
  by (auto elim!: bindE_InrE query_InrE dest!: connect simp: opt_string_nil)

lemma revoked_all_entries:
  assumes run: "revoke_all_sessions R U u t r = (Inr n, r')"
    and "lookup t (\<alpha> r) (sessions_key U u) = (if js = [] then None else Some (RSet js, d))" and "distinct js"
  shows "n = length js"
    and "js \<noteq> [] \<Longrightarrow> lookup t (\<alpha> r') (sessions_key U u) = None"
    and "uuid_show U j \<in> set js \<Longrightarrow> lookup t (\<alpha> r') (refresh_key U j) = None"
proof -
  obtain r1 ms r2 where conn: "rd_connect R r = (Inr (), r1)"
    and get: "rd_query R (SMEMBERS (sessions_key U u)) (to_strings R) t r1 = (Inr ms, r2)"
    and rest: "(if length ms = 0 then okE 0
      else bindE (mapErrE Cache (rd_pipe R (revoke_cmds U u ms) t)) (\<lambda>_. okE (length ms))) r2 = (Inr n, r')"
    using run unfolding revoke_all_sessions_def by (elim bindE_InrE) auto
  have a: "\<alpha> r1 = \<alpha> r" using conn by (rule connect)
  with get assms(2) have ms: "set ms = set js" "length ms = length js"
    by (auto elim!: query_InrE simp: same_reply_Arr strings_arr split: if_splits)
  with rest show "n = length js" by (auto split: if_splits elim!: bindE_InrE)
  have r': "\<alpha> r' = ks_run (revoke_cmds U u ms) t (\<alpha> r2)" if "js \<noteq> []"
    using that rest ms by (auto elim!: bindE_InrE dest!: pipe_ok)
  have dels: "lookup t (ks_run (map (\<lambda>s. DEL (refresh_str_key s)) xs @ [DEL (sessions_key U u)]) t ks) k = None"
    if "k = sessions_key U u \<or> k \<in> refresh_str_key ` set xs \<or> lookup t ks k = None" for xs ks k
    using that by (induction xs arbitrary: ks) auto
  show "lookup t (\<alpha> r') (sessions_key U u) = None" if "js \<noteq> []"
    using r' [OF that] dels by (simp add: revoke_cmds_def)
  show "lookup t (\<alpha> r') (refresh_key U j) = None" if "uuid_show U j \<in> set js"
  proof -
    have "js \<noteq> []" using that by auto
    with that show ?thesis using r' dels by (simp add: revoke_cmds_def refresh_key_def ms)
  qed
qed

text \<open>The tests. Every call is taken apart from the first on; the entries follow from the lemmas above.\<close>

lemma sound_store_creates:
  assumes "lookup t (\<alpha> r) (sessions_key U u) = None"
  shows "sound (store_creates_jti_key_and_sessions_set R U j u t) r"
  unfolding store_creates_jti_key_and_sessions_set_def
proof (intro sound_rules)
  fix x r1 y r2 v r3 b r4
  assume run: "store_refresh_token R U j u 60 t r = (Inr x, r1)" and conn: "rd_connect R r1 = (Inr y, r2)"
    and get: "rd_query R (GET (refresh_key U j)) (to_opt_string R) t r2 = (Inr v, r3)"
  have "store_refresh_token R U j u 60 t r = (Inr (), r1)" using run by simp
  note e = stored_entries [OF this, of "[]", simplified, OF assms] and c = connect [OF conn]
  show "v = Some (uuid_show U u)" using get_reply(2) [OF get] e(1) [of j] by (simp add: c)
  assume mem: "rd_query R (SISMEMBER (sessions_key U u) (uuid_show U j)) (to_bool R) t r3 = (Inr b, r4)"
  have "\<alpha> r3 = \<alpha> r1" using get_reply(1) [OF get] e(1) [of j] by (simp add: c)
  then show b using ismember_reply(2) [OF mem] e(2) by simp
qed

lemma sound_revoke_removes:
  assumes "lookup t (\<alpha> r) (sessions_key U u) = None"
  shows "sound (revoke_removes_jti_key_and_sessions_membership R U j u t) r"
  unfolding revoke_removes_jti_key_and_sessions_membership_def
proof (intro sound_rules)
  fix x r1 revoked r2 y r3 v r4 b r5
  assume run: "store_refresh_token R U j u 60 t r = (Inr x, r1)"
    and rev: "revoke_refresh_token R U j t r1 = (Inr revoked, r2)"
  have "store_refresh_token R U j u 60 t r = (Inr (), r1)" using run by simp
  note e = stored_entries [OF this, of "[]", simplified, OF assms]
  have "lookup t (\<alpha> r1) (refresh_key U j) = Some (RStr (uuid_show U u), Some (t + secs 60))"
    using e(1) [of j] by simp
  note gone = revoked_entries [OF rev this e(2)]
  show "revoked = Some u" by (fact gone(1))
  assume conn: "rd_connect R r2 = (Inr y, r3)"
    and get: "rd_query R (GET (refresh_key U j)) (to_opt_string R) t r3 = (Inr v, r4)"
  note c = connect [OF conn]
  show "v = None" using get_reply(2) [OF get] gone(2) by (simp add: c)
  assume mem: "rd_query R (SISMEMBER (sessions_key U u) (uuid_show U j)) (to_bool R) t r4 = (Inr b, r5)"
  have "\<alpha> r4 = \<alpha> r2" using get_reply(1) [OF get] gone(2) by (simp add: c)
  then show "\<not> b" using ismember_reply(2) [OF mem] gone(3) by auto
qed

lemma sound_revoke_unknown:
  assumes "lookup t (\<alpha> r) (refresh_key U j) = None"
  shows "sound (revoke_unknown_jti_returns_none R U j t) r"
  unfolding revoke_unknown_jti_returns_none_def by (intro sound_rules) (rule revoked_unknown [OF _ assms])

lemma sound_revoke_all_removes:
  assumes "lookup t (\<alpha> r) (sessions_key U u) = None" and "j1 \<noteq> j2"
  shows "sound (revoke_all_removes_all_jti_keys_and_sessions_set R U u j1 j2 t) r"
  unfolding revoke_all_removes_all_jti_keys_and_sessions_set_def
proof (intro sound_rules)
  fix x r1 y r2 n r3 z r4 k1 r5 k2 r6 b r7
  assume run: "store_refresh_token R U j1 u 60 t r = (Inr x, r1)" "store_refresh_token R U j2 u 60 t r1 = (Inr y, r2)"
    and all: "revoke_all_sessions R U u t r2 = (Inr n, r3)"
  have run': "store_refresh_token R U j1 u 60 t r = (Inr (), r1)" "store_refresh_token R U j2 u 60 t r1 = (Inr (), r2)"
    using run by simp_all
  note e1 = stored_entries [OF run'(1), of "[]", simplified, OF assms(1)]
  note e2 = stored_entries(2) [OF run'(2), of "[uuid_show U j1]", simplified, OF e1(2)]
  note gone = revoked_all_entries [OF all, of "[uuid_show U j2, uuid_show U j1]" "Some (t + secs 60)"]
  have e3: "lookup t (\<alpha> r2) (sessions_key U u) = Some (RSet [uuid_show U j2, uuid_show U j1], Some (t + secs 60))"
    using e2 assms(2) by simp
  show "n = 2" using gone(1) e3 assms(2) by simp
  assume conn: "rd_connect R r3 = (Inr z, r4)"
    and get: "rd_query R (GET (refresh_key U j1)) (to_opt_string R) t r4 = (Inr k1, r5)"
      "rd_query R (GET (refresh_key U j2)) (to_opt_string R) t r5 = (Inr k2, r6)"
  have none: "lookup t (\<alpha> r3) (refresh_key U j1) = None" "lookup t (\<alpha> r3) (refresh_key U j2) = None"
    using gone(3) e3 assms(2) by simp_all
  note c = connect [OF conn] and g1 = get_reply [OF get(1)]
  have r5: "k1 = None" "\<alpha> r5 = \<alpha> r3" using g1 none(1) by (simp_all add: c)
  show "k1 = None" by (fact r5(1))
  have r6: "k2 = None" "\<alpha> r6 = \<alpha> r3" using get_reply [OF get(2)] none(2) by (simp_all add: r5(2))
  show "k2 = None" by (fact r6(1))
  assume ex: "rd_query R (EXISTS (sessions_key U u)) (to_bool R) t r6 = (Inr b, r7)"
  show "\<not> b" using exists_reply(2) [OF ex] gone(2) e3 assms(2) by (simp add: r6(2))
qed

lemma sound_revoke_all_none:
  assumes "lookup t (\<alpha> r) (sessions_key U u) = None"
  shows "sound (revoke_all_with_no_sessions_returns_zero R U u t) r"
  unfolding revoke_all_with_no_sessions_returns_zero_def
  by (intro sound_rules) (use revoked_all_entries(1) [of u t r _ _ "[]"] assms in simp)

end

context redis_service begin

text \<open>Where the address is not counted yet, \<open>n\<close> failures are counted by \<open>n\<close>, up to the limit.\<close>

lemma record_one:
  assumes "record_failure R e t r = (Inr c, r')" and "counters_ok (\<alpha> r)"
    and "lockout_failures t (\<alpha> r) e = int n" and "n < 10"
  shows "c = of_nat (Suc n)" and "counters_ok (\<alpha> r')" and "lockout_failures t (\<alpha> r') e = int (Suc n)"
  using lockout.record_ok [OF assms(2) _ assms(1), of t] assms(3,4) by (auto simp: LOCKOUT_WINDOW_SECS_def)

lemma sound_fail_times:
  assumes "counters_ok (\<alpha> r)" and "lockout_failures t (\<alpha> r) e = int k" and "k + n \<le> 10"
    and "\<And>r'. counters_ok (\<alpha> r') \<Longrightarrow> lockout_failures t (\<alpha> r') e = int (k + n) \<Longrightarrow> sound (f ()) r'"
  shows "sound (bindE (fail_times n R e t) f) r"
  using assms
proof (induction n arbitrary: r k)
  case 0
  then show ?case by (simp del: okE_eq add: bindE_okE)
next
  case (Suc n)
  show ?case unfolding fail_times.simps bindE_assoc
  proof (rule sound_unwrapE)
    fix c r' assume "record_failure R e t r = (Inr c, r')"
    note one = record_one [OF this Suc.prems(1,2)]
    show "sound (bindE (fail_times n R e t) f) r'"
      by (rule Suc.IH [where k = "Suc k"]) (use one Suc.prems(3,4) in auto)
  qed
qed

lemma unat_LOCKOUT_MAX: "unat LOCKOUT_MAX = 10"
  by (simp add: LOCKOUT_MAX_def)

lemma sound_lockout_tests:
  assumes "counters_ok (\<alpha> r)" and "lockout_failures t (\<alpha> r) e = 0"
  shows "sound (not_locked_with_no_failures R e t) r"
    and "sound (locked_after_max_failures R e t) r"
    and "sound (clear_resets_lock R e t) r"
    and "sound (record_failure_returns_incrementing_count R e t) r"
proof -
  show "sound (not_locked_with_no_failures R e t) r"
    unfolding not_locked_with_no_failures_def
    by (intro sound_rules) (auto dest: is_locked_ok(1) [OF assms(1)] simp: assms(2))
  show "sound (locked_after_max_failures R e t) r"
    unfolding locked_after_max_failures_def unat_LOCKOUT_MAX
    by (rule sound_fail_times [where k = 0], use assms in simp_all, intro sound_rules)
      (auto dest: is_locked_ok(1))
  show "sound (clear_resets_lock R e t) r"
    unfolding clear_resets_lock_def unat_LOCKOUT_MAX
  proof (rule sound_fail_times [where k = 0], use assms in simp_all, intro sound_rules)
    fix r' b r1 x r2 b' r3
    assume c: "counters_ok (\<alpha> r')" "lockout_failures t (\<alpha> r') e = 10" and l: "is_locked R e t r' = (Inr b, r1)"
    show b using is_locked_ok(1) [OF c(1) l] c(2) by simp
    assume clear: "clear_failures R e t r1 = (Inr x, r2)" and l2: "is_locked R e t r2 = (Inr b', r3)"
    have "clear_failures R e t r1 = (Inr (), r2)" using clear by simp
    from clear_failures_ok [OF this] is_locked_ok(2) [OF c(1) l]
    have r2: "\<alpha> r2 = (\<alpha> r')(lockout_key e := None)" by simp
    show "\<not> b'" using is_locked_ok(1) [OF _ l2] c(1) by (simp add: r2 counters_ok_remove lockout_failures_remove)
  qed
  show "sound (record_failure_returns_incrementing_count R e t) r"
    unfolding record_failure_returns_incrementing_count_def
  proof (intro sound_rules)
    fix c1 r1 c2 r2 c3 r3
    assume "record_failure R e t r = (Inr c1, r1)"
    note one = record_one [OF this assms(1), of 0, unfolded assms(2), simplified]
    show "c1 = 1" using one(1) by simp
    assume "record_failure R e t r1 = (Inr c2, r2)"
    note two = record_one [OF this one(2), of 1, unfolded one(3), simplified]
    show "c2 = 2" using two(1) by simp
    assume "record_failure R e t r2 = (Inr c3, r3)"
    note three = record_one [OF this two(2), of 2, unfolded two(3), simplified]
    show "c3 = 3" using three(1) by simp
  qed
qed

end

end
