(* ===== verification/Repository_Tests.thy ===== *)
theory Repository_Tests
  imports Reset_Token_Repository Test_Harness
begin

text \<open>
  The unit tests of \<open>src/data/user_repository.rs\<close> and \<open>src/data/reset_token_repository.rs\<close>, each with
  the name of its function. \<open>sqlx::test\<close> runs a test on a new database with the migrations applied, which
  is \<open>empty_db\<close>. A test takes the id that it draws and the instant at which it runs. While the server
  runs every statement, every test passes, whatever ids are generated.
\<close>

section \<open>The tests of the user repository\<close>

definition create_and_find_by_email ::
    "('g, 'z) pg_lib_scheme \<Rightarrow> instant \<Rightarrow> (database \<times> 'g, panic, unit) io" where
  "create_and_find_by_email L t =
     bindE (unwrapE (create_user L ''alice@example.com'' ''hashed_password'' t)) (\<lambda>user.
     bindE (assertE (user_email user = ''alice@example.com'')) (\<lambda>_.
     bindE (unwrapE (find_by_email L ''alice@example.com'')) (\<lambda>x.
     bindE (expectE x) (\<lambda>found.
     bindE (assertE (user_id found = user_id user)) (\<lambda>_.
     assertE (password_hash found = ''hashed_password''))))))"

definition find_by_email_returns_none_for_unknown ::
    "('g, 'z) pg_lib_scheme \<Rightarrow> (database \<times> 'g, panic, unit) io" where
  "find_by_email_returns_none_for_unknown L =
     bindE (unwrapE (find_by_email L ''ghost@example.com'')) (\<lambda>result.
     assertE (result = None))"

definition duplicate_email_returns_email_conflict ::
    "('g, 'z) pg_lib_scheme \<Rightarrow> instant \<Rightarrow> (database \<times> 'g, panic, unit) io" where
  "duplicate_email_returns_email_conflict L t =
     bindE (unwrapE (create_user L ''bob@example.com'' ''hash1'' t)) (\<lambda>_.
     bindE (unwrap_errE (create_user L ''bob@example.com'' ''hash2'' t)) (\<lambda>err.
     assertE (err = EmailConflict)))"

definition find_by_id_returns_user ::
    "('g, 'z) pg_lib_scheme \<Rightarrow> instant \<Rightarrow> (database \<times> 'g, panic, unit) io" where
  "find_by_id_returns_user L t =
     bindE (unwrapE (create_user L ''alice@example.com'' ''hash'' t)) (\<lambda>created.
     bindE (unwrapE (find_by_id L (user_id created))) (\<lambda>x.
     bindE (expectE x) (\<lambda>found.
     bindE (assertE (user_id found = user_id created)) (\<lambda>_.
     assertE (user_email found = ''alice@example.com'')))))"

definition find_by_id_returns_none_for_unknown ::
    "('g, 'z) pg_lib_scheme \<Rightarrow> uuid \<Rightarrow> (database \<times> 'g, panic, unit) io" where
  "find_by_id_returns_none_for_unknown L new_id =
     bindE (unwrapE (find_by_id L new_id)) (\<lambda>result.
     assertE (result = None))"

definition update_password_changes_hash ::
    "('g, 'z) pg_lib_scheme \<Rightarrow> instant \<Rightarrow> instant \<Rightarrow> (database \<times> 'g, panic, unit) io" where
  "update_password_changes_hash L t t' =
     bindE (unwrapE (create_user L ''alice@example.com'' ''old_hash'' t)) (\<lambda>user.
     bindE (unwrapE (update_password L (user_id user) ''new_hash'' t')) (\<lambda>_.
     bindE (unwrapE (find_by_id L (user_id user))) (\<lambda>x.
     bindE (expectE x) (\<lambda>updated.
     bindE (assertE (password_hash updated = ''new_hash'')) (\<lambda>_.
     assertE (created_at updated < updated_at updated \<or> created_at updated \<le> updated_at updated))))))"

definition update_password_on_nonexistent_returns_not_found ::
    "('g, 'z) pg_lib_scheme \<Rightarrow> uuid \<Rightarrow> instant \<Rightarrow> (database \<times> 'g, panic, unit) io" where
  "update_password_on_nonexistent_returns_not_found L new_id t =
     bindE (unwrap_errE (update_password L new_id ''hash'' t)) (\<lambda>err.
     assertE (err = NotFound))"

definition delete_removes_user ::
    "('g, 'z) pg_lib_scheme \<Rightarrow> instant \<Rightarrow> (database \<times> 'g, panic, unit) io" where
  "delete_removes_user L t =
     bindE (unwrapE (create_user L ''alice@example.com'' ''hash'' t)) (\<lambda>user.
     bindE (unwrapE (delete_by_id L (user_id user))) (\<lambda>_.
     bindE (unwrapE (find_by_id L (user_id user))) (\<lambda>result.
     assertE (result = None))))"

section \<open>The tests of the reset token repository\<close>

definition create_and_consume_returns_user_id ::
    "('g, 'z) pg_lib_scheme \<Rightarrow> instant \<Rightarrow> (database \<times> 'g, panic, unit) io" where
  "create_and_consume_returns_user_id L t =
     bindE (unwrapE (create_user L ''alice@example.com'' ''hash'' t)) (\<lambda>user.
     let expires = t + secs 900 in
     bindE (unwrapE (create_reset_token L (user_id user) ''testhash'' expires)) (\<lambda>_.
     bindE (unwrapE (consume_reset_token L ''testhash'' t)) (\<lambda>x.
     bindE (expectE x) (\<lambda>uid.
     assertE (uid = user_id user)))))"

definition consume_returns_none_on_second_use ::
    "('g, 'z) pg_lib_scheme \<Rightarrow> instant \<Rightarrow> (database \<times> 'g, panic, unit) io" where
  "consume_returns_none_on_second_use L t =
     bindE (unwrapE (create_user L ''alice@example.com'' ''hash'' t)) (\<lambda>user.
     let expires = t + secs 900 in
     bindE (unwrapE (create_reset_token L (user_id user) ''testhash'' expires)) (\<lambda>_.
     bindE (unwrapE (consume_reset_token L ''testhash'' t)) (\<lambda>_.
     bindE (unwrapE (consume_reset_token L ''testhash'' t)) (\<lambda>second.
     assertE (second = None)))))"

definition consume_returns_none_for_expired_token ::
    "('g, 'z) pg_lib_scheme \<Rightarrow> instant \<Rightarrow> (database \<times> 'g, panic, unit) io" where
  "consume_returns_none_for_expired_token L t =
     bindE (unwrapE (create_user L ''alice@example.com'' ''hash'' t)) (\<lambda>user.
     let expires = t - secs 1 in
     bindE (unwrapE (create_reset_token L (user_id user) ''expiredhash'' expires)) (\<lambda>_.
     bindE (unwrapE (consume_reset_token L ''expiredhash'' t)) (\<lambda>result.
     assertE (result = None))))"

definition consume_returns_none_for_unknown_token ::
    "('g, 'z) pg_lib_scheme \<Rightarrow> instant \<Rightarrow> (database \<times> 'g, panic, unit) io" where
  "consume_returns_none_for_unknown_token L t =
     bindE (unwrapE (consume_reset_token L ''nonexistent'' t)) (\<lambda>result.
     assertE (result = None))"

section \<open>They pass\<close>

text \<open>A server that runs every statement.\<close>

definition serves :: "('g, 'z) pg_lib_scheme \<Rightarrow> bool" where
  "serves L \<longleftrightarrow> (\<forall>g. fst (pg_next L g) = Pg_Served)"

lemma pg_run_serves: "serves L \<Longrightarrow> pg_run L stmt s = (fst (stmt (fst s)), (snd (stmt (fst s)), snd (pg_next L (snd s))))"
  by (cases s) (auto simp: pg_run_def serves_def split: prod.split pg_outcome.split dest: spec [of _ "snd s"] fst_eqD)

lemma pg_run_with_id_serves:
  "serves L \<Longrightarrow> pg_run_with_id L stmt s
    = (let (u, g) = pg_uuid L (snd s) in (fst (stmt u (fst s)), (snd (stmt u (fst s)), snd (pg_next L g))))"
  by (cases s) (simp add: pg_run_with_id_def pg_run_serves Let_def split: prod.split)

lemmas test_run = passes_def bindE_eval unwrapE_def unwrap_errE_def expectE_def assertE_def mapErrE_def Let_def
  pg_run_serves pg_run_with_id_serves empty_db_def create_user_def find_by_email_def find_by_id_def
  update_password_def delete_by_id_def create_reset_token_def consume_reset_token_def insert_user_def
  select_user_def update_user_password_def delete_user_def insert_reset_row_def consume_reset_row_def
  consumable_def sql_update_def sql_delete_def secs_def unique_violation_def

lemma user_repository_tests_pass:
  assumes "serves L"
  shows "passes (create_and_find_by_email L t) (empty_db, g)"
    and "passes (find_by_email_returns_none_for_unknown L) (empty_db, g)"
    and "passes (duplicate_email_returns_email_conflict L t) (empty_db, g)"
    and "passes (find_by_id_returns_user L t) (empty_db, g)"
    and "passes (find_by_id_returns_none_for_unknown L i) (empty_db, g)"
    and "t \<le> t' \<Longrightarrow> passes (update_password_changes_hash L t t') (empty_db, g)"
    and "passes (update_password_on_nonexistent_returns_not_found L i t) (empty_db, g)"
    and "passes (delete_removes_user L t) (empty_db, g)"
  unfolding create_and_find_by_email_def find_by_email_returns_none_for_unknown_def
    duplicate_email_returns_email_conflict_def find_by_id_returns_user_def
    find_by_id_returns_none_for_unknown_def update_password_changes_hash_def
    update_password_on_nonexistent_returns_not_found_def delete_removes_user_def
  by (cases "pg_uuid L g"; simp add: assms test_run split: prod.split cong: eval_cong)+

lemma reset_token_repository_tests_pass:
  assumes "serves L"
  shows "passes (create_and_consume_returns_user_id L t) (empty_db, g)"
    and "passes (consume_returns_none_on_second_use L t) (empty_db, g)"
    and "passes (consume_returns_none_for_expired_token L t) (empty_db, g)"
    and "passes (consume_returns_none_for_unknown_token L t) (empty_db, g)"
  unfolding create_and_consume_returns_user_id_def consume_returns_none_on_second_use_def
    consume_returns_none_for_expired_token_def consume_returns_none_for_unknown_token_def
  by (cases "pg_uuid L g"; cases "pg_uuid L (snd (pg_next L (snd (pg_uuid L g))))";
      simp add: assms test_run cong: eval_cong)+

end
