(* ===== verification/Domain_Tests.thy ===== *)
theory Domain_Tests
  imports Jwt Password Test_Harness
begin

text \<open>
  The unit tests of \<open>src/domain/jwt.rs\<close> and \<open>src/domain/password.rs\<close>, each with the name of its
  function. The two keys of the tests are arguments, as are the user id that a test draws and the instant
  at which it runs. The tests are sound on every library that satisfies the contract; that of a tampered
  token needs what \<open>strict_jwt_library\<close> adds.
\<close>

section \<open>The tests of the tokens\<close>

text \<open>\<open>manager()\<close>, from the two texts of the test keys.\<close>

definition manager :: "jwt_lib \<Rightarrow> string \<Rightarrow> string \<Rightarrow> ('g, panic, jwt_manager) io" where
  "manager J private_pem public_pem = unwrapE (liftE (from_ed25519_pem J private_pem public_pem))"

definition access_token_roundtrip ::
    "jwt_lib \<Rightarrow> ('g, 'z) env_lib_scheme \<Rightarrow> string \<Rightarrow> string \<Rightarrow> uuid \<Rightarrow> instant \<Rightarrow> ('g, panic, unit) io" where
  "access_token_roundtrip J E private_pem public_pem uid t =
     bindE (manager J private_pem public_pem) (\<lambda>mgr.
     bindE (unwrapE (sign_access_token J E mgr uid ''alice@example.com'' t)) (\<lambda>token.
     bindE (unwrapE (liftE (verify_access J mgr token t))) (\<lambda>claims.
     bindE (assertE (c_sub claims = uid)) (\<lambda>_.
     bindE (assertE (c_email claims = ''alice@example.com'')) (\<lambda>_.
     assertE (c_kind claims = Access))))))"

definition refresh_token_roundtrip ::
    "jwt_lib \<Rightarrow> ('g, 'z) env_lib_scheme \<Rightarrow> string \<Rightarrow> string \<Rightarrow> uuid \<Rightarrow> instant \<Rightarrow> ('g, panic, unit) io" where
  "refresh_token_roundtrip J E private_pem public_pem uid t =
     bindE (manager J private_pem public_pem) (\<lambda>mgr.
     bindE (unwrapE (sign_refresh_token J E mgr uid ''bob@example.com'' t)) (\<lambda>(token, jti).
     bindE (unwrapE (liftE (verify_refresh J mgr token t))) (\<lambda>claims.
     bindE (assertE (c_sub claims = uid)) (\<lambda>_.
     bindE (assertE (c_jti claims = jti)) (\<lambda>_.
     assertE (c_kind claims = Refresh))))))"

definition access_token_rejected_as_refresh ::
    "jwt_lib \<Rightarrow> ('g, 'z) env_lib_scheme \<Rightarrow> string \<Rightarrow> string \<Rightarrow> uuid \<Rightarrow> instant \<Rightarrow> ('g, panic, unit) io" where
  "access_token_rejected_as_refresh J E private_pem public_pem uid t =
     bindE (manager J private_pem public_pem) (\<lambda>mgr.
     bindE (unwrapE (sign_access_token J E mgr uid ''alice@example.com'' t)) (\<lambda>token.
     assertE (verify_refresh J mgr token t = Inl WrongTokenKind)))"

definition refresh_token_rejected_as_access ::
    "jwt_lib \<Rightarrow> ('g, 'z) env_lib_scheme \<Rightarrow> string \<Rightarrow> string \<Rightarrow> uuid \<Rightarrow> instant \<Rightarrow> ('g, panic, unit) io" where
  "refresh_token_rejected_as_access J E private_pem public_pem uid t =
     bindE (manager J private_pem public_pem) (\<lambda>mgr.
     bindE (unwrapE (sign_refresh_token J E mgr uid ''bob@example.com'' t)) (\<lambda>(token, _).
     assertE (verify_access J mgr token t = Inl WrongTokenKind)))"

text \<open>The last character of a token exchanged for another: \<open>pop\<close>, \<open>unwrap\<close> and \<open>push\<close>.\<close>

definition tampered :: "string \<Rightarrow> ('g, panic, string) io" where
  "tampered token =
     bindE (expectE (if token = [] then None else Some (last token))) (\<lambda>l.
     okE (butlast token @ [if l = CHR ''A'' then CHR ''B'' else CHR ''A'']))"

definition tampered_token_is_rejected ::
    "jwt_lib \<Rightarrow> ('g, 'z) env_lib_scheme \<Rightarrow> string \<Rightarrow> string \<Rightarrow> uuid \<Rightarrow> instant \<Rightarrow> ('g, panic, unit) io" where
  "tampered_token_is_rejected J E private_pem public_pem uid t =
     bindE (manager J private_pem public_pem) (\<lambda>mgr.
     bindE (unwrapE (sign_access_token J E mgr uid ''eve@example.com'' t)) (\<lambda>token.
     bindE (tampered token) (\<lambda>token.
     assertE (case verify_access J mgr token t of Inl _ \<Rightarrow> True | Inr _ \<Rightarrow> False))))"

definition each_token_has_unique_jti ::
    "jwt_lib \<Rightarrow> ('g, 'z) env_lib_scheme \<Rightarrow> string \<Rightarrow> string \<Rightarrow> uuid \<Rightarrow> instant \<Rightarrow> ('g, panic, unit) io" where
  "each_token_has_unique_jti J E private_pem public_pem uid t =
     bindE (manager J private_pem public_pem) (\<lambda>mgr.
     bindE (unwrapE (sign_access_token J E mgr uid ''x@example.com'' t)) (\<lambda>t1.
     bindE (unwrapE (sign_access_token J E mgr uid ''x@example.com'' t)) (\<lambda>t2.
     bindE (unwrapE (liftE (verify_access J mgr t1 t))) (\<lambda>c1.
     bindE (unwrapE (liftE (verify_access J mgr t2 t))) (\<lambda>c2.
     assertE (c_jti c1 \<noteq> c_jti c2))))))"

section \<open>The tests of the password service\<close>

definition hash_and_verify_roundtrip ::
    "argon2_lib \<Rightarrow> ('g, 'z) env_lib_scheme \<Rightarrow> ('g, panic, unit) io" where
  "hash_and_verify_roundtrip A E =
     bindE (unwrapE (ok_orE () (password_service_new A))) (\<lambda>svc.
     bindE (unwrapE (hash_of A E svc ''hunter2'')) (\<lambda>hash.
     bindE (unwrapE (liftE (verify_hash A svc ''hunter2'' hash))) (\<lambda>right.
     bindE (assertE right) (\<lambda>_.
     bindE (unwrapE (liftE (verify_hash A svc ''wrong_password'' hash))) (\<lambda>wrong.
     assertE (\<not> wrong))))))"

definition different_passwords_produce_different_hashes ::
    "argon2_lib \<Rightarrow> ('g, 'z) env_lib_scheme \<Rightarrow> ('g, panic, unit) io" where
  "different_passwords_produce_different_hashes A E =
     bindE (unwrapE (ok_orE () (password_service_new A))) (\<lambda>svc.
     bindE (unwrapE (hash_of A E svc ''password'')) (\<lambda>h1.
     bindE (unwrapE (hash_of A E svc ''password'')) (\<lambda>h2.
     assertE (h1 \<noteq> h2))))"

section \<open>They are sound\<close>

lemma sound_manager:
  assumes "\<And>M. from_ed25519_pem J private_pem public_pem = Inr M \<Longrightarrow> sound (f M) g"
  shows "sound (bindE (manager J private_pem public_pem) f) g"
  unfolding manager_def by (rule sound_unwrapE) (use assms in auto)

context jwt_library begin

lemma manager_keys:
  assumes "from_ed25519_pem J private_pem public_pem = Inr M"
    and "\<And>ek dk. encoding_key_from_ed_pem J private_pem = Inr ek \<Longrightarrow>
      decoding_key_from_ed_pem J public_pem = Inr dk \<Longrightarrow> keypair ek dk"
  shows "keypair (encoding_key M) (decoding_key M)"
    and "access_ttl M = secs (15 * 60)" and "refresh_ttl M = secs (7 * 24 * 3600)"
  using assms by (auto simp: from_ed25519_pem_def split: sum.splits)

lemma signed_access:
  assumes "from_ed25519_pem J private_pem public_pem = Inr M" and "keypair (encoding_key M) (decoding_key M)"
    and "sign_access_token J E M uid email t g = (Inr token, g')"
  shows "decode_and_check J M token k t = (if k = Access then Inr \<lparr>c_sub = uid, c_email = email, c_iat = timestamp t,
      c_exp = timestamp t + 900, c_jti = fst (new_v4 E g), c_kind = Access\<rparr> else Inl WrongTokenKind)"
    and "g' = snd (new_v4 E g)"
proof -
  have "access_ttl M = secs 900" using assms(1) by (auto simp: from_ed25519_pem_def split: sum.splits)
  with assms(3) obtain c where "sign_with_claims J E M uid email (secs 900) Access t g = (Inr (token, c), g')"
    by (auto simp: sign_access_token_def elim!: bindE_InrE)
  note d = decode_signed [OF assms(2) this]
  show "decode_and_check J M token k t = (if k = Access then Inr \<lparr>c_sub = uid, c_email = email, c_iat = timestamp t,
      c_exp = timestamp t + 900, c_jti = fst (new_v4 E g), c_kind = Access\<rparr> else Inl WrongTokenKind)"
    using d(3) [of k t] new_leeway [of EdDSA] by (auto simp: d(1) jwt_leeway_def)
  show "g' = snd (new_v4 E g)" by (fact d(2))
qed

lemma signed_refresh:
  assumes "from_ed25519_pem J private_pem public_pem = Inr M" and "keypair (encoding_key M) (decoding_key M)"
    and "sign_refresh_token J E M uid email t g = (Inr (token, j), g')"
  shows "decode_and_check J M token k t = (if k = Refresh then Inr \<lparr>c_sub = uid, c_email = email, c_iat = timestamp t,
      c_exp = timestamp t + 604800, c_jti = j, c_kind = Refresh\<rparr> else Inl WrongTokenKind)"
proof -
  have "refresh_ttl M = secs 604800" using assms(1) by (auto simp: from_ed25519_pem_def split: sum.splits)
  with assms(3) obtain c where sign: "sign_with_claims J E M uid email (secs 604800) Refresh t g = (Inr (token, c), g')"
    and j: "j = c_jti c" by (auto simp: sign_refresh_token_def elim!: bindE_InrE)
  note d = decode_signed [OF assms(2) sign]
  show ?thesis using d(3) [of k t] new_leeway [of EdDSA] by (auto simp: d(1) j jwt_leeway_def)
qed

lemma sound_jwt_tests:
  assumes keys: "\<And>ek dk. encoding_key_from_ed_pem J private_pem = Inr ek \<Longrightarrow>
      decoding_key_from_ed_pem J public_pem = Inr dk \<Longrightarrow> keypair ek dk"
  shows "sound (access_token_roundtrip J E private_pem public_pem uid t) g"
    and "sound (refresh_token_roundtrip J E private_pem public_pem uid t) g"
    and "sound (access_token_rejected_as_refresh J E private_pem public_pem uid t) g"
    and "sound (refresh_token_rejected_as_access J E private_pem public_pem uid t) g"
    and "fst (new_v4 E g) \<noteq> fst (new_v4 E (snd (new_v4 E g))) \<Longrightarrow>
      sound (each_token_has_unique_jti J E private_pem public_pem uid t) g"
proof -
  note key = manager_keys(1) [OF _ keys]
  show "sound (access_token_roundtrip J E private_pem public_pem uid t) g"
    unfolding access_token_roundtrip_def
    by (intro sound_manager sound_rules) (auto simp: verify_access_def signed_access(1) [OF _ key])
  show "sound (refresh_token_roundtrip J E private_pem public_pem uid t) g"
    unfolding refresh_token_roundtrip_def case_prod_beta'
    by (intro sound_manager sound_rules) (auto simp: verify_refresh_def signed_refresh [OF _ key])
  show "sound (access_token_rejected_as_refresh J E private_pem public_pem uid t) g"
    unfolding access_token_rejected_as_refresh_def
    by (intro sound_manager sound_rules) (auto simp: verify_refresh_def signed_access(1) [OF _ key])
  show "sound (refresh_token_rejected_as_access J E private_pem public_pem uid t) g"
    unfolding refresh_token_rejected_as_access_def case_prod_beta'
    by (intro sound_manager sound_rules) (auto simp: verify_access_def signed_refresh [OF _ key])
  show "sound (each_token_has_unique_jti J E private_pem public_pem uid t) g"
    if "fst (new_v4 E g) \<noteq> fst (new_v4 E (snd (new_v4 E g)))"
    unfolding each_token_has_unique_jti_def
  proof (intro sound_manager sound_rules)
    fix M t1 g1 t2 g2 c1 g3 c2 g4
    assume M: "from_ed25519_pem J private_pem public_pem = Inr M"
      and t1: "sign_access_token J E M uid ''x@example.com'' t g = (Inr t1, g1)"
      and t2: "sign_access_token J E M uid ''x@example.com'' t g1 = (Inr t2, g2)"
      and c: "liftE (verify_access J M t1 t) g2 = (Inr c1, g3)" "liftE (verify_access J M t2 t) g3 = (Inr c2, g4)"
    then have "c_jti c1 = fst (new_v4 E g)" "c_jti c2 = fst (new_v4 E g1)"
      by (auto simp: verify_access_def signed_access(1) [OF M key [OF M] t1] signed_access(1) [OF M key [OF M] t2])
    then show "c_jti c1 \<noteq> c_jti c2" using that signed_access(2) [OF M key [OF M] t1] by simp
  qed
qed

end

lemma tampered_ok:
  assumes "token \<noteq> []"
  shows "tampered token = okE (butlast token @ [if last token = CHR ''A'' then CHR ''B'' else CHR ''A''])"
  unfolding tampered_def expectE_def using assms by (simp only: if_False ok_orE_simps bindE_okE)

context strict_jwt_library begin

text \<open>The manager refuses what becomes of a token that it signed.\<close>

lemma tampered_signed:
  assumes "keypair (encoding_key M) (decoding_key M)"
    and "sign_access_token J E M uid email now g = (Inr token, g')"
  shows "token \<noteq> []"
    and "\<exists>e. verify_access J M (butlast token @ [if last token = CHR ''A'' then CHR ''B'' else CHR ''A'']) t = Inl e"
proof -
  from assms(2) obtain c where sign: "sign_with_claims J E M uid email (access_ttl M) Access now g
      = (Inr (token, c), g')"
    by (auto simp: sign_access_token_def elim!: bindE_InrE)
  then have "jwt_encode J EdDSA c (encoding_key M) = Inr token"
    by (auto simp: sign_with_claims_def Let_def elim!: bindE_InrE)
  then show "token \<noteq> []" using encoded_length by fastforce
  let ?x = "if last token = CHR ''A'' then CHR ''B'' else CHR ''A''"
  have "?x \<noteq> last token" by simp
  from tampered_refused [OF assms(1) sign this, of Access t]
  show "\<exists>e. verify_access J M (butlast token @ [?x]) t = Inl e" unfolding verify_access_def .
qed

lemma sound_tampered:
  assumes keys: "\<And>ek dk. encoding_key_from_ed_pem J private_pem = Inr ek \<Longrightarrow>
      decoding_key_from_ed_pem J public_pem = Inr dk \<Longrightarrow> keypair ek dk"
  shows "sound (tampered_token_is_rejected J E private_pem public_pem uid t) g"
  unfolding tampered_token_is_rejected_def
proof (intro sound_manager sound_unwrapE)
  fix M token g1
  assume M: "from_ed25519_pem J private_pem public_pem = Inr M"
    and signed: "sign_access_token J E M uid ''eve@example.com'' t g = (Inr token, g1)"
  have "keypair (encoding_key M) (decoding_key M)" by (rule manager_keys(1) [OF M keys])
  note tamp = tampered_signed [OF this signed]
  from tamp(2) [of t] show "sound (bindE (tampered token)
      (\<lambda>token. assertE (case verify_access J M token t of Inl _ \<Rightarrow> True | Inr _ \<Rightarrow> False))) g1"
    unfolding tampered_ok [OF tamp(1)] bindE_okE by (auto intro: sound_rules)
qed

end

context password_binding begin

lemma sound_hash_and_verify: "sound (hash_and_verify_roundtrip A E) g"
  unfolding hash_and_verify_roundtrip_def by (intro sound_rules) (auto simp: verify_hash_iff)

end

text \<open>The salt is part of the text of a hash, so hashes with different salts are different.\<close>

lemma sound_different_hashes:
  assumes "\<And>x pw salt salt' h. hash_password A x pw salt = Inr h \<Longrightarrow> hash_password A x pw salt' = Inr h \<Longrightarrow> salt = salt'"
    and "fst (new_salt E g) \<noteq> fst (new_salt E (snd (new_salt E g)))"
  shows "sound (different_passwords_produce_different_hashes A E) g"
  unfolding different_passwords_produce_different_hashes_def
  by (intro sound_rules) (use assms in \<open>auto simp: hash_of_def elim!: bindE_InrE\<close>)

end
