(* ===== verification/Test_Properties.thy ===== *)
theory Test_Properties
  imports Validation_Tests Store_Tests Repository_Tests Domain_Tests Reference_Service
begin

text \<open>
  The unit tests of the program, carried out on the model: those of the pure functions hold, those of
  the stores fail no assertion on any service that satisfies its contract, and those of the repositories
  pass on every server that runs its statements.
\<close>

section \<open>Request validation\<close>

text \<open>
  All unit tests of the request validation pass: the 26 tests of the module hold of the model.
\<close>

theorem validation_tests_pass:
  "valid_inputs_pass \<and> email_missing_at_fails \<and> email_empty_local_part_fails \<and> email_no_dot_in_domain_fails
    \<and> email_domain_starts_with_dot_fails \<and> email_domain_ends_with_dot_fails \<and> email_multiple_at_signs_fails
    \<and> email_too_long_fails \<and> password_empty_fails \<and> password_too_short_fails \<and> password_exactly_8_chars_passes
    \<and> password_too_long_fails \<and> password_exactly_128_chars_passes
    \<and> login_valid_inputs_pass \<and> login_invalid_email_fails \<and> login_empty_password_fails
    \<and> login_password_over_128_chars_fails
    \<and> refresh_empty_token_fails \<and> refresh_non_empty_token_passes \<and> logout_empty_token_fails
    \<and> logout_non_empty_token_passes
    \<and> change_password_valid_inputs_pass \<and> change_password_empty_current_fails
    \<and> change_password_current_over_128_fails \<and> change_password_new_too_short_fails
    \<and> change_password_new_too_long_fails"
  by (simp only: register_tests login_tests other_body_tests simp_thms)

section \<open>The stores\<close>

text \<open>
  C28. No unit test of the token store or the lockout store fails an assertion, on any cache that
  satisfies its contract, whichever of its calls fail: from every state in which the user drawn by the
  test has no index, the unknown token is not stored, and the address has no failures.
\<close>

theorem store_tests_sound:
  assumes "session_cache R \<alpha> U" and "lookup t (\<alpha> r) (sessions_key U u) = None" and "j1 \<noteq> j2"
    and "lookup t (\<alpha> r) (refresh_key U j) = None"
    and "counters_ok (\<alpha> r)" and "lockout_failures t (\<alpha> r) e = 0"
  shows "sound (store_creates_jti_key_and_sessions_set R U j1 u t) r
    \<and> sound (revoke_removes_jti_key_and_sessions_membership R U j1 u t) r
    \<and> sound (revoke_unknown_jti_returns_none R U j t) r
    \<and> sound (revoke_all_removes_all_jti_keys_and_sessions_set R U u j1 j2 t) r
    \<and> sound (revoke_all_with_no_sessions_returns_zero R U u t) r
    \<and> sound (not_locked_with_no_failures R e t) r
    \<and> sound (locked_after_max_failures R e t) r
    \<and> sound (clear_resets_lock R e t) r
    \<and> sound (record_failure_returns_incrementing_count R e t) r"
proof -
  have "redis_service R \<alpha>" using assms(1) by (simp add: session_cache_def)
  note lockout = redis_service.sound_lockout_tests [OF this assms(5,6)]
  note tokens = session_cache.sound_store_creates [OF assms(1,2)] session_cache.sound_revoke_removes [OF assms(1,2)]
    session_cache.sound_revoke_unknown [OF assms(1,4)] session_cache.sound_revoke_all_removes [OF assms(1-3)]
    session_cache.sound_revoke_all_none [OF assms(1,2)]
  show ?thesis by (intro conjI tokens lockout)
qed

lemma store_tests_sound_witness:
  "(\<forall>lost. sound (revoke_all_removes_all_jti_keys_and_sessions_set sim_api bits_uuid 9 8 7 0) (fst (cache ref_session), lost)
      \<and> sound (locked_after_max_failures sim_api ''a@b.c'' 0) (fst (cache ref_session), lost))
    \<and> passes (store_creates_jti_key_and_sessions_set sim_api bits_uuid 8 9 0) (cache ref_session)"
proof -
  have fresh: "lookup 0 (fst (cache ref_session)) (sessions_key bits_uuid 9) = None"
      "lookup 0 (fst (cache ref_session)) (refresh_key bits_uuid 6) = None"
      "counters_ok (fst (cache ref_session))"
      "lockout_failures 0 (fst (cache ref_session)) ''a@b.c'' = 0"
    by (auto simp: ref_session_def lookup_def counters_ok_def lockout_failures_def)
  have "sound (revoke_all_removes_all_jti_keys_and_sessions_set sim_api bits_uuid 9 8 7 0) (fst (cache ref_session), lost)
      \<and> sound (locked_after_max_failures sim_api ''a@b.c'' 0) (fst (cache ref_session), lost)" for lost
    using store_tests_sound [OF ref_cache.session_cache_axioms, of 0 "(fst (cache ref_session), lost)" 9 8 7 6 "''a@b.c''"]
      fresh by simp
  moreover have "passes (store_creates_jti_key_and_sessions_set sim_api bits_uuid 8 9 0) (cache ref_session)"
    by (simp add: store_creates_jti_key_and_sessions_set_def passes_def unwrapE_def assertE_def eval_monad eval_library
        eval_stores ref_session_def cong: eval_cong)
  ultimately show ?thesis by blast
qed

section \<open>The repositories\<close>

text \<open>
  While the database runs every statement, all unit tests of the user repository and of the reset
  token repository pass on a new database, whatever ids it generates and whatever id a test draws.
\<close>

theorem repository_tests_pass:
  assumes "serves L" and "t \<le> t'"
  shows "passes (create_and_find_by_email L t) (empty_db, g)
    \<and> passes (find_by_email_returns_none_for_unknown L) (empty_db, g)
    \<and> passes (duplicate_email_returns_email_conflict L t) (empty_db, g)
    \<and> passes (find_by_id_returns_user L t) (empty_db, g)
    \<and> passes (find_by_id_returns_none_for_unknown L i) (empty_db, g)
    \<and> passes (update_password_changes_hash L t t') (empty_db, g)
    \<and> passes (update_password_on_nonexistent_returns_not_found L i t) (empty_db, g)
    \<and> passes (delete_removes_user L t) (empty_db, g)
    \<and> passes (create_and_consume_returns_user_id L t) (empty_db, g)
    \<and> passes (consume_returns_none_on_second_use L t) (empty_db, g)
    \<and> passes (consume_returns_none_for_expired_token L t) (empty_db, g)
    \<and> passes (consume_returns_none_for_unknown_token L t) (empty_db, g)"
  using user_repository_tests_pass [OF assms(1)] reset_token_repository_tests_pass [OF assms(1)] assms(2)
  by (intro conjI)

text \<open>A database server for evaluation: it runs every statement, and generates the ids in order.\<close>

definition steady_pg :: "nat pg_lib" where
  "steady_pg = \<lparr>pg_next = (\<lambda>n. (Pg_Served, n)), pg_uuid = (\<lambda>n. (of_nat n, n + 1))\<rparr>"

lemma repository_tests_pass_witness:
  "passes (create_and_consume_returns_user_id steady_pg 0) (empty_db, 1)
    \<and> passes (duplicate_email_returns_email_conflict steady_pg 0) (empty_db, 1)"
proof -
  have "serves steady_pg" by (simp add: serves_def steady_pg_def)
  from repository_tests_pass [OF this, of 0 0 1] show ?thesis by simp
qed

section \<open>The domain\<close>

text \<open>
  No unit test of the tokens or of the password service fails an assertion, on any signing library and
  any password library that satisfy their contracts, genuine signatures included, if the two keys of the tests are a pair, two UUIDs
  drawn one after the other are different, and so are two salts, which are part of the hash.
\<close>

theorem domain_tests_sound:
  assumes "strict_jwt_library J keypair" and "password_binding A"
    and "\<And>ek dk. encoding_key_from_ed_pem J private_pem = Inr ek \<Longrightarrow>
      decoding_key_from_ed_pem J public_pem = Inr dk \<Longrightarrow> keypair ek dk"
    and "fst (new_v4 E g) \<noteq> fst (new_v4 E (snd (new_v4 E g)))"
    and "\<And>x pw salt salt' h. hash_password A x pw salt = Inr h \<Longrightarrow> hash_password A x pw salt' = Inr h \<Longrightarrow> salt = salt'"
    and "fst (new_salt E g) \<noteq> fst (new_salt E (snd (new_salt E g)))"
  shows "sound (access_token_roundtrip J E private_pem public_pem uid t) g
    \<and> sound (refresh_token_roundtrip J E private_pem public_pem uid t) g
    \<and> sound (access_token_rejected_as_refresh J E private_pem public_pem uid t) g
    \<and> sound (refresh_token_rejected_as_access J E private_pem public_pem uid t) g
    \<and> sound (tampered_token_is_rejected J E private_pem public_pem uid t) g
    \<and> sound (each_token_has_unique_jti J E private_pem public_pem uid t) g
    \<and> sound (hash_and_verify_roundtrip A E) g
    \<and> sound (different_passwords_produce_different_hashes A E) g"
  using jwt_library.sound_jwt_tests [OF strict_jwt_library.axioms(1) [OF assms(1)] assms(3)] assms(4)
    strict_jwt_library.sound_tampered [OF assms(1,3)]
    password_binding.sound_hash_and_verify [OF assms(2)] sound_different_hashes [OF assms(5,6)]
  by (intro conjI) auto

lemma domain_tests_sound_witness:
  "sound (different_passwords_produce_different_hashes ref_argon2
      (ref_env\<lparr>new_salt := \<lambda>(n, l, os). (nat_bits n, (n + 1, l, os))\<rparr>)) (1, [], [])
    \<and> sound (each_token_has_unique_jti ref_jwt
      (ref_env\<lparr>new_salt := \<lambda>(n, l, os). (nat_bits n, (n + 1, l, os))\<rparr>) ''key'' ''key'' 1 0) (1, [], [])"
proof -
  let ?E = "ref_env\<lparr>new_salt := \<lambda>(n, l, os). (nat_bits n, (n + 1, l, os))\<rparr>"
  have salt: "salt = salt'" if "hash_password ref_argon2 x pw salt = Inr h" "hash_password ref_argon2 x pw salt' = Inr h"
    for x pw salt salt' h
    using that by (auto simp: ref_argon2_def split: if_splits)
  have "nat_bits 1 \<noteq> nat_bits 2" by (metis bits_nat_bits num.distinct(1) one_eq_numeral_iff option.inject)
  then have differ: "fst (new_v4 ?E (1, [], [])) \<noteq> fst (new_v4 ?E (snd (new_v4 ?E (1, [], []))))"
      "fst (new_salt ?E (1, [], [])) \<noteq> fst (new_salt ?E (snd (new_salt ?E (1, [], []))))"
    by (simp_all add: ref_env_def numeral_2_eq_2)
  from domain_tests_sound [where private_pem = "''key''" and public_pem = "''key''" and uid = 1 and t = 0,
      OF ref_jwt.strict_jwt_library_axioms ref_argon2.password_binding_axioms _ differ(1) salt differ(2)]
  show ?thesis by simp
qed

end
