(* ===== verification/Event_Log.thy ===== *)
theory Event_Log
  imports Handler_Answers
begin

text \<open>
  The events that the handlers of \<open>src/routes/mod.rs\<close> and the rate limiter of \<open>src/middleware/mod.rs\<close>
  write to the log (\<open>tracing\<close>), with their levels and fields. A handler is written out once more with
  its log lines, on a state that holds the log; without the log it is the handler of \<open>Routes\<close>
  (\<open>erases\<close>). \<open>ip\<close> is the address of the peer, which the handlers take for the log alone.
\<close>

section \<open>Events\<close>

datatype level = Info | Warn | Error

text \<open>Levels are ordered by verbosity, as in \<open>tracing\<close>: a filter lets through all that is not above it.\<close>

fun verbosity :: "level \<Rightarrow> nat" where
  "verbosity Error = 1"
| "verbosity Warn = 2"
| "verbosity Info = 3"

lemma verbosity_inject: "verbosity l = verbosity l' \<Longrightarrow> l = l'"
  by (cases l; cases l') simp_all

instantiation level :: linorder
begin

definition less_eq_level where "l \<le> l' \<longleftrightarrow> verbosity l \<le> verbosity l'"

definition less_level where "l < l' \<longleftrightarrow> verbosity l < verbosity l'"

instance
  by standard (auto simp: less_eq_level_def less_level_def dest: verbosity_inject)

end

datatype field =
    Email string
  | Ip string
  | User_Id uuid
  | Reason string
  | Attempts u32
  | Sessions_Revoked nat
  | Route string
  | Email_Failure email_error
  | Redis_Failure redis_error

record event =
  ev_level :: level
  ev_name :: string
  ev_fields :: "field list"

definition log_event :: "level \<Rightarrow> string \<Rightarrow> field list \<Rightarrow> event" where
  "log_event l n fs = \<lparr>ev_level = l, ev_name = n, ev_fields = fs\<rparr>"

lemma log_event_inject [simp]: "log_event l n fs = log_event l' n' fs' \<longleftrightarrow> l = l' \<and> n = n' \<and> fs = fs'"
  by (simp add: log_event_def)

abbreviation info :: "string \<Rightarrow> field list \<Rightarrow> event" where
  "info \<equiv> log_event Info"

abbreviation warn :: "string \<Rightarrow> field list \<Rightarrow> event" where
  "warn \<equiv> log_event Warn"

text \<open>What a filter at the level \<open>v\<close> lets through.\<close>

definition visible :: "level \<Rightarrow> event list \<Rightarrow> event list" where
  "visible v l = filter (\<lambda>ev. ev_level ev \<le> v) l"

lemma level_le_Info [simp]: "l \<le> Info"
  by (cases l) (simp_all add: less_eq_level_def)

lemma level_le_Warn: "l \<le> Warn \<longleftrightarrow> l \<noteq> Info"
  by (cases l) (simp_all add: less_eq_level_def)

lemma visible_simps [simp]:
  "visible Info l = l" "visible v [] = []"
  "visible Warn (log_event k n fs # l) = (if k = Info then visible Warn l else log_event k n fs # visible Warn l)"
  by (simp_all add: visible_def log_event_def level_le_Warn)

section \<open>Computations with a log\<close>

text \<open>A call that logs nothing; a log line; and \<open>map_err\<close> with a closure that logs.\<close>

definition quietly :: "('s, 'e, 'a) io \<Rightarrow> ('s \<times> event list, 'e, 'a) io" where
  "quietly m = (\<lambda>(s, l). case m s of (x, s') \<Rightarrow> (x, (s', l)))"

definition emit :: "event \<Rightarrow> ('s \<times> event list, 'e, unit) io" where
  "emit ev = (\<lambda>(s, l). (Inr (), (s, l @ [ev])))"

definition on_failure ::
    "('s \<times> event list, 'e, 'a) io \<Rightarrow> ('e \<Rightarrow> event list) \<Rightarrow> ('e \<Rightarrow> 'f) \<Rightarrow> ('s \<times> event list, 'f, 'a) io" where
  "on_failure m evs conv = (\<lambda>s. case m s of
       (Inl e, (s', l)) \<Rightarrow> (Inl (conv e), (s', l @ evs e))
     | (Inr a, s') \<Rightarrow> (Inr a, s'))"

text \<open>\<open>a\<close> is \<open>m\<close> with log lines.\<close>

definition erases :: "('s \<times> event list, 'e, 'a) io \<Rightarrow> ('s, 'e, 'a) io \<Rightarrow> bool" where
  "erases a m \<longleftrightarrow> (\<forall>s l. fst (a (s, l)) = fst (m s) \<and> fst (snd (a (s, l))) = snd (m s))"

named_theorems erases_rules

lemma erases_quietly [erases_rules]: "erases (quietly m) m"
  by (simp add: erases_def quietly_def split: prod.split)

lemma erases_okE [erases_rules]: "erases (okE a) (okE a)" "erases (errE e) (errE e)"
  by (simp_all add: erases_def)

lemma erases_emit [erases_rules]: "(\<And>u. erases (f u) m) \<Longrightarrow> erases (bindE (emit ev) f) m"
  by (simp add: erases_def emit_def bindE_def)

lemma erases_bindE [erases_rules]:
  assumes "erases a m" and "\<And>x. erases (f x) (g x)"
  shows "erases (bindE a f) (bindE m g)"
  unfolding erases_def
proof (intro allI)
  fix s l
  obtain x s' where m: "m s = (x, s')" by fastforce
  then obtain l' where "a (s, l) = (x, (s', l'))"
    using assms(1) unfolding erases_def by (metis fst_conv snd_conv prod.collapse)
  with m assms(2) show "fst (bindE a f (s, l)) = fst (bindE m g s) \<and> fst (snd (bindE a f (s, l))) = snd (bindE m g s)"
    by (cases x) (auto simp: bindE_def erases_def)
qed

lemma erases_on_failure [erases_rules]: "erases a m \<Longrightarrow> erases (on_failure a evs conv) (mapErrE conv m)"
  unfolding erases_def on_failure_def mapErrE_def by (auto split: prod.split sum.split) (metis fst_conv snd_conv sum.distinct(1) sum.inject prod.inject)+

lemma erases_if [erases_rules]:
  "erases a m \<Longrightarrow> erases b n \<Longrightarrow> erases (if c then a else b) (if c then m else n)"
  by simp

lemma erases_option [erases_rules]:
  "erases a m \<Longrightarrow> (\<And>x. erases (f x) (g x)) \<Longrightarrow>
    erases (case v of None \<Rightarrow> a | Some x \<Rightarrow> f x) (case v of None \<Rightarrow> m | Some x \<Rightarrow> g x)"
  by (simp split: option.split)

section \<open>The handlers with their log lines\<close>

text \<open>\<open>repo.create\<close> logs a conflict before the error is converted.\<close>

definition register_audited ::
    "('r, 'g) app_state \<Rightarrow> string \<Rightarrow> register_request \<Rightarrow> (('r, 'g) world \<times> event list, api_error, response) io" where
  "register_audited St ip b =
     bindE (quietly (liftE (register_validate b))) (\<lambda>_.
     bindE (quietly (gen_op (\<lambda>_. hash_of (st_argon2_crate St) (st_env St) (st_passwords St) (reg_password b)))) (\<lambda>hash.
     bindE (on_failure (quietly (on_db (create_user (st_env St) (reg_email b) hash)))
              (\<lambda>e. if e = EmailConflict
                 then [warn ''register_failed'' [Email (reg_email b), Ip ip, Reason ''email_conflict'']] else [])
              api_of_data) (\<lambda>user.
     bindE (emit (info ''register_success'' [Email (user_email user), User_Id (user_id user), Ip ip])) (\<lambda>_.
     okE (respond 201 (Register_Response (user_id user) (user_email user)))))))"

definition login_audited ::
    "('r, 'g) app_state \<Rightarrow> string \<Rightarrow> login_request \<Rightarrow> (('r, 'g) world \<times> event list, api_error, response) io" where
  "login_audited St ip b =
     bindE (quietly (liftE (login_validate b))) (\<lambda>_.
     bindE (quietly (cache_op (is_locked (st_redis St) (login_email b)))) (\<lambda>locked.
     if locked then
       bindE (emit (warn ''login_failed'' [Email (login_email b), Ip ip, Reason ''account_locked''])) (\<lambda>_.
       errE Unauthorized)
     else
     bindE (quietly (db_op (\<lambda>_. find_by_email (st_env St) (login_email b)))) (\<lambda>found.
     case found of
       None \<Rightarrow>
         bindE (emit (warn ''login_failed'' [Email (login_email b), Ip ip, Reason ''unknown_email''])) (\<lambda>_.
         errE Unauthorized)
     | Some user \<Rightarrow>
         bindE (quietly (domain_op (verify_hash (st_argon2_crate St) (st_passwords St) (login_password b)
                       (password_hash user)))) (\<lambda>verified.
         if \<not> verified then
           bindE (quietly (cache_op (record_failure (st_redis St) (login_email b)))) (\<lambda>attempts.
           bindE (emit (warn ''login_failed''
                   [Email (login_email b), Ip ip, Attempts attempts, Reason ''invalid_password''])) (\<lambda>_.
           errE Unauthorized))
         else
           bindE (quietly (cache_op (clear_failures (st_redis St) (login_email b)))) (\<lambda>_.
           bindE (quietly (issue_tokens St (user_id user) (user_email user))) (\<lambda>res.
           bindE (emit (info ''login_success'' [Email (user_email user), User_Id (user_id user), Ip ip])) (\<lambda>_.
           okE res)))))))"

definition refresh_audited ::
    "('r, 'g) app_state \<Rightarrow> string \<Rightarrow> refresh_request \<Rightarrow> (('r, 'g) world \<times> event list, api_error, response) io" where
  "refresh_audited St ip b =
     bindE (quietly (liftE (refresh_validate b))) (\<lambda>_.
     bindE (quietly now) (\<lambda>t.
     bindE (on_failure (quietly (liftE (verify_refresh (st_jwt_crate St) (st_jwt St) (refresh_token b) t)))
              (\<lambda>_. [warn ''refresh_failed'' [Ip ip, Reason ''invalid_token'']]) (\<lambda>_. Unauthorized)) (\<lambda>claims.
     bindE (quietly (cache_op (revoke_refresh_token (st_redis St) (st_uuid St) (c_jti claims)))) (\<lambda>revoked.
     bindE (case revoked of
              None \<Rightarrow>
                bindE (emit (warn ''refresh_failed'' [User_Id (c_sub claims), Ip ip, Reason ''token_revoked''])) (\<lambda>_.
                errE Unauthorized)
            | Some uid \<Rightarrow> okE uid) (\<lambda>_.
     bindE (quietly (issue_tokens St (c_sub claims) (c_email claims))) (\<lambda>res.
     bindE (emit (info ''token_refreshed'' [User_Id (c_sub claims), Ip ip])) (\<lambda>_.
     okE res)))))))"

definition change_password_audited ::
    "('r, 'g) app_state \<Rightarrow> string \<Rightarrow> claims \<Rightarrow> change_password_request
      \<Rightarrow> (('r, 'g) world \<times> event list, api_error, response) io" where
  "change_password_audited St ip claims b =
     bindE (quietly (liftE (change_password_validate b))) (\<lambda>_.
     bindE (quietly (db_op (\<lambda>_. find_by_id (st_env St) (c_sub claims)))) (\<lambda>found.
     bindE (quietly (ok_orE Unauthorized found)) (\<lambda>user.
     bindE (quietly (domain_op (verify_hash (st_argon2_crate St) (st_passwords St) (current_password b)
                   (password_hash user)))) (\<lambda>verified.
     if \<not> verified then
       bindE (emit (warn ''change_password_failed''
               [User_Id (c_sub claims), Ip ip, Reason ''wrong_current_password''])) (\<lambda>_.
       errE Unauthorized)
     else
     bindE (quietly (gen_op (\<lambda>_. hash_of (st_argon2_crate St) (st_env St) (st_passwords St) (new_password b)))) (\<lambda>new_hash.
     bindE (quietly (db_op (update_password (st_env St) (c_sub claims) new_hash))) (\<lambda>_.
     bindE (emit (info ''password_changed'' [User_Id (c_sub claims), Ip ip])) (\<lambda>_.
     okE (respond 204 No_Body))))))))"

definition delete_me_audited ::
    "('r, 'g) app_state \<Rightarrow> string \<Rightarrow> claims \<Rightarrow> (('r, 'g) world \<times> event list, api_error, response) io" where
  "delete_me_audited St ip claims =
     bindE (quietly (db_op (\<lambda>_. delete_by_id (st_env St) (c_sub claims)))) (\<lambda>_.
     bindE (emit (info ''account_deleted'' [User_Id (c_sub claims), Ip ip])) (\<lambda>_.
     okE (respond 204 No_Body)))"

definition logout_all_audited ::
    "('r, 'g) app_state \<Rightarrow> string \<Rightarrow> claims \<Rightarrow> (('r, 'g) world \<times> event list, api_error, response) io" where
  "logout_all_audited St ip claims =
     bindE (quietly (cache_op (revoke_all_sessions (st_redis St) (st_uuid St) (c_sub claims)))) (\<lambda>count.
     bindE (emit (info ''logout_all'' [User_Id (c_sub claims), Ip ip, Sessions_Revoked count])) (\<lambda>_.
     okE (respond 204 No_Body)))"

definition logout_audited ::
    "('r, 'g) app_state \<Rightarrow> string \<Rightarrow> logout_request \<Rightarrow> (('r, 'g) world \<times> event list, api_error, response) io" where
  "logout_audited St ip b =
     bindE (quietly (liftE (logout_validate b))) (\<lambda>_.
     bindE (quietly now) (\<lambda>t.
     bindE (on_failure (quietly (liftE (verify_refresh (st_jwt_crate St) (st_jwt St) (logout_token b) t)))
              (\<lambda>_. [warn ''logout_failed'' [Ip ip, Reason ''invalid_token'']]) (\<lambda>_. Unauthorized)) (\<lambda>claims.
     bindE (quietly (cache_op (revoke_refresh_token (st_redis St) (st_uuid St) (c_jti claims)))) (\<lambda>_.
     bindE (emit (info ''logout'' [User_Id (c_sub claims), Ip ip])) (\<lambda>_.
     okE (respond 204 No_Body))))))"

definition reset_request_audited ::
    "('r, 'g) app_state \<Rightarrow> string \<Rightarrow> reset_request_body \<Rightarrow> (('r, 'g) world \<times> event list, api_error, response) io" where
  "reset_request_audited St ip b =
     bindE (quietly (liftE (reset_request_validate b))) (\<lambda>_.
     bindE (quietly (db_op (\<lambda>_. find_by_email (st_env St) (rr_email b)))) (\<lambda>found.
     bindE (case found of
         Some user \<Rightarrow>
           bindE (quietly (on_gen (\<lambda>_. generate_reset_token (st_digest St) (st_env St)))) (\<lambda>(raw_token, hash).
           bindE (quietly now) (\<lambda>t.
           bindE (quietly (db_op (\<lambda>_. create_reset_token (st_env St) (user_id user) hash (t + secs 900)))) (\<lambda>_.
           bindE (quietly (attemptE (on_mail (send_password_reset (st_env St) (st_email St) (user_email user)
                    (reset_link (st_app_base_url St) raw_token)))))
             (\<lambda>sent_or. case sent_or of
                Inl e \<Rightarrow> bindE (emit (log_event Error ''password_reset_email_failed''
                            [User_Id (user_id user), Email_Failure e])) (\<lambda>_. okE ())
              | Inr _ \<Rightarrow> bindE (emit (info ''password_reset_requested''
                            [User_Id (user_id user), Ip ip])) (\<lambda>_. okE ())))))
       | None \<Rightarrow> okE ()) (\<lambda>_.
     okE (respond 200 No_Body))))"

definition reset_confirm_audited ::
    "('r, 'g) app_state \<Rightarrow> string \<Rightarrow> reset_confirm_body \<Rightarrow> (('r, 'g) world \<times> event list, api_error, response) io" where
  "reset_confirm_audited St ip b =
     bindE (quietly (liftE (reset_confirm_validate b))) (\<lambda>_.
     let hash = token_digest (st_digest St) (rc_token b) in
     bindE (quietly (db_op (consume_reset_token (st_env St) hash))) (\<lambda>consumed.
     bindE (quietly (ok_orE (BadRequest ''invalid or expired reset token'') consumed)) (\<lambda>uid.
     bindE (quietly (gen_op (\<lambda>_. hash_of (st_argon2_crate St) (st_env St) (st_passwords St) (rc_new_password b)))) (\<lambda>new_hash.
     bindE (quietly (db_op (update_password (st_env St) uid new_hash))) (\<lambda>_.
     bindE (quietly (cache_op (revoke_all_sessions (st_redis St) (st_uuid St) uid))) (\<lambda>_.
     bindE (emit (info ''password_reset_confirmed'' [User_Id uid, Ip ip])) (\<lambda>_.
     okE (respond 200 No_Body))))))))"

text \<open>The limiter; the rest of the stack may log too. The second event has a message and no name.\<close>

definition rate_limit_audited ::
    "('r, 'g) app_state \<Rightarrow> string option \<Rightarrow> string
      \<Rightarrow> (('r, 'g) world \<times> event list \<Rightarrow> response \<times> (('r, 'g) world \<times> event list))
      \<Rightarrow> ('r, 'g) world \<times> event list \<Rightarrow> response \<times> (('r, 'g) world \<times> event list)" where
  "rate_limit_audited St connect_info route next_service = (\<lambda>(w, l).
     let ip = (case connect_info of None \<Rightarrow> ''unknown'' | Some ip \<Rightarrow> ip)
     in case on_cache (check_rate_limit (st_redis St) (rate_key route ip)) w of
          (Inr True, w') \<Rightarrow> (respond 429 (Text ''too many requests''),
             (w', l @ [warn ''rate_limit_exceeded'' [Ip ip, Route route]]))
        | (Inr False, w') \<Rightarrow> next_service (w', l)
        | (Inl e, w') \<Rightarrow> next_service (w', l @
             [log_event Error ''rate limiter unavailable, failing open'' [Redis_Failure e]]))"

section \<open>Without the log\<close>

lemma erases_register: "erases (register_audited St ip b) (register St b)"
  unfolding register_audited_def register_def db_op_def by (intro erases_rules)

lemma erases_ok_or:
  "erases (case v of None \<Rightarrow> bindE (emit ev) (\<lambda>_. errE e) | Some x \<Rightarrow> okE x) (ok_orE e v)"
  by (cases v) (auto intro: erases_rules)

lemma bindE_okE_right: "bindE m okE = m"
  by (auto simp: bindE_def fun_eq_iff split: prod.split sum.split)

lemma erases_quietly_then:
  assumes "\<And>x. erases (f x) (okE x)"
  shows "erases (bindE (quietly m) f) m"
  using erases_bindE [OF erases_quietly [of m], of f okE] assms by (simp add: bindE_okE_right)

lemma erases_login: "erases (login_audited St ip b) (login St b)"
  unfolding login_audited_def login_def by (intro erases_rules erases_quietly_then)

lemma erases_refresh: "erases (refresh_audited St ip b) (refresh St b)"
  unfolding refresh_audited_def refresh_def by (intro erases_rules erases_quietly_then erases_ok_or)

lemma erases_change_password: "erases (change_password_audited St ip c b) (change_password St c b)"
  unfolding change_password_audited_def change_password_def by (intro erases_rules)

lemma erases_delete_me: "erases (delete_me_audited St ip c) (delete_me St c)"
  unfolding delete_me_audited_def delete_me_def by (intro erases_rules)

lemma erases_logout_all: "erases (logout_all_audited St ip c) (logout_all St c)"
  unfolding logout_all_audited_def logout_all_def by (intro erases_rules)

lemma erases_logout: "erases (logout_audited St ip b) (logout St b)"
  unfolding logout_audited_def logout_def by (intro erases_rules)

lemma erases_sum:
  "(\<And>e. erases (f e) m) \<Longrightarrow> (\<And>u. erases (g u) m) \<Longrightarrow> erases (case v of Inl e \<Rightarrow> f e | Inr u \<Rightarrow> g u) m"
  by (simp split: sum.split)

lemma erases_reset_request: "erases (reset_request_audited St ip b) (password_reset_request St b)"
  unfolding reset_request_audited_def password_reset_request_def case_prod_beta'
  by (intro erases_rules erases_sum)

lemma erases_reset_confirm: "erases (reset_confirm_audited St ip b) (password_reset_confirm St b)"
  unfolding reset_confirm_audited_def password_reset_confirm_def Let_def by (intro erases_rules)

lemma erases_rate_limit:
  assumes "\<And>w l. fst (audited (w, l)) = fst (plain w) \<and> fst (snd (audited (w, l))) = snd (plain w)"
  shows "fst (rate_limit_audited St connect_info route audited (w, l)) = fst (rate_limit St connect_info route plain w)
    \<and> fst (snd (rate_limit_audited St connect_info route audited (w, l)))
      = snd (rate_limit St connect_info route plain w)"
  by (auto simp: rate_limit_audited_def rate_limit_def Let_def assms split: prod.split sum.split bool.split)

end
