(* ===== verification/Log_Trail.thy ===== *)
theory Log_Trail
  imports Event_Log Handler_Facts
begin

text \<open>
  What a request leaves in the log: for each handler the events as a function of the state before the
  request and of its answer (\<open>login_events\<close> and the others), and that the handler appends exactly these
  (\<open>appends\<close>). The user ids, the reason of a refusal and the number of attempts are those of the tables.
\<close>

section \<open>The events of a run\<close>

text \<open>\<open>appends a s F\<close>: a run of \<open>a\<close> from the state \<open>s\<close> that returns \<open>x\<close> appends the events \<open>F x\<close> to the log.\<close>

definition appends :: "('s \<times> event list, 'e, 'a) io \<Rightarrow> 's \<Rightarrow> ('e + 'a \<Rightarrow> event list) \<Rightarrow> bool" where
  "appends a s F \<longleftrightarrow> (\<forall>l x s' l'. a (s, l) = (x, (s', l')) \<longrightarrow> l' = l @ F x)"

lemma appendsD: "appends a s F \<Longrightarrow> a (s, l) = (x, (s', l')) \<Longrightarrow> l' = l @ F x"
  unfolding appends_def by blast

text \<open>A call that logs nothing.\<close>

lemma appends_quietly:
  assumes "\<And>e s'. m s = (Inl e, s') \<Longrightarrow> F (Inl e) = []" and "\<And>a s'. m s = (Inr a, s') \<Longrightarrow> appends (f a) s' F"
  shows "appends (bindE (quietly m) f) s F"
  unfolding appends_def
proof (intro allI impI)
  fix l x s' l' assume run: "bindE (quietly m) f (s, l) = (x, (s', l'))"
  obtain y s1 where m: "m s = (y, s1)" by fastforce
  show "l' = l @ F x"
  proof (cases y)
    case (Inl e)
    with run m assms(1) show ?thesis by (auto simp: bindE_def quietly_def)
  next
    case (Inr a)
    with run m have "f a (s1, l) = (x, (s', l'))" by (simp add: bindE_def quietly_def)
    with assms(2) m Inr show ?thesis by (blast dest: appendsD)
  qed
qed

lemma appends_on_failure:
  assumes "\<And>e s'. m s = (Inl e, s') \<Longrightarrow> F (Inl (conv e)) = evs e"
    and "\<And>a s'. m s = (Inr a, s') \<Longrightarrow> appends (f a) s' F"
  shows "appends (bindE (on_failure (quietly m) evs conv) f) s F"
  unfolding appends_def
proof (intro allI impI)
  fix l x s' l' assume run: "bindE (on_failure (quietly m) evs conv) f (s, l) = (x, (s', l'))"
  obtain y s1 where m: "m s = (y, s1)" by fastforce
  show "l' = l @ F x"
  proof (cases y)
    case (Inl e)
    with run m assms(1) show ?thesis by (auto simp: bindE_def quietly_def on_failure_def)
  next
    case (Inr a)
    with run m have "f a (s1, l) = (x, (s', l'))" by (simp add: bindE_def quietly_def on_failure_def)
    with assms(2) m Inr show ?thesis by (blast dest: appendsD)
  qed
qed

lemma appends_ends:
  "F (Inr a) = [ev] \<Longrightarrow> appends (bindE (emit ev) (\<lambda>_. okE a)) s F"
  "F (Inl e) = [ev] \<Longrightarrow> appends (bindE (emit ev) (\<lambda>_. errE e)) s F"
  "F (Inr a) = [] \<Longrightarrow> appends (okE a) s F"
  by (auto simp: appends_def emit_def bindE_def)

lemma errsD: "errs E m \<Longrightarrow> m s = (Inl e, s') \<Longrightarrow> e \<in> E"
  by (auto simp: errs_def)

section \<open>The errors of the calls\<close>

lemma errs_weaken: "errs E m \<Longrightarrow> E \<subseteq> F \<Longrightarrow> errs F m"
  by (auto simp: errs_def)

text \<open>While the signing library signs, an error of \<open>issue_tokens\<close> is an error of the cache.\<close>

definition signs :: "('r, 'g) app_state \<Rightarrow> bool" where
  "signs St \<longleftrightarrow> (\<forall>c. \<exists>token. jwt_encode (st_jwt_crate St) EdDSA c (encoding_key (st_jwt St)) = Inr token)"

lemma errs_signing:
  assumes "signs St"
  shows "errs {} (gen_op (sign_access_token (st_jwt_crate St) E (st_jwt St) uid email))"
    and "errs {} (gen_op (sign_refresh_token (st_jwt_crate St) E (st_jwt St) uid email))"
proof -
  have no: "sign_with_claims (st_jwt_crate St) E (st_jwt St) uid email ttl k t g \<noteq> (Inl e, g')" for ttl k t g e g'
  proof
    assume "sign_with_claims (st_jwt_crate St) E (st_jwt St) uid email ttl k t g = (Inl e, g')"
    then show False
      using assms unfolding sign_with_claims_def signs_def Let_def
      by (auto elim!: bindE_InlE simp: mapErrE_Inl_iff) (metis Inr_not_Inl)
  qed
  show "errs {} (gen_op (sign_access_token (st_jwt_crate St) E (st_jwt St) uid email))"
    "errs {} (gen_op (sign_refresh_token (st_jwt_crate St) E (st_jwt St) uid email))"
    by (auto simp: errs_def gen_op_def mapErrE_Inl_iff on_gen_iff sign_access_token_def sign_refresh_token_def no
        elim!: bindE_InlE split: prod.splits)
qed

lemma errs_issue_tokens:
  assumes "signs St" shows "errs {Internal} (issue_tokens St uid email)"
  unfolding issue_tokens_def case_prod_beta'
  by (intro errs_bindE errs_rules insertI1 errs_weaken [OF errs_signing(1) [OF assms]]
      errs_weaken [OF errs_signing(2) [OF assms]] empty_subsetI)

text \<open>Otherwise the error is the one of a token that does not verify: the client is refused.\<close>

lemma unsigned_tokens_refused:
  assumes "\<forall>c. jwt_encode (st_jwt_crate St) EdDSA c (encoding_key (st_jwt St)) = Inl e"
  shows "fst (issue_tokens St uid email w) = Inl Unauthorized"
  using assms
  by (simp add: issue_tokens_def gen_op_def sign_access_token_def sign_with_claims_def drawE_def Let_def
      bindE_def mapErrE_def on_gen_def split: prod.split)

section \<open>The events of each handler\<close>

text \<open>A conflict is the only error of a registration with an event; a new user's id is that of the answer.\<close>

fun register_events :: "string \<Rightarrow> register_request \<Rightarrow> api_error + response \<Rightarrow> event list" where
  "register_events ip b (Inr res) = (case body res of
       Register_Response i e \<Rightarrow> [info ''register_success'' [Email (reg_email b), User_Id i, Ip ip]]
     | _ \<Rightarrow> [])"
| "register_events ip b (Inl Conflict) =
     [warn ''register_failed'' [Email (reg_email b), Ip ip, Reason ''email_conflict'']]"
| "register_events ip b (Inl _) = []"

fun login_events ::
    "('r \<Rightarrow> keyspace) \<Rightarrow> string \<Rightarrow> login_request \<Rightarrow> ('r, 'g) world \<Rightarrow> api_error + response \<Rightarrow> event list" where
  "login_events \<alpha> ip b w (Inr _) = (case user_with_email (db w) (login_email b) of
       Some u \<Rightarrow> [info ''login_success'' [Email (login_email b), User_Id (user_id u), Ip ip]]
     | None \<Rightarrow> [])"
| "login_events \<alpha> ip b w (Inl Unauthorized) =
     (let n = lockout_failures (clock w) (\<alpha> (cache w)) (login_email b)
      in if 10 \<le> n then [warn ''login_failed'' [Email (login_email b), Ip ip, Reason ''account_locked'']]
         else case user_with_email (db w) (login_email b) of
           None \<Rightarrow> [warn ''login_failed'' [Email (login_email b), Ip ip, Reason ''unknown_email'']]
         | Some _ \<Rightarrow> [warn ''login_failed''
             [Email (login_email b), Ip ip, Attempts (of_int (n + 1)), Reason ''invalid_password'']])"
| "login_events \<alpha> ip b w (Inl _) = []"

fun refresh_events ::
    "('r, 'g) app_state \<Rightarrow> string \<Rightarrow> refresh_request \<Rightarrow> ('r, 'g) world \<Rightarrow> api_error + response \<Rightarrow> event list" where
  "refresh_events St ip b w (Inr _) =
     (case verify_refresh (st_jwt_crate St) (st_jwt St) (refresh_token b) (clock w) of
        Inl _ \<Rightarrow> []
      | Inr c \<Rightarrow> [info ''token_refreshed'' [User_Id (c_sub c), Ip ip]])"
| "refresh_events St ip b w (Inl Unauthorized) =
     (case verify_refresh (st_jwt_crate St) (st_jwt St) (refresh_token b) (clock w) of
        Inl _ \<Rightarrow> [warn ''refresh_failed'' [Ip ip, Reason ''invalid_token'']]
      | Inr c \<Rightarrow> [warn ''refresh_failed'' [User_Id (c_sub c), Ip ip, Reason ''token_revoked'']])"
| "refresh_events St ip b w (Inl _) = []"

fun logout_events ::
    "('r, 'g) app_state \<Rightarrow> string \<Rightarrow> logout_request \<Rightarrow> ('r, 'g) world \<Rightarrow> api_error + response \<Rightarrow> event list" where
  "logout_events St ip b w (Inr _) =
     (case verify_refresh (st_jwt_crate St) (st_jwt St) (logout_token b) (clock w) of
        Inl _ \<Rightarrow> []
      | Inr c \<Rightarrow> [info ''logout'' [User_Id (c_sub c), Ip ip]])"
| "logout_events St ip b w (Inl Unauthorized) = [warn ''logout_failed'' [Ip ip, Reason ''invalid_token'']]"
| "logout_events St ip b w (Inl _) = []"

text \<open>A user who is not found any more is refused without an event.\<close>

fun change_password_events :: "string \<Rightarrow> uuid \<Rightarrow> ('r, 'g) world \<Rightarrow> api_error + response \<Rightarrow> event list" where
  "change_password_events ip u w (Inr _) = [info ''password_changed'' [User_Id u, Ip ip]]"
| "change_password_events ip u w (Inl Unauthorized) =
     (if user_with_id (db w) u = None then []
      else [warn ''change_password_failed'' [User_Id u, Ip ip, Reason ''wrong_current_password'']])"
| "change_password_events ip u w (Inl _) = []"

fun delete_me_events :: "string \<Rightarrow> uuid \<Rightarrow> api_error + response \<Rightarrow> event list" where
  "delete_me_events ip u (Inr _) = [info ''account_deleted'' [User_Id u, Ip ip]]"
| "delete_me_events ip u (Inl _) = []"

fun logout_all_events ::
    "('r, 'g) app_state \<Rightarrow> ('r \<Rightarrow> keyspace) \<Rightarrow> string \<Rightarrow> uuid \<Rightarrow> ('r, 'g) world \<Rightarrow> api_error + response \<Rightarrow> event list" where
  "logout_all_events St \<alpha> ip u w (Inr _) = [info ''logout_all''
     [User_Id u, Ip ip, Sessions_Revoked (card (indexed (st_uuid St) (clock w) (\<alpha> (cache w)) u))]]"
| "logout_all_events St \<alpha> ip u w (Inl _) = []"

text \<open>What becomes of the mail for the token that the request draws and stores.\<close>

definition reset_mail_result ::
    "('r, 'g) app_state \<Rightarrow> reset_request_body \<Rightarrow> user \<Rightarrow> ('r, 'g) world \<Rightarrow> email_error + unit" where
  "reset_mail_result St b u w =
     (let (bytes, g1) = fill_bytes (st_env St) 32 (snd (pg_next (st_env St) (gen w)));
          raw = hex_encode (st_digest St) bytes;
          g2 = snd (snd (create_reset_token (st_env St) (user_id u) (token_digest (st_digest St) raw)
                 (clock w + secs 900) (db w, g1)))
      in fst (send_password_reset (st_env St) (st_email St) (rr_email b) (reset_link (st_app_base_url St) raw)
           (g2, sent w)))"

text \<open>Whether a reset was requested for an account, and whether its mail went out, shows in the log only.\<close>

fun reset_request_events ::
    "('r, 'g) app_state \<Rightarrow> string \<Rightarrow> reset_request_body \<Rightarrow> ('r, 'g) world \<Rightarrow> api_error + response \<Rightarrow> event list" where
  "reset_request_events St ip b w (Inr _) = (case user_with_email (db w) (rr_email b) of
       None \<Rightarrow> []
     | Some u \<Rightarrow> (case reset_mail_result St b u w of
         Inl e \<Rightarrow> [log_event Error ''password_reset_email_failed'' [User_Id (user_id u), Email_Failure e]]
       | Inr _ \<Rightarrow> [info ''password_reset_requested'' [User_Id (user_id u), Ip ip]]))"
| "reset_request_events St ip b w (Inl _) = []"

fun reset_confirm_events ::
    "('r, 'g) app_state \<Rightarrow> string \<Rightarrow> reset_confirm_body \<Rightarrow> ('r, 'g) world \<Rightarrow> api_error + response \<Rightarrow> event list" where
  "reset_confirm_events St ip b w (Inr _) =
     (case reset_owner (db w) (clock w) (token_digest (st_digest St) (rc_token b)) of
        None \<Rightarrow> []
      | Some u \<Rightarrow> [info ''password_reset_confirmed'' [User_Id u, Ip ip]])"
| "reset_confirm_events St ip b w (Inl _) = []"

section \<open>The handlers append these events\<close>

text \<open>The errors of the services and of the validation leave no event, save a conflict in a registration.\<close>

definition silent :: "(api_error + response \<Rightarrow> event list) \<Rightarrow> bool" where
  "silent F \<longleftrightarrow> (\<forall>e. e \<noteq> Unauthorized \<longrightarrow> F (Inl e) = [])"

lemma silentI:
  assumes "\<And>m. F (Inl (BadRequest m)) = []" "F (Inl Conflict) = []" "\<And>m. F (Inl (Validation m)) = []" "F (Inl Internal) = []"
  shows "silent F"
  unfolding silent_def
proof (intro allI impI)
  fix e assume "e \<noteq> Unauthorized" then show "F (Inl e) = []" using assms by (cases e) simp_all
qed

lemma silent_events [simp]:
  "silent (login_events \<alpha> ip lg w)" "silent (refresh_events St ip rf w)" "silent (logout_events St ip lo w)"
  "silent (change_password_events ip u w)" "silent (delete_me_events ip u)" "silent (logout_all_events St \<alpha> ip u w)"
  "silent (reset_request_events St ip rr w)" "silent (reset_confirm_events St ip rc w)"
  by (rule silentI; simp)+

lemma silent_call:
  assumes "silent F" and "errs {Internal, Conflict} m"
  shows "m s = (Inl e, s') \<Longrightarrow> F (Inl e) = []"
  using errsD [OF assms(2)] assms(1) by (fastforce simp: silent_def)

lemma silent_validate:
  assumes "silent F"
  shows "liftE (login_validate lg) s = (Inl e, s') \<Longrightarrow> F (Inl e) = []"
    "liftE (refresh_validate rf) s = (Inl e, s') \<Longrightarrow> F (Inl e) = []"
    "liftE (logout_validate lo) s = (Inl e, s') \<Longrightarrow> F (Inl e) = []"
    "liftE (change_password_validate cp) s = (Inl e, s') \<Longrightarrow> F (Inl e) = []"
    "liftE (reset_request_validate rr) s = (Inl e, s') \<Longrightarrow> F (Inl e) = []"
    "liftE (reset_confirm_validate rc) s = (Inl e, s') \<Longrightarrow> F (Inl e) = []"
  using assms by (auto simp: silent_def dest!: validate_errors)

lemma silent_bad_request: "silent F \<Longrightarrow> ok_orE (BadRequest m) v s = (Inl e, s') \<Longrightarrow> F (Inl e) = []"
  by (cases v) (auto simp: silent_def)

lemma appends_branches:
  "(c \<Longrightarrow> appends a s F) \<Longrightarrow> (\<not> c \<Longrightarrow> appends a' s F) \<Longrightarrow> appends (if c then a else a') s F"
  "(v = None \<Longrightarrow> appends a s F) \<Longrightarrow> (\<And>x. v = Some x \<Longrightarrow> appends (f x) s F) \<Longrightarrow>
    appends (case v of None \<Rightarrow> a | Some x \<Rightarrow> f x) s F"
  "(\<And>e. y = Inl e \<Longrightarrow> appends (g e) s F) \<Longrightarrow> (\<And>u. y = Inr u \<Longrightarrow> appends (h u) s F) \<Longrightarrow>
    appends (case y of Inl e \<Rightarrow> g e | Inr u \<Rightarrow> h u) s F"
  by (simp_all split: option.split sum.split)

lemmas appends_rules = appends_quietly appends_on_failure appends_ends appends_branches

lemmas silences = silent_call silent_validate silent_bad_request

text \<open>What the calls of a handler have returned, in terms of the state before it.\<close>

lemma liftE_InrD: "liftE r w = (Inr x, w1) \<Longrightarrow> w1 = w \<and> r = Inr x"
  by simp

lemma now_InrD: "now w = (Inr t, w1) \<Longrightarrow> w1 = w \<and> t = clock w"
  by (auto simp: now_def)

lemma found_id_op:
  "db_op (\<lambda>_. find_by_id L i) w = (Inr f, w1) \<Longrightarrow> f = user_with_id (db w) i"
  by (rule find_by_id_op)

lemma verified_op: "domain_op r w = (Inr k, w1) \<Longrightarrow> w1 = w"
  by (simp add: domain_op_def)

context redis_service begin

lemma locked_op:
  assumes "cache_op (is_locked R e) w = (Inr k, w1)" and "counter_at (clock w) (\<alpha> (cache w)) e"
  shows "k = (10 \<le> lockout_failures (clock w) (\<alpha> (cache w)) e)" and "\<alpha> (cache w1) = \<alpha> (cache w)"
    and "w1 = w\<lparr>cache := cache w1\<rparr>"
proof -
  obtain c where c: "is_locked R e (clock w) (cache w) = (Inr k, c)" "w1 = w\<lparr>cache := c\<rparr>"
    using assms(1) by (auto simp: cache_op_def on_cache_iff)
  from is_locked_at [OF assms(2) c(1)] c(2)
  show "k = (10 \<le> lockout_failures (clock w) (\<alpha> (cache w)) e)" "\<alpha> (cache w1) = \<alpha> (cache w)"
    "w1 = w\<lparr>cache := cache w1\<rparr>" by simp_all
qed

lemma recorded_op:
  assumes "cache_op (record_failure R e) w = (Inr n, w1)" and "counter_at (clock w) (\<alpha> (cache w)) e"
    and "lockout_failures (clock w) (\<alpha> (cache w)) e < 10"
  shows "n = of_int (lockout_failures (clock w) (\<alpha> (cache w)) e + 1)"
proof -
  obtain c where "record_failure R e (clock w) (cache w) = (Inr n, c)"
    using assms(1) by (auto simp: cache_op_def on_cache_iff)
  with record_failure_at(2) [OF assms(2,3)] show ?thesis by blast
qed

end

lemma appends_register: "appends (register_audited St ip b) w (register_events ip b)"
proof -
  have quiet: "register_events ip b (Inl e) = []" if "e \<noteq> Conflict" for e
    using that by (cases e) simp_all
  have conv: "register_events ip b (Inl (api_of_data e)) = []" if "e \<noteq> EmailConflict" for e
    using that by (cases e) simp_all
  have mail: "user_email u = e" if "on_db (create_user L e h) w = (Inr u, w')" for L e h w u w'
    using that unfolding create_user_def
    by (auto simp: on_db_iff insert_user_def Let_def elim!: pg_run_with_id_InrE split: if_splits)
  have hash: "errs {Internal} (gen_op (\<lambda>_. hash_of A L P pw))" for A L P pw
    by (intro errs_hashing) simp
  show ?thesis
    unfolding register_audited_def
    by (intro appends_quietly appends_on_failure appends_ends)
      (auto dest!: validate_errors errsD [OF hash] mail simp: quiet conv respond_def)
qed

text \<open>What \<open>login\<close> has seen when it logs.\<close>

lemma login_logs:
  assumes R: "redis_service (st_redis St) \<alpha>"
    and at: "counter_at (clock w) (\<alpha> (cache w)) (login_email b)"
    and v: "liftE (login_validate b) w = (Inr x, w0)"
    and l: "cache_op (is_locked (st_redis St) (login_email b)) w0 = (Inr k, w1)"
  shows "k \<Longrightarrow> login_events \<alpha> ip b w (Inl Unauthorized)
      = [warn ''login_failed'' [Email (login_email b), Ip ip, Reason ''account_locked'']]"
    and "\<not> k \<Longrightarrow> db_op (\<lambda>_. find_by_email (st_env St) (login_email b)) w1 = (Inr found, w2) \<Longrightarrow> found = None
      \<Longrightarrow> login_events \<alpha> ip b w (Inl Unauthorized)
        = [warn ''login_failed'' [Email (login_email b), Ip ip, Reason ''unknown_email'']]"
    and "\<not> k \<Longrightarrow> db_op (\<lambda>_. find_by_email (st_env St) (login_email b)) w1 = (Inr found, w2) \<Longrightarrow> found = Some user
      \<Longrightarrow> domain_op r w2 = (Inr y, w3) \<Longrightarrow> cache_op (record_failure (st_redis St) (login_email b)) w3 = (Inr n, w4)
      \<Longrightarrow> login_events \<alpha> ip b w (Inl Unauthorized) = [warn ''login_failed''
           [Email (login_email b), Ip ip, Attempts n, Reason ''invalid_password'']]"
    and "\<not> k \<Longrightarrow> db_op (\<lambda>_. find_by_email (st_env St) (login_email b)) w1 = (Inr found, w2) \<Longrightarrow> found = Some user
      \<Longrightarrow> login_events \<alpha> ip b w (Inr res)
        = [info ''login_success'' [Email (user_email user), User_Id (user_id user), Ip ip]]"
proof -
  let ?n = "lockout_failures (clock w) (\<alpha> (cache w)) (login_email b)"
  have w0: "w0 = w" using v by simp
  note lo = redis_service.locked_op [OF R l [unfolded w0] at]
  show "login_events \<alpha> ip b w (Inl Unauthorized)
      = [warn ''login_failed'' [Email (login_email b), Ip ip, Reason ''account_locked'']]" if k
    using that lo(1) by simp
  assume nk: "\<not> k" and f: "db_op (\<lambda>_. find_by_email (st_env St) (login_email b)) w1 = (Inr found, w2)"
  have same: "clock w1 = clock w" "db w1 = db w" by (subst lo(3), simp)+
  note fo = found_email_op [OF f]
  show "login_events \<alpha> ip b w (Inl Unauthorized)
      = [warn ''login_failed'' [Email (login_email b), Ip ip, Reason ''unknown_email'']]" if "found = None"
    using that fo lo(1) nk same by simp
  assume some: "found = Some user"
  with fo same have u: "user_with_email (db w) (login_email b) = Some user" by simp
  show "login_events \<alpha> ip b w (Inr res)
      = [info ''login_success'' [Email (user_email user), User_Id (user_id user), Ip ip]]"
    using u user_with_email_Some(2) [OF u] by simp
  assume dom: "domain_op r w2 = (Inr y, w3)"
    and rec: "cache_op (record_failure (st_redis St) (login_email b)) w3 = (Inr n, w4)"
  have w3: "clock w3 = clock w" "\<alpha> (cache w3) = \<alpha> (cache w)"
    using verified_op [OF dom] fo lo(2) same by simp_all
  have "lockout_failures (clock w3) (\<alpha> (cache w3)) (login_email b) < 10" using lo(1) nk by (simp add: w3)
  from redis_service.recorded_op [OF R rec _ this] at
  have "n = of_int (?n + 1)" by (simp add: w3)
  then show "login_events \<alpha> ip b w (Inl Unauthorized) = [warn ''login_failed''
      [Email (login_email b), Ip ip, Attempts n, Reason ''invalid_password'']]"
    using u lo(1) nk by simp
qed

lemma silent_issue: "signs St \<Longrightarrow> silent F \<Longrightarrow> issue_tokens St i m s = (Inl e, s') \<Longrightarrow> F (Inl e) = []"
  using errsD [OF errs_issue_tokens] by (fastforce simp: silent_def)

lemma appends_login:
  assumes "redis_service (st_redis St) \<alpha>" and signs: "signs St"
    and "counter_at (clock w) (\<alpha> (cache w)) (login_email b)"
  shows "appends (login_audited St ip b) w (login_events \<alpha> ip b w)"
  unfolding login_audited_def
  by (intro appends_rules; ((rule login_logs [OF assms(1,3)]; assumption)
      | (auto intro: silences [OF silent_events(1)] silent_issue [OF signs silent_events(1)] errs_rules errs_db_op)))

lemma appends_refresh:
  assumes "signs St"
  shows "appends (refresh_audited St ip b) w (refresh_events St ip b w)"
proof -
  have "refresh_audited St ip b =
    bindE (quietly (liftE (refresh_validate b))) (\<lambda>_.
    bindE (quietly now) (\<lambda>t.
    bindE (on_failure (quietly (liftE (verify_refresh (st_jwt_crate St) (st_jwt St) (refresh_token b) t)))
             (\<lambda>_. [warn ''refresh_failed'' [Ip ip, Reason ''invalid_token'']]) (\<lambda>_. Unauthorized)) (\<lambda>claims.
    bindE (quietly (cache_op (revoke_refresh_token (st_redis St) (st_uuid St) (c_jti claims)))) (\<lambda>revoked.
    case revoked of
      None \<Rightarrow> bindE (emit (warn ''refresh_failed'' [User_Id (c_sub claims), Ip ip, Reason ''token_revoked''])) (\<lambda>_.
        errE Unauthorized)
    | Some uid \<Rightarrow> bindE (quietly (issue_tokens St (c_sub claims) (c_email claims))) (\<lambda>res.
        bindE (emit (info ''token_refreshed'' [User_Id (c_sub claims), Ip ip])) (\<lambda>_. okE res))))))"
    unfolding refresh_audited_def
    by (intro arg_cong2 [where f = bindE] ext refl) (simp add: bindE_assoc split: option.split)
  then show ?thesis
    by simp (intro appends_rules; auto dest!: now_InrD
        intro: silences [OF silent_events(2)] silent_issue [OF assms silent_events(2)] errs_rules errs_db_op)
qed

lemma appends_logout: "appends (logout_audited St ip b) w (logout_events St ip b w)"
  unfolding logout_audited_def
  by (intro appends_rules; auto dest!: now_InrD intro: silences [OF silent_events(3)] errs_rules errs_db_op)

lemma appends_change_password:
  "appends (change_password_audited St ip c b) w (change_password_events ip (c_sub c) w)"
  unfolding change_password_audited_def
  by (intro appends_rules; auto dest!: found_id_op dest: sym intro: silences [OF silent_events(4)] errs_rules errs_db_op)

lemma appends_delete_me: "appends (delete_me_audited St ip c) w (delete_me_events ip (c_sub c))"
  unfolding delete_me_audited_def by (intro appends_rules; auto intro: silences [OF silent_events(5)] errs_rules errs_db_op)

lemma appends_logout_all:
  assumes sc: "session_cache (st_redis St) \<alpha> (st_uuid St)" and wt: "well_typed (st_uuid St) (\<alpha> (cache w))"
  shows "appends (logout_all_audited St ip c) w (logout_all_events St \<alpha> ip (c_sub c) w)"
proof -
  have count: "n = card (indexed (st_uuid St) (clock w) (\<alpha> (cache w)) (c_sub c))"
    if run: "cache_op (revoke_all_sessions (st_redis St) (st_uuid St) (c_sub c)) w = (Inr n, w')" for n w'
  proof -
    obtain k where "revoke_all_sessions (st_redis St) (st_uuid St) (c_sub c) (clock w) (cache w) = (Inr n, k)"
      using run by (auto simp: cache_op_def on_cache_iff)
    then show ?thesis by (rule session_cache.revoke_all_ok(1) [OF sc wt])
  qed
  show ?thesis
    unfolding logout_all_audited_def
    by (intro appends_rules; auto dest: count intro: silences [OF silent_events(6)] errs_rules errs_db_op)
qed

lemma appends_reset_confirm: "appends (reset_confirm_audited St ip b) w (reset_confirm_events St ip b w)"
proof -
  let ?hash = "token_digest (st_digest St) (rc_token b)"
  have owner: "v = reset_owner (db w) (clock w) ?hash"
    if "db_op (consume_reset_token (st_env St) ?hash) w = (Inr v, w1)" for v w1
    using that consume_reset_token_ok(1) by (fastforce simp: db_op_def on_db_iff)
  show ?thesis
    unfolding reset_confirm_audited_def Let_def
    by (intro appends_rules; auto dest!: owner dest: sym intro: silences [OF silent_events(8)] errs_rules errs_db_op)
qed

lemma bindE_cases_distrib:
  "bindE (case v of None \<Rightarrow> a | Some x \<Rightarrow> f x) g = (case v of None \<Rightarrow> bindE a g | Some x \<Rightarrow> bindE (f x) g)"
  "bindE (case q of Inl e \<Rightarrow> k e | Inr u \<Rightarrow> n u) g = (case q of Inl e \<Rightarrow> bindE (k e) g | Inr u \<Rightarrow> bindE (n u) g)"
  by (simp_all split: option.split sum.split)

text \<open>What \<open>password_reset_request\<close> has seen when it logs.\<close>

lemma reset_request_logs:
  assumes v: "liftE (reset_request_validate b) w = (Inr x, w0)"
    and f: "db_op (\<lambda>_. find_by_email (st_env St) (rr_email b)) w0 = (Inr found, w1)"
  shows "found = None \<Longrightarrow> reset_request_events St ip b w (Inr res) = []"
    and "found = Some u \<Longrightarrow> on_gen (\<lambda>_. generate_reset_token (st_digest St) (st_env St)) w1 = (Inr p, w2) \<Longrightarrow>
      now w2 = (Inr t, w3) \<Longrightarrow>
      db_op (\<lambda>_. create_reset_token (st_env St) (user_id u) (snd p) (t + secs 900)) w3 = (Inr z, w4) \<Longrightarrow>
      attemptE (on_mail (send_password_reset (st_env St) (st_email St) (user_email u)
        (reset_link (st_app_base_url St) (fst p)))) w4 = (Inr y, w5) \<Longrightarrow>
      reset_request_events St ip b w (Inr res) = (case y of
        Inl e \<Rightarrow> [log_event Error ''password_reset_email_failed'' [User_Id (user_id u), Email_Failure e]]
      | Inr _ \<Rightarrow> [info ''password_reset_requested'' [User_Id (user_id u), Ip ip]])"
proof -
  note fo = found_email_op [OF f]
  have w0: "w0 = w" using v by simp
  show "reset_request_events St ip b w (Inr res) = []" if "found = None" using that fo w0 by simp
  assume some: "found = Some u"
    and d: "on_gen (\<lambda>_. generate_reset_token (st_digest St) (st_env St)) w1 = (Inr p, w2)"
    and t: "now w2 = (Inr t, w3)"
    and c: "db_op (\<lambda>_. create_reset_token (st_env St) (user_id u) (snd p) (t + secs 900)) w3 = (Inr z, w4)"
    and m: "attemptE (on_mail (send_password_reset (st_env St) (st_email St) (user_email u)
        (reset_link (st_app_base_url St) (fst p)))) w4 = (Inr y, w5)"
  from some fo w0 have u: "user_with_email (db w) (rr_email b) = Some u" by simp
  have "y = reset_mail_result St b u w"
    using fo w0 d now_InrD [OF t] c m user_with_email_Some(2) [OF u]
    by (auto simp: on_gen_iff generate_reset_token_def Let_def drawE_def bindE_def db_op_def on_db_iff attemptE_def
        on_mail_def reset_mail_result_def split: prod.splits)
  with u show "reset_request_events St ip b w (Inr res) = (case y of
        Inl e \<Rightarrow> [log_event Error ''password_reset_email_failed'' [User_Id (user_id u), Email_Failure e]]
      | Inr _ \<Rightarrow> [info ''password_reset_requested'' [User_Id (user_id u), Ip ip]])" by simp
qed

lemma no_draw_error: "on_gen (\<lambda>_. generate_reset_token D L) s \<noteq> (Inl e, s')"
  by (auto simp: on_gen_iff generate_reset_token_def Let_def elim!: bindE_InlE)

lemma appends_reset_request: "appends (reset_request_audited St ip b) w (reset_request_events St ip b w)"
  unfolding reset_request_audited_def bindE_cases_distrib bindE_assoc bindE_okE case_prod_beta'
  by (intro appends_rules; ((drule (6) reset_request_logs(2) [where ip = ip]; simp)
      | (rule reset_request_logs(1); assumption)
      | (auto simp: no_draw_error now_def attemptE_def intro: silences [OF silent_events(7)] errs_rules errs_db_op split: prod.splits)))

section \<open>What a filter shows\<close>

text \<open>A log filtered at \<open>Warn\<close> shows of logins, refreshes and logouts the refused ones, and all of them.\<close>

lemma refusals_visible:
  "visible Warn (login_events \<alpha> ip lg w x) \<noteq> [] \<longleftrightarrow> x = Inl Unauthorized"
  "visible Warn (refresh_events St ip rf w x) \<noteq> [] \<longleftrightarrow> x = Inl Unauthorized"
  "visible Warn (logout_events St ip lo w x) \<noteq> [] \<longleftrightarrow> x = Inl Unauthorized"
proof -
  have cases: "P x" if "\<And>res. P (Inr res)" "P (Inl Unauthorized)" "\<And>e. e \<noteq> Unauthorized \<Longrightarrow> P (Inl e)" for P
    using that by (cases x) (metis sum.exhaust)+
  show "visible Warn (login_events \<alpha> ip lg w x) \<noteq> [] \<longleftrightarrow> x = Inl Unauthorized"
    by (rule cases) (use silent_events(1) [of \<alpha> ip lg w] in \<open>auto simp: Let_def silent_def split: option.split\<close>)
  show "visible Warn (refresh_events St ip rf w x) \<noteq> [] \<longleftrightarrow> x = Inl Unauthorized"
    by (rule cases) (use silent_events(2) [of St ip rf w] in \<open>auto simp: silent_def split: sum.split\<close>)
  show "visible Warn (logout_events St ip lo w x) \<noteq> [] \<longleftrightarrow> x = Inl Unauthorized"
    by (rule cases) (use silent_events(3) [of St ip lo w] in \<open>auto simp: silent_def split: sum.split\<close>)
qed

lemma appends_seen:
  assumes "appends a w F" and "\<And>x. visible Warn (F x) \<noteq> [] \<longleftrightarrow> x = Inl Unauthorized" and "a (w, []) = (x, (w', l))"
  shows "visible Warn l \<noteq> [] \<longleftrightarrow> x = Inl Unauthorized"
  using appendsD [OF assms(1,3)] assms(2) by simp


end
