(* ===== verification/Log_Properties.thy ===== *)
theory Log_Properties
  imports Log_Trail Reference_Service
begin

text \<open>
  The properties of the log: what each handler appends to it, from the tables and the answer.
\<close>

text \<open>
  The log lines change nothing: each handler with its log lines returns the answer, and leaves the
  state, of the handler without them, in every state and whatever the services do.
\<close>

lemma log_changes_nothing:
  "erases (register_audited St ip rg) (register St rg)
    \<and> erases (login_audited St ip lg) (login St lg)
    \<and> erases (refresh_audited St ip rf) (refresh St rf)
    \<and> erases (logout_audited St ip lo) (logout St lo)
    \<and> erases (change_password_audited St ip c cp) (change_password St c cp)
    \<and> erases (delete_me_audited St ip c) (delete_me St c)
    \<and> erases (logout_all_audited St ip c) (logout_all St c)
    \<and> erases (reset_request_audited St ip rr) (password_reset_request St rr)
    \<and> erases (reset_confirm_audited St ip rc) (password_reset_confirm St rc)"
  by (intro conjI erases_register erases_login erases_refresh erases_logout erases_change_password
      erases_delete_me erases_logout_all erases_reset_request erases_reset_confirm)

text \<open>
  C14. What a request leaves in the log is a function of the state before it and of its answer. A
  handler appends to the log exactly the events of its definition in \<open>Log_Trail\<close>, and
  nothing else: none holds a password, a token or a hash. A login that succeeds logs the id of the
  account of the address; one that is unauthorized logs a warning with the reason
  \<open>account_locked\<close> exactly if the address has ten failures, \<open>unknown_email\<close>
  exactly if it has fewer and no account, and otherwise \<open>invalid_password\<close> with the number
  of failures counted with this one. Refresh and logout log the subject of the token, or a warning that
  the token is invalid or revoked; a change of password logs a warning only if the user is still stored;
  a logout everywhere logs the number of tokens in the index; a reset request for an account logs
  whether the mail went out, a confirmation the owner of the token. A registration logs the id of its
  answer or a conflict. No event comes from a request that fails validation, from an error of the
  services, from the 400 of an unknown reset token, from the 401 of a user who is not stored any more,
  or from a reset request for an unknown address. So a log filtered at warnings shows the refused
  logins, refreshes and logouts, and none that was answered otherwise. Assumed: the contract of the
  cache, that the signing library signs, and that the entries in the cache have the types that the
  stores write, the counter within 32 bits.
\<close>

theorem outcomes_logged:
  assumes "session_cache (st_redis St) \<alpha> (st_uuid St)" and "signs St"
    and "well_typed (st_uuid St) (\<alpha> (cache w))" and "counter_at (clock w) (\<alpha> (cache w)) (login_email lg)"
  shows "appends (register_audited St ip rg) w (register_events ip rg)
    \<and> appends (login_audited St ip lg) w (login_events \<alpha> ip lg w)
    \<and> appends (refresh_audited St ip rf) w (refresh_events St ip rf w)
    \<and> appends (logout_audited St ip lo) w (logout_events St ip lo w)
    \<and> appends (change_password_audited St ip c cp) w (change_password_events ip (c_sub c) w)
    \<and> appends (delete_me_audited St ip c) w (delete_me_events ip (c_sub c))
    \<and> appends (logout_all_audited St ip c) w (logout_all_events St \<alpha> ip (c_sub c) w)
    \<and> appends (reset_request_audited St ip rr) w (reset_request_events St ip rr w)
    \<and> appends (reset_confirm_audited St ip rc) w (reset_confirm_events St ip rc w)
    \<and> (\<forall>x w' l. (login_audited St ip lg (w, []) = (x, (w', l)) \<or> refresh_audited St ip rf (w, []) = (x, (w', l))
          \<or> logout_audited St ip lo (w, []) = (x, (w', l)))
        \<longrightarrow> (visible Warn l \<noteq> [] \<longleftrightarrow> x = Inl Unauthorized))"
proof -
  have cache: "redis_service (st_redis St) \<alpha>" using assms(1) by (simp add: session_cache_def)
  note logs = appends_login [OF cache assms(2,4), of ip] appends_refresh [OF assms(2), of ip rf w]
    appends_logout [of St ip lo w]
  have seen: "visible Warn l \<noteq> [] \<longleftrightarrow> x = Inl Unauthorized"
    if "login_audited St ip lg (w, []) = (x, (w', l)) \<or> refresh_audited St ip rf (w, []) = (x, (w', l))
      \<or> logout_audited St ip lo (w, []) = (x, (w', l))" for x w' l
    using that appends_seen [OF logs(1) refusals_visible(1)] appends_seen [OF logs(2) refusals_visible(2)]
      appends_seen [OF logs(3) refusals_visible(3)] by blast
  show ?thesis
    by (intro conjI allI impI logs appends_register appends_change_password appends_delete_me appends_reset_request
        appends_reset_confirm appends_logout_all [OF assms(1,3)] seen)
qed

lemma outcomes_logged_witness:
  "\<exists>w. login_audited ref_state ''10.0.0.1'' \<lparr>login_email = ''a@b.c'', login_password = ''wrong''\<rparr> (ref_session, [])
    = (Inl Unauthorized, (w, [warn ''login_failed''
         [Email ''a@b.c'', Ip ''10.0.0.1'', Attempts 1, Reason ''invalid_password'']]))"
proof -
  let ?b = "\<lparr>login_email = ''a@b.c'', login_password = ''wrong''\<rparr>"
  have signs: "signs ref_state" by (simp add: signs_def ref_encode_def)
  have "distinct (ref_drawn (gen ref_session))" by (simp add: ref_worlds ref_drawn_def)
  note inv = ref.reachable_svc(2) [OF ref_reachable this]
  obtain x w l where run: "login_audited ref_state ''10.0.0.1'' ?b (ref_session, []) = (x, (w, l))"
    using prod_cases3 by blast
  have "fst (login ref_state ?b ref_session) = Inl Unauthorized"
    by (simp add: eval ref_worlds cong: eval_cong)
  then have x: "x = Inl Unauthorized"
    using erases_login [of ref_state "''10.0.0.1''" ?b] run unfolding erases_def by (metis fst_conv)
  have "lockout_failures (clock ref_session) (fst (cache ref_session)) ''a@b.c'' = 0"
    and "user_with_email (db ref_session) ''a@b.c'' = Some ref_user"
    by (simp_all add: lockout_failures_def lookup_def user_with_email_def ref_worlds)
  moreover have app: "appends (login_audited ref_state ''10.0.0.1'' ?b) ref_session (login_events fst ''10.0.0.1'' ?b ref_session)"
    using outcomes_logged [where \<alpha> = fst, OF _ signs ref.svc_typed [OF inv] counters_ok_at [OF ref.svc_counters [OF inv]],
        of "''10.0.0.1''" _ ?b] ref_cache.session_cache_axioms by simp
  ultimately show ?thesis using appendsD [OF app run] run x by (auto simp: Let_def)
qed

end
