(* ===== verification/Wire.thy ===== *)
theory Wire
  imports Api_Error
begin

text \<open>
  The response structs of \<open>src/routes/mod.rs\<close> as the JSON objects that serde makes of them, and the
  object in the body of a response, which a client reads by the names of its fields. A \<open>Uuid\<close> is
  serialised as its text.
\<close>

definition register_response_fields :: "uuid_lib \<Rightarrow> uuid \<Rightarrow> string \<Rightarrow> json_object" where
  "register_response_fields U uid email = [(''id'', uuid_show U uid), (''email'', email)]"

definition login_response_fields :: "string \<Rightarrow> string \<Rightarrow> json_object" where
  "login_response_fields access_token refresh_token =
     [(''access_token'', access_token), (''refresh_token'', refresh_token)]"

definition me_response_fields :: "uuid_lib \<Rightarrow> uuid \<Rightarrow> string \<Rightarrow> json_object" where
  "me_response_fields U uid email = [(''id'', uuid_show U uid), (''email'', email)]"

definition health_response_fields :: "string \<Rightarrow> string \<Rightarrow> json_object" where
  "health_response_fields db redis = [(''db'', db), (''redis'', redis)]"

lemmas response_fields = register_response_fields_def login_response_fields_def me_response_fields_def
  health_response_fields_def

text \<open>A body that is not JSON has no fields.\<close>

fun body_fields :: "uuid_lib \<Rightarrow> body \<Rightarrow> json_object option" where
  "body_fields U No_Body = None"
| "body_fields U (Text _) = None"
| "body_fields U (Register_Response uid email) = Some (register_response_fields U uid email)"
| "body_fields U (Login_Response access_token refresh_token)
     = Some (login_response_fields access_token refresh_token)"
| "body_fields U (Me_Response uid email) = Some (me_response_fields U uid email)"
| "body_fields U (Health_Response db redis) = Some (health_response_fields db redis)"

end
