(* ===== verification/Api_Tests.thy ===== *)
theory Api_Tests
  imports Integration_Harness
begin

text \<open>
  The integration tests of \<open>src/tests/api.rs\<close>, each with the name of its function and its calls in their
  order; an answer that a test does not look at is bound to nothing.
\<close>

section \<open>Registration and login\<close>

definition register_returns_201_with_user_info ::
    "('r, 'g, 'l, 's) test_bed \<Rightarrow> ('r, 'g, unit) test_io" where
  "register_returns_201_with_user_info B =
     bindE (spawn_app B) (\<lambda>base.
     bindE (register_alice base) (\<lambda>res.
     bindE (assert_status res 201) (\<lambda>_.
     bindE (json_of base res) (\<lambda>body.
     bindE (assertE (index body ''email'' = Some ''alice@example.com'')) (\<lambda>_.
     assertE (index body ''id'' \<noteq> None))))))"

definition register_duplicate_email_returns_409 ::
    "('r, 'g, 'l, 's) test_bed \<Rightarrow> ('r, 'g, unit) test_io" where
  "register_duplicate_email_returns_409 B =
     bindE (spawn_app B) (\<lambda>base.
     bindE (register_alice base) (\<lambda>_.
     bindE (register_alice base) (\<lambda>res.
     assert_status res 409)))"

definition login_with_valid_credentials_returns_tokens ::
    "('r, 'g, 'l, 's) test_bed \<Rightarrow> ('r, 'g, unit) test_io" where
  "login_with_valid_credentials_returns_tokens B =
     bindE (spawn_app B) (\<lambda>base.
     bindE (register_alice base) (\<lambda>_.
     bindE (login_alice base ''hunter2!'') (\<lambda>res.
     bindE (assert_status res 200) (\<lambda>_.
     bindE (json_of base res) (\<lambda>body.
     bindE (assertE (index body ''access_token'' \<noteq> None)) (\<lambda>_.
     assertE (index body ''refresh_token'' \<noteq> None)))))))"

definition login_with_wrong_password_returns_401 ::
    "('r, 'g, 'l, 's) test_bed \<Rightarrow> ('r, 'g, unit) test_io" where
  "login_with_wrong_password_returns_401 B =
     bindE (spawn_app B) (\<lambda>base.
     bindE (register_alice base) (\<lambda>_.
     bindE (login_alice base ''wrongpass'') (\<lambda>res.
     assert_status res 401)))"

definition login_with_unknown_email_returns_401 ::
    "('r, 'g, 'l, 's) test_bed \<Rightarrow> ('r, 'g, unit) test_io" where
  "login_with_unknown_email_returns_401 B =
     bindE (spawn_app B) (\<lambda>base.
     bindE (post_json base ''/login'' (credentials ''ghost@example.com'' ''anything'')) (\<lambda>res.
     assert_status res 401))"

section \<open>The authenticated user\<close>

definition me_with_valid_access_token_returns_user ::
    "('r, 'g, 'l, 's) test_bed \<Rightarrow> ('r, 'g, unit) test_io" where
  "me_with_valid_access_token_returns_user B =
     bindE (spawn_app B) (\<lambda>base.
     bindE (register_alice base) (\<lambda>_.
     bindE (login_alice base ''hunter2!'') (\<lambda>login_res.
     bindE (json_of base login_res) (\<lambda>login.
     bindE (as_str login ''access_token'') (\<lambda>token.
     bindE (send base Get ''/me'' (Some token) None) (\<lambda>res.
     bindE (assert_status res 200) (\<lambda>_.
     bindE (json_of base res) (\<lambda>body.
     bindE (assertE (index body ''email'' = Some ''alice@example.com'')) (\<lambda>_.
     assertE (index body ''id'' \<noteq> None))))))))))"

definition me_without_token_returns_401 ::
    "('r, 'g, 'l, 's) test_bed \<Rightarrow> ('r, 'g, unit) test_io" where
  "me_without_token_returns_401 B =
     bindE (spawn_app B) (\<lambda>base.
     bindE (send base Get ''/me'' None None) (\<lambda>res.
     assert_status res 401))"

definition me_rejects_refresh_token ::
    "('r, 'g, 'l, 's) test_bed \<Rightarrow> ('r, 'g, unit) test_io" where
  "me_rejects_refresh_token B =
     bindE (spawn_app B) (\<lambda>base.
     bindE (register_alice base) (\<lambda>_.
     bindE (login_alice base ''hunter2!'') (\<lambda>login_res.
     bindE (json_of base login_res) (\<lambda>login.
     bindE (as_str login ''refresh_token'') (\<lambda>token.
     bindE (send base Get ''/me'' (Some token) None) (\<lambda>res.
     assert_status res 401))))))"

section \<open>Refresh and logout\<close>

definition refresh_issues_new_tokens_and_revokes_old ::
    "('r, 'g, 'l, 's) test_bed \<Rightarrow> ('r, 'g, unit) test_io" where
  "refresh_issues_new_tokens_and_revokes_old B =
     bindE (spawn_app B) (\<lambda>base.
     bindE (register_alice base) (\<lambda>_.
     bindE (login_alice base ''hunter2!'') (\<lambda>login_res.
     bindE (json_of base login_res) (\<lambda>login.
     bindE (as_str login ''refresh_token'') (\<lambda>old_refresh.
     bindE (post_json base ''/refresh'' [(''refresh_token'', Some old_refresh)]) (\<lambda>refreshed_res.
     bindE (json_of base refreshed_res) (\<lambda>refreshed.
     bindE (assertE (index refreshed ''access_token'' \<noteq> None)) (\<lambda>_.
     bindE (assertE (index refreshed ''refresh_token'' \<noteq> index login ''refresh_token'')) (\<lambda>_.
     bindE (post_json base ''/refresh'' [(''refresh_token'', Some old_refresh)]) (\<lambda>replay.
     assert_status replay 401))))))))))"

definition refresh_rejects_access_token ::
    "('r, 'g, 'l, 's) test_bed \<Rightarrow> ('r, 'g, unit) test_io" where
  "refresh_rejects_access_token B =
     bindE (spawn_app B) (\<lambda>base.
     bindE (register_alice base) (\<lambda>_.
     bindE (login_alice base ''hunter2!'') (\<lambda>login_res.
     bindE (json_of base login_res) (\<lambda>login.
     bindE (post_json base ''/refresh'' [(''refresh_token'', index login ''access_token'')]) (\<lambda>res.
     assert_status res 401)))))"

definition logout_returns_204_and_revokes_refresh_token ::
    "('r, 'g, 'l, 's) test_bed \<Rightarrow> ('r, 'g, unit) test_io" where
  "logout_returns_204_and_revokes_refresh_token B =
     bindE (spawn_app B) (\<lambda>base.
     bindE (register_alice base) (\<lambda>_.
     bindE (login_alice base ''hunter2!'') (\<lambda>login_res.
     bindE (json_of base login_res) (\<lambda>login.
     bindE (as_str login ''refresh_token'') (\<lambda>token.
     bindE (post_json base ''/logout'' [(''refresh_token'', Some token)]) (\<lambda>logged_out.
     bindE (assert_status logged_out 204) (\<lambda>_.
     bindE (post_json base ''/refresh'' [(''refresh_token'', Some token)]) (\<lambda>replay.
     assert_status replay 401))))))))"

section \<open>Validation\<close>

definition register_with_invalid_email_returns_422 ::
    "('r, 'g, 'l, 's) test_bed \<Rightarrow> ('r, 'g, unit) test_io" where
  "register_with_invalid_email_returns_422 B =
     bindE (spawn_app B) (\<lambda>base.
     forE [''notanemail'', ''@example.com'', ''user@nodot'', ''user@example.'', ''a@b@c.com''] (\<lambda>email.
       bindE (post_json base ''/register'' (credentials email ''password123'')) (\<lambda>res.
       assert_status res 422)))"

definition register_with_empty_password_returns_422 ::
    "('r, 'g, 'l, 's) test_bed \<Rightarrow> ('r, 'g, unit) test_io" where
  "register_with_empty_password_returns_422 B =
     bindE (spawn_app B) (\<lambda>base.
     bindE (post_json base ''/register'' (credentials ''alice@example.com'' '''')) (\<lambda>res.
     assert_status res 422))"

definition register_with_short_password_returns_422 ::
    "('r, 'g, 'l, 's) test_bed \<Rightarrow> ('r, 'g, unit) test_io" where
  "register_with_short_password_returns_422 B =
     bindE (spawn_app B) (\<lambda>base.
     bindE (post_json base ''/register'' (credentials ''alice@example.com'' ''short'')) (\<lambda>res.
     assert_status res 422))"

definition register_with_password_over_128_chars_returns_422 ::
    "('r, 'g, 'l, 's) test_bed \<Rightarrow> ('r, 'g, unit) test_io" where
  "register_with_password_over_128_chars_returns_422 B =
     bindE (spawn_app B) (\<lambda>base.
     bindE (post_json base ''/register'' (credentials ''alice@example.com'' (repeat_a 129))) (\<lambda>res.
     assert_status res 422))"

definition login_with_invalid_email_returns_422 ::
    "('r, 'g, 'l, 's) test_bed \<Rightarrow> ('r, 'g, unit) test_io" where
  "login_with_invalid_email_returns_422 B =
     bindE (spawn_app B) (\<lambda>base.
     forE [''notanemail'', ''@example.com'', ''user@nodot'', ''a@b@c.com''] (\<lambda>email.
       bindE (post_json base ''/login'' (credentials email ''anypassword'')) (\<lambda>res.
       assert_status res 422)))"

definition login_with_empty_password_returns_422 ::
    "('r, 'g, 'l, 's) test_bed \<Rightarrow> ('r, 'g, unit) test_io" where
  "login_with_empty_password_returns_422 B =
     bindE (spawn_app B) (\<lambda>base.
     bindE (post_json base ''/login'' (credentials ''alice@example.com'' '''')) (\<lambda>res.
     assert_status res 422))"

definition login_with_password_over_128_chars_returns_422 ::
    "('r, 'g, 'l, 's) test_bed \<Rightarrow> ('r, 'g, unit) test_io" where
  "login_with_password_over_128_chars_returns_422 B =
     bindE (spawn_app B) (\<lambda>base.
     bindE (post_json base ''/login'' (credentials ''alice@example.com'' (repeat_a 129))) (\<lambda>res.
     assert_status res 422))"

definition refresh_with_empty_token_returns_422 ::
    "('r, 'g, 'l, 's) test_bed \<Rightarrow> ('r, 'g, unit) test_io" where
  "refresh_with_empty_token_returns_422 B =
     bindE (spawn_app B) (\<lambda>base.
     bindE (post_json base ''/refresh'' [(''refresh_token'', Some [])]) (\<lambda>res.
     assert_status res 422))"

definition logout_with_empty_token_returns_422 ::
    "('r, 'g, 'l, 's) test_bed \<Rightarrow> ('r, 'g, unit) test_io" where
  "logout_with_empty_token_returns_422 B =
     bindE (spawn_app B) (\<lambda>base.
     bindE (post_json base ''/logout'' [(''refresh_token'', Some [])]) (\<lambda>res.
     assert_status res 422))"

section \<open>Change of password\<close>

definition new_passwords :: "string \<Rightarrow> string \<Rightarrow> json_body" where
  "new_passwords current new = [(''current_password'', Some current), (''new_password'', Some new)]"

definition change_password_returns_204_and_allows_login_with_new ::
    "('r, 'g, 'l, 's) test_bed \<Rightarrow> ('r, 'g, unit) test_io" where
  "change_password_returns_204_and_allows_login_with_new B =
     bindE (spawn_app B) (\<lambda>base.
     bindE (register_and_login base) (\<lambda>tokens.
     bindE (as_str tokens ''access_token'') (\<lambda>token.
     bindE (send base Patch ''/me/password'' (Some token) (Some (new_passwords ''hunter2!'' ''new_secret!''))) (\<lambda>res.
     bindE (assert_status res 204) (\<lambda>_.
     bindE (login_alice base ''new_secret!'') (\<lambda>login_new.
     bindE (assert_status login_new 200) (\<lambda>_.
     bindE (login_alice base ''hunter2!'') (\<lambda>login_old.
     assert_status login_old 401))))))))"

definition change_password_with_wrong_current_returns_401 ::
    "('r, 'g, 'l, 's) test_bed \<Rightarrow> ('r, 'g, unit) test_io" where
  "change_password_with_wrong_current_returns_401 B =
     bindE (spawn_app B) (\<lambda>base.
     bindE (register_and_login base) (\<lambda>tokens.
     bindE (as_str tokens ''access_token'') (\<lambda>token.
     bindE (send base Patch ''/me/password'' (Some token) (Some (new_passwords ''wrongpassword'' ''new_secret!''))) (\<lambda>res.
     assert_status res 401))))"

definition change_password_without_token_returns_401 ::
    "('r, 'g, 'l, 's) test_bed \<Rightarrow> ('r, 'g, unit) test_io" where
  "change_password_without_token_returns_401 B =
     bindE (spawn_app B) (\<lambda>base.
     bindE (send base Patch ''/me/password'' None (Some (new_passwords ''hunter2!'' ''new_secret!''))) (\<lambda>res.
     assert_status res 401))"

definition change_password_with_short_new_password_returns_422 ::
    "('r, 'g, 'l, 's) test_bed \<Rightarrow> ('r, 'g, unit) test_io" where
  "change_password_with_short_new_password_returns_422 B =
     bindE (spawn_app B) (\<lambda>base.
     bindE (register_and_login base) (\<lambda>tokens.
     bindE (as_str tokens ''access_token'') (\<lambda>token.
     bindE (send base Patch ''/me/password'' (Some token) (Some (new_passwords ''hunter2!'' ''short''))) (\<lambda>res.
     assert_status res 422))))"

section \<open>Deletion\<close>

definition delete_me_returns_204_and_prevents_login ::
    "('r, 'g, 'l, 's) test_bed \<Rightarrow> ('r, 'g, unit) test_io" where
  "delete_me_returns_204_and_prevents_login B =
     bindE (spawn_app B) (\<lambda>base.
     bindE (register_and_login base) (\<lambda>tokens.
     bindE (as_str tokens ''access_token'') (\<lambda>token.
     bindE (send base Delete ''/me'' (Some token) None) (\<lambda>res.
     bindE (assert_status res 204) (\<lambda>_.
     bindE (login_alice base ''hunter2!'') (\<lambda>login_after.
     assert_status login_after 401))))))"

definition delete_me_without_token_returns_401 ::
    "('r, 'g, 'l, 's) test_bed \<Rightarrow> ('r, 'g, unit) test_io" where
  "delete_me_without_token_returns_401 B =
     bindE (spawn_app B) (\<lambda>base.
     bindE (send base Delete ''/me'' None None) (\<lambda>res.
     assert_status res 401))"

section \<open>Lockout\<close>

text \<open>The address is made unique by a UUID that the test draws, \<open>u\<close>.\<close>

definition lockout_email :: "('r, 'g, 'l, 's) test_bed \<Rightarrow> uuid \<Rightarrow> string" where
  "lockout_email B u = ''lockout-'' @ uuid_show (su_uuid (tb_lib B)) u @ ''@example.com''"

text \<open>Any number of logins, whose answers are not looked at.\<close>

definition fail_logins :: "('r, 'g) test_app \<Rightarrow> nat \<Rightarrow> string \<Rightarrow> ('r, 'g, unit) test_io" where
  "fail_logins base n email =
     forE [0..<n] (\<lambda>_. bindE (post_json base ''/login'' (credentials email ''wrongpass'')) (\<lambda>_. okE ()))"

definition login_locked_after_10_failed_attempts ::
    "('r, 'g, 'l, 's) test_bed \<Rightarrow> uuid \<Rightarrow> ('r, 'g, unit) test_io" where
  "login_locked_after_10_failed_attempts B u =
     bindE (spawn_app B) (\<lambda>base.
     let email = lockout_email B u in
     bindE (post_json base ''/register'' (credentials email ''hunter2!'')) (\<lambda>_.
     bindE (fail_logins base 10 email) (\<lambda>_.
     bindE (post_json base ''/login'' (credentials email ''hunter2!'')) (\<lambda>res.
     assert_status res 401))))"

definition successful_login_resets_lockout_counter ::
    "('r, 'g, 'l, 's) test_bed \<Rightarrow> uuid \<Rightarrow> ('r, 'g, unit) test_io" where
  "successful_login_resets_lockout_counter B u =
     bindE (spawn_app B) (\<lambda>base.
     let email = lockout_email B u in
     bindE (post_json base ''/register'' (credentials email ''hunter2!'')) (\<lambda>_.
     bindE (fail_logins base 9 email) (\<lambda>_.
     bindE (post_json base ''/login'' (credentials email ''hunter2!'')) (\<lambda>res.
     bindE (assert_status res 200) (\<lambda>_.
     bindE (fail_logins base 9 email) (\<lambda>_.
     bindE (post_json base ''/login'' (credentials email ''hunter2!'')) (\<lambda>res.
     assert_status res 200)))))))"

section \<open>Logout of all sessions\<close>

definition logout_all_revokes_all_sessions ::
    "('r, 'g, 'l, 's) test_bed \<Rightarrow> ('r, 'g, unit) test_io" where
  "logout_all_revokes_all_sessions B =
     bindE (spawn_app B) (\<lambda>base.
     bindE (register_alice base) (\<lambda>_.
     bindE (login_alice base ''hunter2!'') (\<lambda>login1_res.
     bindE (json_of base login1_res) (\<lambda>login1.
     bindE (login_alice base ''hunter2!'') (\<lambda>login2_res.
     bindE (json_of base login2_res) (\<lambda>login2.
     bindE (as_str login1 ''access_token'') (\<lambda>token.
     bindE (send base Post ''/me/sessions/revoke-all'' (Some token) None) (\<lambda>res.
     bindE (assert_status res 204) (\<lambda>_.
     bindE (post_json base ''/refresh'' [(''refresh_token'', index login1 ''refresh_token'')]) (\<lambda>replay1.
     bindE (assert_status replay1 401) (\<lambda>_.
     bindE (post_json base ''/refresh'' [(''refresh_token'', index login2 ''refresh_token'')]) (\<lambda>replay2.
     assert_status replay2 401))))))))))))"

definition logout_all_without_token_returns_401 ::
    "('r, 'g, 'l, 's) test_bed \<Rightarrow> ('r, 'g, unit) test_io" where
  "logout_all_without_token_returns_401 B =
     bindE (spawn_app B) (\<lambda>base.
     bindE (send base Post ''/me/sessions/revoke-all'' None None) (\<lambda>res.
     assert_status res 401))"

definition logout_all_with_no_active_sessions_returns_204 ::
    "('r, 'g, 'l, 's) test_bed \<Rightarrow> ('r, 'g, unit) test_io" where
  "logout_all_with_no_active_sessions_returns_204 B =
     bindE (spawn_app B) (\<lambda>base.
     bindE (register_and_login base) (\<lambda>tokens.
     bindE (post_json base ''/logout'' [(''refresh_token'', index tokens ''refresh_token'')]) (\<lambda>_.
     bindE (as_str tokens ''access_token'') (\<lambda>token.
     bindE (send base Post ''/me/sessions/revoke-all'' (Some token) None) (\<lambda>res.
     assert_status res 204)))))"

section \<open>Health\<close>

definition health_returns_200_when_db_and_redis_are_up ::
    "('r, 'g, 'l, 's) test_bed \<Rightarrow> ('r, 'g, unit) test_io" where
  "health_returns_200_when_db_and_redis_are_up B =
     bindE (spawn_app B) (\<lambda>base.
     bindE (send base Get ''/health'' None None) (\<lambda>res.
     bindE (assert_status res 200) (\<lambda>_.
     bindE (json_of base res) (\<lambda>body.
     bindE (assertE (index body ''db'' = Some ''ok'')) (\<lambda>_.
     assertE (index body ''redis'' = Some ''ok''))))))"

end
