(* ===== verification/Reset_Tests.thy ===== *)
theory Reset_Tests
  imports Integration_Harness
begin

text \<open>
  The integration tests of \<open>src/tests/password_reset.rs\<close>, with the search in the mailed link that they
  make: \<open>find\<close> and \<open>split\<close> of \<open>str\<close>, for a separator that is not empty.
\<close>

section \<open>The token in a link\<close>

fun find_sub :: "string \<Rightarrow> string \<Rightarrow> nat option" where
  "find_sub p [] = (if p = [] then Some 0 else None)"
| "find_sub p (c # cs) = (case strip_prefix p (c # cs) of
       Some _ \<Rightarrow> Some 0
     | None \<Rightarrow> map_option Suc (find_sub p cs))"

lemma find_sub_Some: "find_sub p s = Some i \<Longrightarrow> i + length p \<le> length s"
proof (induction s arbitrary: i)
  case Nil
  then show ?case by (auto split: if_splits)
next
  case (Cons c cs)
  show ?case
  proof (cases "strip_prefix p (c # cs)")
    case None
    with Cons show ?thesis by auto
  next
    case (Some r)
    then have "c # cs = p @ r" by (simp add: strip_prefix_iff)
    then have "length p \<le> length (c # cs)" by (metis length_append le_add1)
    with Cons.prems Some show ?thesis by simp
  qed
qed

lemma find_sub_shrinks:
  assumes "find_sub p s = Some i" and "p \<noteq> []"
  shows "length s - (i + length p) < length s"
  using find_sub_Some [OF assms(1)] assms(2) by (cases p) auto

function split_str :: "string \<Rightarrow> string \<Rightarrow> string list" where
  "split_str sep s = (case find_sub sep s of
       None \<Rightarrow> [s]
     | Some i \<Rightarrow> if sep = [] then [s] else take i s # split_str sep (drop (i + length sep) s))"
  by pat_completeness auto

termination
  by (relation "measure (\<lambda>(_, s). length s)") (auto simp: find_sub_shrinks)

declare split_str.simps [simp del]

definition extract_token :: "string \<Rightarrow> ('r, 'g, string) test_io" where
  "extract_token link = (let parts = split_str ''token='' link in
     expectE (if 1 < length parts then Some (parts ! 1) else None))"

text \<open>An index that panics out of range.\<close>

definition nth_mail :: "(string \<times> string) list \<Rightarrow> nat \<Rightarrow> ('r, 'g, string \<times> string) test_io" where
  "nth_mail emails i = expectE (if i < length emails then Some (emails ! i) else None)"

section \<open>Requesting a reset\<close>

definition request_returns_200_for_registered_email ::
    "('r, 'g, 'l, 's) test_bed \<Rightarrow> ('r, 'g, unit) test_io" where
  "request_returns_200_for_registered_email B =
     bindE (spawn_app B) (\<lambda>base.
     bindE (register_alice base) (\<lambda>_.
     bindE (post_json base ''/password-reset/request'' [(''email'', Some ''alice@example.com'')]) (\<lambda>res.
     assert_status res 200)))"

definition request_returns_200_for_unknown_email ::
    "('r, 'g, 'l, 's) test_bed \<Rightarrow> ('r, 'g, unit) test_io" where
  "request_returns_200_for_unknown_email B =
     bindE (spawn_app B) (\<lambda>base.
     bindE (post_json base ''/password-reset/request'' [(''email'', Some ''ghost@example.com'')]) (\<lambda>res.
     assert_status res 200))"

definition request_sends_email_with_reset_link ::
    "('r, 'g, 'l, 's) test_bed \<Rightarrow> ('r, 'g, unit) test_io" where
  "request_sends_email_with_reset_link B =
     bindE (spawn_app B) (\<lambda>base.
     bindE (register_alice base) (\<lambda>_.
     bindE (post_json base ''/password-reset/request'' [(''email'', Some ''alice@example.com'')]) (\<lambda>_.
     bindE (captured) (\<lambda>emails.
     bindE (assertE (length emails = 1)) (\<lambda>_.
     bindE (nth_mail emails 0) (\<lambda>mail.
     bindE (assertE (fst mail = ''alice@example.com'')) (\<lambda>_.
     assertE (find_sub ''token='' (snd mail) \<noteq> None))))))))"

definition request_does_not_send_email_for_unknown_address ::
    "('r, 'g, 'l, 's) test_bed \<Rightarrow> ('r, 'g, unit) test_io" where
  "request_does_not_send_email_for_unknown_address B =
     bindE (spawn_app B) (\<lambda>base.
     bindE (post_json base ''/password-reset/request'' [(''email'', Some ''ghost@example.com'')]) (\<lambda>_.
     bindE (captured) (\<lambda>emails.
     assertE (emails = []))))"

definition request_with_invalid_email_returns_422 ::
    "('r, 'g, 'l, 's) test_bed \<Rightarrow> ('r, 'g, unit) test_io" where
  "request_with_invalid_email_returns_422 B =
     bindE (spawn_app B) (\<lambda>base.
     bindE (post_json base ''/password-reset/request'' [(''email'', Some ''notanemail'')]) (\<lambda>res.
     assert_status res 422))"

section \<open>Confirming a reset\<close>

definition confirm_resets_password_and_allows_login_with_new ::
    "('r, 'g, 'l, 's) test_bed \<Rightarrow> ('r, 'g, unit) test_io" where
  "confirm_resets_password_and_allows_login_with_new B =
     bindE (spawn_app B) (\<lambda>base.
     bindE (register_alice base) (\<lambda>_.
     bindE (post_json base ''/password-reset/request'' [(''email'', Some ''alice@example.com'')]) (\<lambda>_.
     bindE (captured) (\<lambda>emails.
     bindE (nth_mail emails 0) (\<lambda>mail.
     bindE (extract_token (snd mail)) (\<lambda>token.
     bindE (post_json base ''/password-reset/confirm'' [(''token'', Some token), (''new_password'', Some ''new_secret!'')]) (\<lambda>res.
     bindE (assert_status res 200) (\<lambda>_.
     bindE (login_alice base ''new_secret!'') (\<lambda>login_new.
     bindE (assert_status login_new 200) (\<lambda>_.
     bindE (login_alice base ''hunter2!'') (\<lambda>old_login.
     assert_status old_login 401)))))))))))"

definition confirm_revokes_all_existing_sessions ::
    "('r, 'g, 'l, 's) test_bed \<Rightarrow> ('r, 'g, unit) test_io" where
  "confirm_revokes_all_existing_sessions B =
     bindE (spawn_app B) (\<lambda>base.
     bindE (register_alice base) (\<lambda>_.
     bindE (login_alice base ''hunter2!'') (\<lambda>login_res.
     bindE (json_of base login_res) (\<lambda>login.
     bindE (post_json base ''/password-reset/request'' [(''email'', Some ''alice@example.com'')]) (\<lambda>_.
     bindE (captured) (\<lambda>emails.
     bindE (nth_mail emails 0) (\<lambda>mail.
     bindE (extract_token (snd mail)) (\<lambda>token.
     bindE (post_json base ''/password-reset/confirm'' [(''token'', Some token), (''new_password'', Some ''new_secret!'')]) (\<lambda>_.
     bindE (post_json base ''/refresh'' [(''refresh_token'', index login ''refresh_token'')]) (\<lambda>refreshed.
     assert_status refreshed 401))))))))))"

definition confirm_token_is_single_use ::
    "('r, 'g, 'l, 's) test_bed \<Rightarrow> ('r, 'g, unit) test_io" where
  "confirm_token_is_single_use B =
     bindE (spawn_app B) (\<lambda>base.
     bindE (register_alice base) (\<lambda>_.
     bindE (post_json base ''/password-reset/request'' [(''email'', Some ''alice@example.com'')]) (\<lambda>_.
     bindE (captured) (\<lambda>emails.
     bindE (nth_mail emails 0) (\<lambda>mail.
     bindE (extract_token (snd mail)) (\<lambda>token.
     bindE (post_json base ''/password-reset/confirm'' [(''token'', Some token), (''new_password'', Some ''new_secret!'')]) (\<lambda>_.
     bindE (post_json base ''/password-reset/confirm'' [(''token'', Some token), (''new_password'', Some ''another_pass!'')]) (\<lambda>replay.
     assert_status replay 400))))))))"

definition confirm_with_bogus_token_returns_400 ::
    "('r, 'g, 'l, 's) test_bed \<Rightarrow> ('r, 'g, unit) test_io" where
  "confirm_with_bogus_token_returns_400 B =
     bindE (spawn_app B) (\<lambda>base.
     bindE (post_json base ''/password-reset/confirm'' [(''token'', Some ''totally_fake_token''), (''new_password'', Some ''new_secret!'')]) (\<lambda>res.
     assert_status res 400))"

definition confirm_with_empty_token_returns_422 ::
    "('r, 'g, 'l, 's) test_bed \<Rightarrow> ('r, 'g, unit) test_io" where
  "confirm_with_empty_token_returns_422 B =
     bindE (spawn_app B) (\<lambda>base.
     bindE (post_json base ''/password-reset/confirm'' [(''token'', Some []), (''new_password'', Some ''new_secret!'')]) (\<lambda>res.
     assert_status res 422))"

definition confirm_with_short_new_password_returns_422 ::
    "('r, 'g, 'l, 's) test_bed \<Rightarrow> ('r, 'g, unit) test_io" where
  "confirm_with_short_new_password_returns_422 B =
     bindE (spawn_app B) (\<lambda>base.
     bindE (post_json base ''/password-reset/confirm'' [(''token'', Some ''sometoken''), (''new_password'', Some ''short'')]) (\<lambda>res.
     assert_status res 422))"

end
