(* ===== verification/Integration_Reference.thy ===== *)
theory Integration_Reference
  imports Api_Tests Reset_Tests Startup_Properties
begin

text \<open>
  The bed on which the integration tests are run: the reference libraries, a signing library that reads
  the same key from every PEM, and bodies that are the values of the JSON object, each but the last with
  a semicolon.
\<close>

definition ref_pem_jwt :: jwt_lib where
  "ref_pem_jwt = ref_jwt\<lparr>encoding_key_from_ed_pem := (\<lambda>_. Inr ''key''), decoding_key_from_ed_pem := (\<lambda>_. Inr ''key'')\<rparr>"

text \<open>Reading a PEM does not matter to the laws of the library.\<close>

interpretation ref_pem_jwt: strict_jwt_library ref_pem_jwt "(=)"
proof -
  have same: "validation_new ref_pem_jwt = validation_new ref_jwt" "jwt_encode ref_pem_jwt = jwt_encode ref_jwt"
    "jwt_decode ref_pem_jwt = jwt_decode ref_jwt"
    by (simp_all add: ref_pem_jwt_def)
  show "strict_jwt_library ref_pem_jwt (=)"
    using ref_jwt.strict_jwt_library_axioms
    unfolding strict_jwt_library_def strict_jwt_library_axioms_def jwt_library_def same .
qed

definition value_text :: "string option \<Rightarrow> string" where
  "value_text v = (case v of None \<Rightarrow> ''null'' | Some s \<Rightarrow> s)"

fun json_text :: "json_body \<Rightarrow> string" where
  "json_text [] = []"
| "json_text [(_, v)] = value_text v"
| "json_text ((_, v) # fs) = value_text v @ CHR '';'' # json_text fs"

definition ref_bed :: "(sim_redis, ref_gen, unit, unit) test_bed" where
  "ref_bed = \<lparr>tb_lib = ref_startup\<lparr>su_jwt := ref_pem_jwt\<rparr>, tb_environ = (\<lambda>_. Inl Not_Present),
     tb_pool = \<lparr>pg_next = pg_next ref_env, pg_uuid = pg_uuid ref_env\<rparr>, tb_axum = ref_axum, tb_json = json_text\<rparr>"

definition test_state :: "(sim_redis, ref_gen) app_state" where
  "test_state = ref_state\<lparr>st_jwt_crate := ref_pem_jwt, st_app_base_url := ''http://app.test'',
     st_passwords := \<lparr>argon2 = \<lparr>a_variant = Argon2id, a_version = 19,
       a_params = \<lparr>m_cost = 1024, t_cost = 1, p_cost = 1\<rparr>\<rparr>\<rparr>\<rparr>"

definition ref_app :: "(sim_redis, ref_gen) test_app" where
  "ref_app = \<lparr>ta_routes = build_router, ta_state = test_state, ta_axum = ref_axum, ta_json = json_text\<rparr>"

lemma ref_bed_uuid: "su_uuid (tb_lib ref_bed) = bits_uuid"
  by (simp add: ref_bed_def ref_startup_def)

lemma ref_spawn: "spawn_app ref_bed w = (Inr ref_app, w)"
  by (simp add: spawn_app_def ref_bed_def ref_startup_def ref_pem_jwt_def from_ed25519_pem_def
      password_service_for_testing_def password_service_with_def ref_argon2_def email_client_capturing_def
      unwrapE_def mapErrE_def expectE_def app_state_with_def ref_app_def test_state_def ref_state_def
      ref_manager_def ref_env_def ref_digest_def bindE_def)

lemma test_state_simps [simp]:
  "st_redis test_state = sim_api" "st_uuid test_state = bits_uuid" "st_env test_state = ref_env"
  "st_jwt_crate test_state = ref_pem_jwt" "st_argon2_crate test_state = ref_argon2"
  "st_jwt test_state = ref_manager" "st_to_str test_state = Some" "st_digest test_state = ref_digest"
  "st_email test_state = Capture" "st_app_base_url test_state = ''http://app.test''"
  by (simp_all add: test_state_def ref_state_def)

lemma ref_pem_jwt_simps [simp]:
  "validation_new ref_pem_jwt = ref_validation" "jwt_encode ref_pem_jwt = ref_encode"
  "jwt_decode ref_pem_jwt = ref_decode"
  by (simp_all add: ref_pem_jwt_def)

lemma ref_app_simps [simp]:
  "ta_routes ref_app = build_router" "ta_state ref_app = test_state" "ta_axum ref_app = ref_axum"
  "ta_json ref_app = json_text"
  by (simp_all add: ref_app_def)

text \<open>Different claims have different texts.\<close>

lemma claims_text_inject [simp]: "claims_text c k = claims_text c' k' \<longleftrightarrow> c = c' \<and> k = k'"
  by (metis old.prod.inject option.inject text_claims_text)

lemma repeat_a_simps [simp]: "length (repeat_a n) = n" "repeat_a n = [] \<longleftrightarrow> n = 0"
  by (simp_all add: repeat_a_def)

lemmas eval_client = register_alice_def login_alice_def register_and_login_def post_json_def send_def
  credentials_def new_passwords_def value_text_def

lemmas eval_test = passes_def ref_spawn json_of_def unwrapE_def as_str_def index_def expectE_def assert_status_def
  assertE_def response_fields eval_client

section \<open>The tests of the interface\<close>

lemma registration_tests:
  "passes (register_returns_201_with_user_info ref_bed) ref_world"
  "passes (register_duplicate_email_returns_409 ref_bed) ref_world"
  "passes (login_with_valid_credentials_returns_tokens ref_bed) ref_world"
  "passes (login_with_wrong_password_returns_401 ref_bed) ref_world"
  "passes (login_with_unknown_email_returns_401 ref_bed) ref_world"
  by (simp_all add: register_returns_201_with_user_info_def register_duplicate_email_returns_409_def
      login_with_valid_credentials_returns_tokens_def login_with_wrong_password_returns_401_def
      login_with_unknown_email_returns_401_def
      eval_test eval ref_worlds cong: eval_cong)

lemma me_tests:
  "passes (me_with_valid_access_token_returns_user ref_bed) ref_world"
  "passes (me_without_token_returns_401 ref_bed) ref_world"
  "passes (me_rejects_refresh_token ref_bed) ref_world"
  by (simp_all add: me_with_valid_access_token_returns_user_def me_without_token_returns_401_def
      me_rejects_refresh_token_def
      eval_test eval ref_worlds cong: eval_cong)

lemma refresh_tests:
  "passes (refresh_issues_new_tokens_and_revokes_old ref_bed) ref_world"
  "passes (refresh_rejects_access_token ref_bed) ref_world"
  "passes (logout_returns_204_and_revokes_refresh_token ref_bed) ref_world"
  by (simp_all add: refresh_issues_new_tokens_and_revokes_old_def refresh_rejects_access_token_def
      logout_returns_204_and_revokes_refresh_token_def
      eval_test eval ref_worlds cong: eval_cong)

lemma validation_answers:
  "passes (register_with_invalid_email_returns_422 ref_bed) ref_world"
  "passes (register_with_empty_password_returns_422 ref_bed) ref_world"
  "passes (register_with_short_password_returns_422 ref_bed) ref_world"
  "passes (register_with_password_over_128_chars_returns_422 ref_bed) ref_world"
  "passes (login_with_invalid_email_returns_422 ref_bed) ref_world"
  "passes (login_with_empty_password_returns_422 ref_bed) ref_world"
  "passes (login_with_password_over_128_chars_returns_422 ref_bed) ref_world"
  "passes (refresh_with_empty_token_returns_422 ref_bed) ref_world"
  "passes (logout_with_empty_token_returns_422 ref_bed) ref_world"
  by (simp_all add: register_with_invalid_email_returns_422_def register_with_empty_password_returns_422_def
      register_with_short_password_returns_422_def register_with_password_over_128_chars_returns_422_def
      login_with_invalid_email_returns_422_def login_with_empty_password_returns_422_def
      login_with_password_over_128_chars_returns_422_def refresh_with_empty_token_returns_422_def
      logout_with_empty_token_returns_422_def
      eval_test eval ref_worlds cong: eval_cong)

lemma change_password_tests:
  "passes (change_password_returns_204_and_allows_login_with_new ref_bed) ref_world"
  "passes (change_password_with_wrong_current_returns_401 ref_bed) ref_world"
  "passes (change_password_without_token_returns_401 ref_bed) ref_world"
  "passes (change_password_with_short_new_password_returns_422 ref_bed) ref_world"
  by (simp_all add: change_password_returns_204_and_allows_login_with_new_def
      change_password_with_wrong_current_returns_401_def change_password_without_token_returns_401_def
      change_password_with_short_new_password_returns_422_def
      eval_test eval ref_worlds cong: eval_cong)

lemma deletion_tests:
  "passes (delete_me_returns_204_and_prevents_login ref_bed) ref_world"
  "passes (delete_me_without_token_returns_401 ref_bed) ref_world"
  by (simp_all add: delete_me_returns_204_and_prevents_login_def delete_me_without_token_returns_401_def
      eval_test eval ref_worlds cong: eval_cong)

lemma logout_all_tests:
  "passes (logout_all_revokes_all_sessions ref_bed) ref_world"
  "passes (logout_all_without_token_returns_401 ref_bed) ref_world"
  "passes (logout_all_with_no_active_sessions_returns_204 ref_bed) ref_world"
  by (simp_all add: logout_all_revokes_all_sessions_def logout_all_without_token_returns_401_def
      logout_all_with_no_active_sessions_returns_204_def
      refresh_key_def eval_test eval ref_worlds cong: eval_cong)

lemma health_tests:
  "passes (health_returns_200_when_db_and_redis_are_up ref_bed) ref_world"
  by (simp_all add: health_returns_200_when_db_and_redis_are_up_def
      eval_test eval ref_worlds cong: eval_cong)

section \<open>The tests of the lockout\<close>

lemma lockout_email_7: "lockout_email ref_bed 7 = ''lockout-111@example.com''"
  by (simp add: lockout_email_def ref_bed_uuid) (simp add: bits_uuid_def nat_bits.simps)

text \<open>Each wrong password counts once.\<close>

definition lock_user :: user where
  "lock_user = \<lparr>user_id = 1, user_email = ''lockout-111@example.com'', password_hash = ''salt$hunter2!'',
     created_at = 0, updated_at = 0\<rparr>"

definition lock_world :: "keyspace \<Rightarrow> nat \<Rightarrow> uuid list \<Rightarrow> (sim_redis, ref_gen) world" where
  "lock_world ks m l = \<lparr>clock = 0, db = \<lparr>users = [lock_user], reset_rows = []\<rparr>, cache = (ks, []),
     gen = (m, l, []), sent = []\<rparr>"

definition counted :: "int \<Rightarrow> keyspace \<Rightarrow> keyspace" where
  "counted n ks = (if n = 0 then ks else ks(lockout_key ''lockout-111@example.com'' \<mapsto> (RNum n, Some 900000000)))"

definition uncounted :: "keyspace \<Rightarrow> bool" where
  "uncounted ks \<longleftrightarrow> ks (lockout_key ''lockout-111@example.com'') = None"

lemma lock_register:
  "post_json ref_app ''/register'' (credentials ''lockout-111@example.com'' ''hunter2!'') ref_world
    = (Inr (respond 201 (Register_Response 1 ''lockout-111@example.com'')), lock_world Map.empty 2 [])"
  by (simp add: eval_client eval ref_worlds lock_world_def lock_user_def cong: eval_cong)

lemma lock_wrong:
  assumes "uncounted ks" and "0 \<le> n" and "n < 10"
  shows "post_json ref_app ''/login'' (credentials ''lockout-111@example.com'' ''wrongpass'')
      (lock_world (counted n ks) m l)
    = (Inr (into_response Unauthorized), lock_world (counted (n + 1) ks) m l)"
proof -
  have "n + 1 \<noteq> 0" "n \<noteq> redis_max" "\<not> redis_max < n + 1" "\<not> (of_int n :: u32) \<ge> 10"
    using assms(2,3) by (auto simp: redis_max_def word_le_def uint_word_of_int)
  with assms show ?thesis
    by (cases "n = 0") (simp_all add: eval_client eval lock_world_def lock_user_def counted_def uncounted_def fun_eq_iff cong: eval_cong)
qed

lemma lock_wrong_many:
  assumes "uncounted ks" and "0 \<le> n" and "n + int (length xs) \<le> 10"
  shows "forE xs (\<lambda>_. bindE (post_json ref_app ''/login'' (credentials ''lockout-111@example.com'' ''wrongpass''))
      (\<lambda>_. okE ())) (lock_world (counted n ks) m l)
    = (Inr (), lock_world (counted (n + int (length xs)) ks) m l)"
  using assms(2,3)
proof (induction xs arbitrary: n)
  case (Cons x xs)
  have "n < 10" using Cons.prems by simp
  from lock_wrong [OF assms(1) Cons.prems(1) this] Cons.IH [of "n + 1"] Cons.prems show ?case
    by (simp add: bindE_def algebra_simps)
qed simp

lemma fail_logins_counts:
  assumes "uncounted ks" and "k \<le> 10"
  shows "fail_logins ref_app k ''lockout-111@example.com'' (lock_world ks m l)
    = (Inr (), lock_world (counted (int k) ks) m l)"
  using lock_wrong_many [OF assms(1), of 0 "[0..<k]"] assms(2) by (simp add: fail_logins_def counted_def)

lemma locked_after_ten_passes:
  "passes (login_locked_after_10_failed_attempts ref_bed 7) ref_world"
proof -
  have fail: "fail_logins ref_app 10 ''lockout-111@example.com'' (lock_world Map.empty 2 [])
      = (Inr (), lock_world (counted 10 Map.empty) 2 [])"
    using fail_logins_counts [of Map.empty 10] by (simp add: uncounted_def)
  have locked: "post_json ref_app ''/login'' (credentials ''lockout-111@example.com'' ''hunter2!'')
      (lock_world (counted 10 Map.empty) 2 []) = (Inr (into_response Unauthorized), lock_world (counted 10 Map.empty) 2 [])"
    by (simp add: eval_client eval lock_world_def lock_user_def counted_def cong: eval_cong)
  show ?thesis
    by (simp add: login_locked_after_10_failed_attempts_def passes_def bindE_def ref_spawn lockout_email_7
        lock_register fail locked assert_status_def assertE_def Let_def)
qed

definition lock_session :: keyspace where
  "lock_session = [refresh_key bits_uuid 3 \<mapsto> (RStr (uuid_show bits_uuid 1), Some 604800000000),
     sessions_key bits_uuid 1 \<mapsto> (RSet [uuid_show bits_uuid 3], Some 604800000000)]"

lemma counter_reset_passes:
  "passes (successful_login_resets_lockout_counter ref_bed 7) ref_world"
proof -
  have "uncounted Map.empty" "uncounted lock_session"
    by (simp_all add: uncounted_def lock_session_def)
  then have fail: "fail_logins ref_app 9 ''lockout-111@example.com'' (lock_world ks m l)
      = (Inr (), lock_world (counted 9 ks) m l)" if "ks = Map.empty \<or> ks = lock_session" for ks m l
    using fail_logins_counts [of ks 9] that by auto
  have first: "\<exists>a r. post_json ref_app ''/login'' (credentials ''lockout-111@example.com'' ''hunter2!'')
      (lock_world (counted 9 Map.empty) 2 [])
      = (Inr (respond 200 (Login_Response a r)), lock_world lock_session 4 [3, 2])"
    by (simp add: eval_client eval lock_world_def lock_user_def counted_def lock_session_def fun_eq_iff cong: eval_cong) blast
  have second: "\<exists>a r w. post_json ref_app ''/login'' (credentials ''lockout-111@example.com'' ''hunter2!'')
      (lock_world (counted 9 lock_session) 4 [3, 2]) = (Inr (respond 200 (Login_Response a r)), w)"
    by (simp add: eval_client eval lock_world_def lock_user_def counted_def lock_session_def cong: eval_cong) blast
  from first second show ?thesis
    by (auto simp: successful_login_resets_lockout_counter_def passes_def bindE_def ref_spawn lockout_email_7
        lock_register fail assert_status_def assertE_def Let_def)
qed

lemmas lockout_tests = locked_after_ten_passes counter_reset_passes

section \<open>The tests of the password reset\<close>

lemma reset_request_tests:
  "passes (request_returns_200_for_registered_email ref_bed) ref_world"
  "passes (request_returns_200_for_unknown_email ref_bed) ref_world"
  "passes (request_sends_email_with_reset_link ref_bed) ref_world"
  "passes (request_does_not_send_email_for_unknown_address ref_bed) ref_world"
  "passes (request_with_invalid_email_returns_422 ref_bed) ref_world"
  by (simp_all add: request_returns_200_for_registered_email_def request_returns_200_for_unknown_email_def
      request_sends_email_with_reset_link_def request_does_not_send_email_for_unknown_address_def
      request_with_invalid_email_returns_422_def
      refresh_key_def captured_def nth_mail_def extract_token_def
      split_str.simps nat_bits.simps eval_test eval ref_worlds cong: eval_cong)

lemma reset_confirm_tests:
  "passes (confirm_resets_password_and_allows_login_with_new ref_bed) ref_world"
  "passes (confirm_revokes_all_existing_sessions ref_bed) ref_world"
  "passes (confirm_token_is_single_use ref_bed) ref_world"
  "passes (confirm_with_bogus_token_returns_400 ref_bed) ref_world"
  "passes (confirm_with_empty_token_returns_422 ref_bed) ref_world"
  "passes (confirm_with_short_new_password_returns_422 ref_bed) ref_world"
  by (simp_all add: confirm_resets_password_and_allows_login_with_new_def confirm_revokes_all_existing_sessions_def
      confirm_token_is_single_use_def confirm_with_bogus_token_returns_400_def
      confirm_with_empty_token_returns_422_def confirm_with_short_new_password_returns_422_def
      refresh_key_def captured_def nth_mail_def extract_token_def
      split_str.simps nat_bits.simps eval_test eval ref_worlds cong: eval_cong)

end
