(* ===== verification/Grpc_Tests.thy ===== *)
theory Grpc_Tests
  imports Integration_Harness
begin

text \<open>
  The integration tests of \<open>src/tests/grpc.rs\<close>. The channel between client and server is left out: a
  call is \<open>verify_token\<close> of the service that \<open>spawn_grpc\<close> serves. The tests are sound on every signing
  library of which \<open>strict_jwt_library\<close> holds, if the two test keys are a pair.
\<close>

definition spawn_grpc :: "jwt_manager \<Rightarrow> auth_service_impl" where
  "spawn_grpc jwt = auth_service_impl_new jwt"

definition test_jwt :: "jwt_lib \<Rightarrow> ('g, panic, jwt_manager) io" where
  "test_jwt J = manager J TEST_PRIVATE_PEM TEST_PUBLIC_PEM"

definition verify_call ::
    "jwt_lib \<Rightarrow> uuid_lib \<Rightarrow> auth_service_impl \<Rightarrow> string \<Rightarrow> instant \<Rightarrow> ('g, panic, verify_token_response) io" where
  "verify_call J U client token t = unwrapE (liftE (verify_token J U client token t))"

definition verify_valid_access_token_returns_valid_with_claims ::
    "jwt_lib \<Rightarrow> uuid_lib \<Rightarrow> ('g, 'z) env_lib_scheme \<Rightarrow> instant \<Rightarrow> ('g, panic, unit) io" where
  "verify_valid_access_token_returns_valid_with_claims J U E t =
     bindE (test_jwt J) (\<lambda>jwt.
     bindE (drawE (new_v4 E)) (\<lambda>uid.
     bindE (unwrapE (sign_access_token J E jwt uid ''alice@example.com'' t)) (\<lambda>token.
     bindE (verify_call J U (spawn_grpc jwt) token t) (\<lambda>resp.
     bindE (assertE (vt_valid resp)) (\<lambda>_.
     bindE (assertE (vt_user_id resp = uuid_show U uid)) (\<lambda>_.
     assertE (vt_email resp = ''alice@example.com'')))))))"

definition verify_refresh_token_returns_invalid ::
    "jwt_lib \<Rightarrow> uuid_lib \<Rightarrow> ('g, 'z) env_lib_scheme \<Rightarrow> instant \<Rightarrow> ('g, panic, unit) io" where
  "verify_refresh_token_returns_invalid J U E t =
     bindE (test_jwt J) (\<lambda>jwt.
     bindE (drawE (new_v4 E)) (\<lambda>uid.
     bindE (unwrapE (sign_refresh_token J E jwt uid ''alice@example.com'' t)) (\<lambda>(token, _).
     bindE (verify_call J U (spawn_grpc jwt) token t) (\<lambda>resp.
     bindE (assertE (\<not> vt_valid resp)) (\<lambda>_.
     bindE (assertE (vt_user_id resp = [])) (\<lambda>_.
     assertE (vt_email resp = [])))))))"

definition verify_tampered_token_returns_invalid ::
    "jwt_lib \<Rightarrow> uuid_lib \<Rightarrow> ('g, 'z) env_lib_scheme \<Rightarrow> instant \<Rightarrow> ('g, panic, unit) io" where
  "verify_tampered_token_returns_invalid J U E t =
     bindE (test_jwt J) (\<lambda>jwt.
     bindE (drawE (new_v4 E)) (\<lambda>uid.
     bindE (unwrapE (sign_access_token J E jwt uid ''eve@example.com'' t)) (\<lambda>token.
     bindE (tampered token) (\<lambda>token.
     bindE (verify_call J U (spawn_grpc jwt) token t) (\<lambda>resp.
     assertE (\<not> vt_valid resp))))))"

definition verify_junk_string_returns_invalid ::
    "jwt_lib \<Rightarrow> uuid_lib \<Rightarrow> instant \<Rightarrow> ('g, panic, unit) io" where
  "verify_junk_string_returns_invalid J U t =
     bindE (test_jwt J) (\<lambda>jwt.
     bindE (verify_call J U (spawn_grpc jwt) ''not.a.jwt'' t) (\<lambda>resp.
     assertE (\<not> vt_valid resp)))"

definition verify_empty_token_returns_invalid ::
    "jwt_lib \<Rightarrow> uuid_lib \<Rightarrow> instant \<Rightarrow> ('g, panic, unit) io" where
  "verify_empty_token_returns_invalid J U t =
     bindE (test_jwt J) (\<lambda>jwt.
     bindE (verify_call J U (spawn_grpc jwt) [] t) (\<lambda>resp.
     assertE (\<not> vt_valid resp)))"

section \<open>They are sound\<close>

lemma sound_test_jwt:
  assumes "\<And>M. from_ed25519_pem J TEST_PRIVATE_PEM TEST_PUBLIC_PEM = Inr M \<Longrightarrow> sound (f M) g"
  shows "sound (bindE (test_jwt J) f) g"
  unfolding test_jwt_def by (rule sound_manager) (rule assms)

lemma sound_draw: "(\<And>g'. new_v4 E g = (u, g') \<Longrightarrow> sound (f u) g') \<Longrightarrow> u = fst (new_v4 E g) \<Longrightarrow>
    sound (bindE (drawE (new_v4 E)) f) g"
  by (cases "new_v4 E g") (simp add: sound_def bindE_def drawE_def)

text \<open>The answer to a call, by what the manager says of the token.\<close>

lemma sound_verify_call:
  assumes "\<And>resp. verify_token J U (spawn_grpc M) token t = Inr resp \<Longrightarrow> sound (f resp) g"
  shows "sound (bindE (verify_call J U (spawn_grpc M) token t) f) g"
  unfolding verify_call_def by (rule sound_unwrapE) (use assms in simp)

lemma verify_token_refused:
  assumes "verify_access J M token t = Inl e" and "verify_token J U (spawn_grpc M) token t = Inr resp"
  shows "\<not> vt_valid resp" and "vt_user_id resp = []" and "vt_email resp = []"
  using assms by (auto simp: verify_token_def spawn_grpc_def auth_service_impl_new_def)

context strict_jwt_library begin

lemma sound_grpc_tests:
  assumes keys: "\<And>ek dk. encoding_key_from_ed_pem J TEST_PRIVATE_PEM = Inr ek \<Longrightarrow>
      decoding_key_from_ed_pem J TEST_PUBLIC_PEM = Inr dk \<Longrightarrow> keypair ek dk"
  shows "sound (verify_valid_access_token_returns_valid_with_claims J U E t) g"
    and "sound (verify_refresh_token_returns_invalid J U E t) g"
    and "sound (verify_tampered_token_returns_invalid J U E t) g"
    and "sound (verify_junk_string_returns_invalid J U t) g"
    and "sound (verify_empty_token_returns_invalid J U t) g"
proof -
  have key: "keypair (encoding_key M) (decoding_key M)"
    if "from_ed25519_pem J TEST_PRIVATE_PEM TEST_PUBLIC_PEM = Inr M" for M
    by (rule manager_keys(1) [OF that keys])
  show "sound (verify_valid_access_token_returns_valid_with_claims J U E t) g"
    unfolding verify_valid_access_token_returns_valid_with_claims_def
    by (intro sound_test_jwt sound_draw sound_verify_call sound_rules)
      (auto simp: verify_token_def verify_access_def spawn_grpc_def auth_service_impl_new_def
        signed_access(1) [OF _ key])
  show "sound (verify_refresh_token_returns_invalid J U E t) g"
    unfolding verify_refresh_token_returns_invalid_def case_prod_beta'
    by (intro sound_test_jwt sound_draw sound_verify_call sound_rules)
      (auto simp: verify_token_def verify_access_def spawn_grpc_def auth_service_impl_new_def
        signed_refresh [OF _ key])
  have short: "\<exists>e. verify_access J M token t = Inl e"
    if "from_ed25519_pem J TEST_PRIVATE_PEM TEST_PUBLIC_PEM = Inr M" "length token \<le> 86" for M token
  proof (cases "verify_access J M token t")
    case (Inr c)
    from verified_genuine(2) [OF key [OF that(1)] Inr [unfolded verify_access_def]] that(2) show ?thesis by simp
  qed simp
  show "sound (verify_junk_string_returns_invalid J U t) g"
    unfolding verify_junk_string_returns_invalid_def
    by (intro sound_test_jwt sound_verify_call sound_rules)
      (use short [of _ "''not.a.jwt''"] in \<open>auto dest: verify_token_refused(1)\<close>)
  show "sound (verify_empty_token_returns_invalid J U t) g"
    unfolding verify_empty_token_returns_invalid_def
    by (intro sound_test_jwt sound_verify_call sound_rules)
      (use short [of _ "[]"] in \<open>auto dest: verify_token_refused(1)\<close>)
  show "sound (verify_tampered_token_returns_invalid J U E t) g"
    unfolding verify_tampered_token_returns_invalid_def
  proof (intro sound_test_jwt sound_draw sound_unwrapE)
    fix M g1 token g2
    assume M: "from_ed25519_pem J TEST_PRIVATE_PEM TEST_PUBLIC_PEM = Inr M"
      and signed: "sign_access_token J E M (fst (new_v4 E g)) ''eve@example.com'' t g1 = (Inr token, g2)"
    note tamp = tampered_signed [OF key [OF M] signed]
    from tamp(2) [of t] show "sound (bindE (tampered token) (\<lambda>token. bindE (verify_call J U (spawn_grpc M) token t)
        (\<lambda>resp. assertE (\<not> vt_valid resp)))) g2"
      unfolding tampered_ok [OF tamp(1)] bindE_okE
      by (intro sound_verify_call sound_rules) (auto dest: verify_token_refused(1))
  qed simp
qed

end

end
