(* ===== verification/Integration_Properties.thy ===== *)
theory Integration_Properties
  imports Integration_Reference Grpc_Tests
begin

text \<open>
  The integration tests of the program, carried out on the model. Those that speak HTTP are run on the
  reference libraries from an empty database and cache; those that speak gRPC are sound on every signing
  library.
\<close>

section \<open>HTTP\<close>

text \<open>
  All 43 integration tests that speak HTTP pass: each test, its requests sent one after the other
  through the plain router to the handlers on the database, the cache and the mail client, ends without
  a panic. The UUID that makes the address of a lockout test unique is 7.
\<close>

lemma integration_tests_pass:
  "passes (register_returns_201_with_user_info ref_bed) ref_world
    \<and> passes (register_duplicate_email_returns_409 ref_bed) ref_world
    \<and> passes (login_with_valid_credentials_returns_tokens ref_bed) ref_world
    \<and> passes (login_with_wrong_password_returns_401 ref_bed) ref_world
    \<and> passes (login_with_unknown_email_returns_401 ref_bed) ref_world
    \<and> passes (me_with_valid_access_token_returns_user ref_bed) ref_world
    \<and> passes (me_without_token_returns_401 ref_bed) ref_world
    \<and> passes (me_rejects_refresh_token ref_bed) ref_world
    \<and> passes (refresh_issues_new_tokens_and_revokes_old ref_bed) ref_world
    \<and> passes (refresh_rejects_access_token ref_bed) ref_world
    \<and> passes (logout_returns_204_and_revokes_refresh_token ref_bed) ref_world
    \<and> passes (register_with_invalid_email_returns_422 ref_bed) ref_world
    \<and> passes (register_with_empty_password_returns_422 ref_bed) ref_world
    \<and> passes (register_with_short_password_returns_422 ref_bed) ref_world
    \<and> passes (register_with_password_over_128_chars_returns_422 ref_bed) ref_world
    \<and> passes (login_with_invalid_email_returns_422 ref_bed) ref_world
    \<and> passes (login_with_empty_password_returns_422 ref_bed) ref_world
    \<and> passes (login_with_password_over_128_chars_returns_422 ref_bed) ref_world
    \<and> passes (refresh_with_empty_token_returns_422 ref_bed) ref_world
    \<and> passes (logout_with_empty_token_returns_422 ref_bed) ref_world
    \<and> passes (change_password_returns_204_and_allows_login_with_new ref_bed) ref_world
    \<and> passes (change_password_with_wrong_current_returns_401 ref_bed) ref_world
    \<and> passes (change_password_without_token_returns_401 ref_bed) ref_world
    \<and> passes (change_password_with_short_new_password_returns_422 ref_bed) ref_world
    \<and> passes (delete_me_returns_204_and_prevents_login ref_bed) ref_world
    \<and> passes (delete_me_without_token_returns_401 ref_bed) ref_world
    \<and> passes (login_locked_after_10_failed_attempts ref_bed 7) ref_world
    \<and> passes (successful_login_resets_lockout_counter ref_bed 7) ref_world
    \<and> passes (logout_all_revokes_all_sessions ref_bed) ref_world
    \<and> passes (logout_all_without_token_returns_401 ref_bed) ref_world
    \<and> passes (logout_all_with_no_active_sessions_returns_204 ref_bed) ref_world
    \<and> passes (health_returns_200_when_db_and_redis_are_up ref_bed) ref_world
    \<and> passes (request_returns_200_for_registered_email ref_bed) ref_world
    \<and> passes (request_returns_200_for_unknown_email ref_bed) ref_world
    \<and> passes (request_sends_email_with_reset_link ref_bed) ref_world
    \<and> passes (request_does_not_send_email_for_unknown_address ref_bed) ref_world
    \<and> passes (request_with_invalid_email_returns_422 ref_bed) ref_world
    \<and> passes (confirm_resets_password_and_allows_login_with_new ref_bed) ref_world
    \<and> passes (confirm_revokes_all_existing_sessions ref_bed) ref_world
    \<and> passes (confirm_token_is_single_use ref_bed) ref_world
    \<and> passes (confirm_with_bogus_token_returns_400 ref_bed) ref_world
    \<and> passes (confirm_with_empty_token_returns_422 ref_bed) ref_world
    \<and> passes (confirm_with_short_new_password_returns_422 ref_bed) ref_world"
  by (intro conjI) (fact registration_tests me_tests refresh_tests validation_answers change_password_tests
    deletion_tests lockout_tests logout_all_tests health_tests reset_request_tests reset_confirm_tests)+

section \<open>gRPC\<close>

text \<open>
  No test of the gRPC service fails an assertion, on any signing library whose signatures are genuine and
  for which the two test keys are a pair.
\<close>

theorem grpc_tests_sound:
  assumes "strict_jwt_library J keypair"
    and "\<forall>ek dk. encoding_key_from_ed_pem J TEST_PRIVATE_PEM = Inr ek \<longrightarrow>
      decoding_key_from_ed_pem J TEST_PUBLIC_PEM = Inr dk \<longrightarrow> keypair ek dk"
  shows "sound (verify_valid_access_token_returns_valid_with_claims J U E t) g
    \<and> sound (verify_refresh_token_returns_invalid J U E t) g
    \<and> sound (verify_tampered_token_returns_invalid J U E t) g
    \<and> sound (verify_junk_string_returns_invalid J U t) g
    \<and> sound (verify_empty_token_returns_invalid J U t) g"
  by (intro conjI strict_jwt_library.sound_grpc_tests [OF assms(1)]) (use assms(2) in auto)

lemma grpc_tests_sound_witness:
  "sound (verify_tampered_token_returns_invalid ref_pem_jwt bits_uuid ref_env 0) (1, [], [])
    \<and> sound (verify_empty_token_returns_invalid ref_pem_jwt bits_uuid 0) ((1, [], []) :: ref_gen)"
proof -
  have keys: "\<forall>ek dk. encoding_key_from_ed_pem ref_pem_jwt TEST_PRIVATE_PEM = Inr ek \<longrightarrow>
      decoding_key_from_ed_pem ref_pem_jwt TEST_PUBLIC_PEM = Inr dk \<longrightarrow> ek = dk"
    by (simp add: ref_pem_jwt_def)
  note tests = grpc_tests_sound [OF ref_pem_jwt.strict_jwt_library_axioms keys, of bits_uuid ref_env 0 "(1, [], [])"]
  show ?thesis by (rule conjI) (use tests in simp_all)
qed

end
