(* ===== verification/Account_Spec.thy ===== *)
theory Account_Spec
  imports Requests Jwt
begin

text \<open>
  What the service promises, without the machines behind it: accounts with their passwords, sessions
  and counters with the instant at which they end, reset tickets. There is no cache with its keys and
  indexes, no row with a hash, and no call that can fail. \<open>account_step\<close> answers one call at one
  instant. What is random in the service is an argument (\<open>choice\<close>), as are the reading of a refresh
  token at an instant (\<open>V\<close>) and the digest of a reset token (\<open>D\<close>). That the handlers of
  \<open>src/routes/mod.rs\<close> implement this is shown in \<open>Account_Refinement\<close>.
\<close>

section \<open>The state\<close>

record member =
  m_id :: uuid
  m_email :: string
  m_password :: string

text \<open>A ticket that was redeemed has no end, and cannot be redeemed.\<close>

record ticket =
  k_id :: uuid
  k_digest :: string
  k_owner :: uuid
  k_until :: "instant option"

record accounts =
  ac_members :: "member list"
  ac_tickets :: "ticket list"
  ac_sessions :: "uuid \<Rightarrow> (uuid \<times> instant) option"
  ac_used :: "uuid list"
  ac_failed :: "string \<Rightarrow> int \<times> instant"
  ac_mailed :: "(string \<times> string) list"

definition no_accounts :: accounts where
  "no_accounts = \<lparr>ac_members = [], ac_tickets = [], ac_sessions = Map.empty, ac_used = [],
     ac_failed = (\<lambda>_. (0, 0)), ac_mailed = []\<rparr>"

definition member_with_email :: "accounts \<Rightarrow> string \<Rightarrow> member option" where
  "member_with_email a e = List.find (\<lambda>m. m_email m = e) (ac_members a)"

definition member_with_id :: "accounts \<Rightarrow> uuid \<Rightarrow> member option" where
  "member_with_id a i = List.find (\<lambda>m. m_id m = i) (ac_members a)"

definition owner_at :: "instant \<Rightarrow> accounts \<Rightarrow> uuid \<Rightarrow> uuid option" where
  "owner_at t a j = (case ac_sessions a j of
       None \<Rightarrow> None
     | Some (u, end_at) \<Rightarrow> if t < end_at then Some u else None)"

definition failures_at :: "instant \<Rightarrow> accounts \<Rightarrow> string \<Rightarrow> int" where
  "failures_at t a e = (case ac_failed a e of (n, end_at) \<Rightarrow> if t < end_at then n else 0)"

section \<open>Changes of the state\<close>

definition count_failure :: "instant \<Rightarrow> string \<Rightarrow> accounts \<Rightarrow> accounts" where
  "count_failure t e a = a\<lparr>ac_failed := (ac_failed a)(e := (failures_at t a e + 1, t + secs 900))\<rparr>"

definition forget_failures :: "string \<Rightarrow> accounts \<Rightarrow> accounts" where
  "forget_failures e a = a\<lparr>ac_failed := (ac_failed a)(e := (0, 0))\<rparr>"

definition open_session :: "instant \<Rightarrow> uuid \<Rightarrow> uuid \<Rightarrow> accounts \<Rightarrow> accounts" where
  "open_session t j u a = a\<lparr>ac_sessions := (ac_sessions a)(j \<mapsto> (u, t + secs (7 * 24 * 3600))),
     ac_used := j # ac_used a\<rparr>"

definition close_session :: "uuid \<Rightarrow> accounts \<Rightarrow> accounts" where
  "close_session j a = a\<lparr>ac_sessions := (ac_sessions a)(j := None)\<rparr>"

definition close_all :: "uuid \<Rightarrow> accounts \<Rightarrow> accounts" where
  "close_all u a = a\<lparr>ac_sessions := (\<lambda>j. case ac_sessions a j of
       None \<Rightarrow> None
     | Some (v, end_at) \<Rightarrow> if v = u then None else Some (v, end_at))\<rparr>"

definition set_password :: "uuid \<Rightarrow> string \<Rightarrow> accounts \<Rightarrow> accounts" where
  "set_password i pw a =
     a\<lparr>ac_members := map (\<lambda>m. if m_id m = i then m\<lparr>m_password := pw\<rparr> else m) (ac_members a)\<rparr>"

definition remove_member :: "uuid \<Rightarrow> accounts \<Rightarrow> accounts" where
  "remove_member i a = a\<lparr>ac_members := filter (\<lambda>m. m_id m \<noteq> i) (ac_members a),
     ac_tickets := filter (\<lambda>k. k_owner k \<noteq> i) (ac_tickets a)\<rparr>"

definition good_ticket :: "instant \<Rightarrow> string \<Rightarrow> ticket \<Rightarrow> bool" where
  "good_ticket t h k \<longleftrightarrow> k_digest k = h \<and> (case k_until k of None \<Rightarrow> False | Some x \<Rightarrow> t < x)"

definition spend_ticket :: "instant \<Rightarrow> string \<Rightarrow> accounts \<Rightarrow> accounts" where
  "spend_ticket t h a =
     a\<lparr>ac_tickets := map (\<lambda>k. if good_ticket t h k then k\<lparr>k_until := None\<rparr> else k) (ac_tickets a)\<rparr>"

section \<open>The calls\<close>

text \<open>A call by a signed-in user carries the claims of the access token.\<close>

datatype account_call =
    Ac_Register register_request
  | Ac_Login login_request
  | Ac_Refresh refresh_request
  | Ac_Logout logout_request
  | Ac_Logout_All claims
  | Ac_Change_Password claims change_password_request
  | Ac_Delete_Me claims
  | Ac_Reset_Request reset_request_body
  | Ac_Reset_Confirm reset_confirm_body

datatype outcome = Denied api_error | Registered uuid string | Opened uuid uuid string | Done

record choice =
  ch_row :: uuid
  ch_jti :: uuid
  ch_raw :: string

definition spec_register :: "choice \<Rightarrow> register_request \<Rightarrow> accounts \<Rightarrow> outcome \<times> accounts" where
  "spec_register ch b a = (case register_validate b of
       Inl e \<Rightarrow> (Denied e, a)
     | Inr _ \<Rightarrow>
         if \<exists>m \<in> set (ac_members a). m_id m = ch_row ch \<or> m_email m = reg_email b then (Denied Conflict, a)
         else (Registered (ch_row ch) (reg_email b), a\<lparr>ac_members := ac_members a @
           [\<lparr>m_id = ch_row ch, m_email = reg_email b, m_password = reg_password b\<rparr>]\<rparr>))"

definition spec_login :: "instant \<Rightarrow> choice \<Rightarrow> login_request \<Rightarrow> accounts \<Rightarrow> outcome \<times> accounts" where
  "spec_login t ch b a = (case login_validate b of
       Inl e \<Rightarrow> (Denied e, a)
     | Inr _ \<Rightarrow>
         if 10 \<le> failures_at t a (login_email b) then (Denied Unauthorized, a)
         else case member_with_email a (login_email b) of
           None \<Rightarrow> (Denied Unauthorized, a)
         | Some m \<Rightarrow>
             if login_password b \<noteq> m_password m
             then (Denied Unauthorized, count_failure t (login_email b) a)
             else (Opened (ch_jti ch) (m_id m) (m_email m),
                   open_session t (ch_jti ch) (m_id m) (forget_failures (login_email b) a)))"

definition spec_refresh ::
    "(string \<Rightarrow> claims option) \<Rightarrow> instant \<Rightarrow> choice \<Rightarrow> refresh_request \<Rightarrow> accounts \<Rightarrow> outcome \<times> accounts" where
  "spec_refresh V t ch b a = (case refresh_validate b of
       Inl e \<Rightarrow> (Denied e, a)
     | Inr _ \<Rightarrow>
         (case V (refresh_token b) of
            None \<Rightarrow> (Denied Unauthorized, a)
          | Some c \<Rightarrow>
              if owner_at t a (c_jti c) = None then (Denied Unauthorized, a)
              else (Opened (ch_jti ch) (c_sub c) (c_email c),
                    open_session t (ch_jti ch) (c_sub c) (close_session (c_jti c) a))))"

definition spec_logout ::
    "(string \<Rightarrow> claims option) \<Rightarrow> logout_request \<Rightarrow> accounts \<Rightarrow> outcome \<times> accounts" where
  "spec_logout V b a = (case logout_validate b of
       Inl e \<Rightarrow> (Denied e, a)
     | Inr _ \<Rightarrow>
         (case V (logout_token b) of
            None \<Rightarrow> (Denied Unauthorized, a)
          | Some c \<Rightarrow> (Done, close_session (c_jti c) a)))"

definition spec_change_password :: "uuid \<Rightarrow> change_password_request \<Rightarrow> accounts \<Rightarrow> outcome \<times> accounts" where
  "spec_change_password u b a = (case change_password_validate b of
       Inl e \<Rightarrow> (Denied e, a)
     | Inr _ \<Rightarrow>
         (case member_with_id a u of
            None \<Rightarrow> (Denied Unauthorized, a)
          | Some m \<Rightarrow>
              if current_password b \<noteq> m_password m then (Denied Unauthorized, a)
              else (Done, set_password u (new_password b) a)))"

definition spec_reset_request ::
    "(string \<Rightarrow> string) \<Rightarrow> instant \<Rightarrow> choice \<Rightarrow> reset_request_body \<Rightarrow> accounts \<Rightarrow> outcome \<times> accounts" where
  "spec_reset_request D t ch b a = (case reset_request_validate b of
       Inl e \<Rightarrow> (Denied e, a)
     | Inr _ \<Rightarrow>
         (case member_with_email a (rr_email b) of
            None \<Rightarrow> (Done, a)
          | Some m \<Rightarrow>
              if \<exists>k \<in> set (ac_tickets a). k_id k = ch_row ch \<or> k_digest k = D (ch_raw ch) then (Denied Conflict, a)
              else (Done, a\<lparr>ac_tickets := ac_tickets a @
                     [\<lparr>k_id = ch_row ch, k_digest = D (ch_raw ch), k_owner = m_id m,
                       k_until = Some (t + secs (15 * 60))\<rparr>],
                   ac_mailed := ac_mailed a @ [(m_email m, ch_raw ch)]\<rparr>)))"

definition spec_reset_confirm ::
    "(string \<Rightarrow> string) \<Rightarrow> instant \<Rightarrow> reset_confirm_body \<Rightarrow> accounts \<Rightarrow> outcome \<times> accounts" where
  "spec_reset_confirm D t b a = (case reset_confirm_validate b of
       Inl e \<Rightarrow> (Denied e, a)
     | Inr _ \<Rightarrow>
         (case List.find (good_ticket t (D (rc_token b))) (ac_tickets a) of
            None \<Rightarrow> (Denied (BadRequest ''invalid or expired reset token''), a)
          | Some k \<Rightarrow> (Done, close_all (k_owner k) (set_password (k_owner k) (rc_new_password b)
                (spend_ticket t (D (rc_token b)) a)))))"

fun account_step ::
    "(instant \<Rightarrow> string \<Rightarrow> claims option) \<Rightarrow> (string \<Rightarrow> string) \<Rightarrow> instant \<Rightarrow> choice \<Rightarrow> account_call
      \<Rightarrow> accounts \<Rightarrow> outcome \<times> accounts" where
  "account_step V D t ch (Ac_Register b) a = spec_register ch b a"
| "account_step V D t ch (Ac_Login b) a = spec_login t ch b a"
| "account_step V D t ch (Ac_Refresh b) a = spec_refresh (V t) t ch b a"
| "account_step V D t ch (Ac_Logout b) a = spec_logout (V t) b a"
| "account_step V D t ch (Ac_Logout_All c) a = (Done, close_all (c_sub c) a)"
| "account_step V D t ch (Ac_Change_Password c b) a = spec_change_password (c_sub c) b a"
| "account_step V D t ch (Ac_Delete_Me c) a = (Done, remove_member (c_sub c) a)"
| "account_step V D t ch (Ac_Reset_Request b) a = spec_reset_request D t ch b a"
| "account_step V D t ch (Ac_Reset_Confirm b) a = spec_reset_confirm D t b a"

text \<open>
  Calls one after another, each some time after the one before. The id of a session that is opened has
  never been used.
\<close>

inductive account_runs ::
    "(instant \<Rightarrow> string \<Rightarrow> claims option) \<Rightarrow> (string \<Rightarrow> string) \<Rightarrow> instant \<Rightarrow> accounts
      \<Rightarrow> (duration \<times> account_call) list \<Rightarrow> (instant \<times> outcome) list \<Rightarrow> accounts \<Rightarrow> bool"
  for V and D where
  stop: "account_runs V D t a [] [] a"
| call: "account_step V D (t + d) ch c a = (out, a1) \<Longrightarrow>
    (\<And>j u e. out = Opened j u e \<Longrightarrow> j \<notin> set (ac_used a)) \<Longrightarrow>
    account_runs V D (t + d) a1 cs outs a2 \<Longrightarrow>
    account_runs V D t a ((d, c) # cs) ((t + d, out) # outs) a2"

inductive_cases account_runs_NilE [elim!]: "account_runs V D t a [] outs a'"
inductive_cases account_runs_ConsE [elim]: "account_runs V D t a ((d, c) # cs) outs a'"

section \<open>What the changes do to what is observed\<close>

lemma owner_at_simps [simp]:
  "owner_at t (a\<lparr>ac_failed := f\<rparr>) = owner_at t a" "owner_at t (a\<lparr>ac_members := ms\<rparr>) = owner_at t a"
  "owner_at t (a\<lparr>ac_tickets := ks\<rparr>) = owner_at t a" "owner_at t (a\<lparr>ac_mailed := l\<rparr>) = owner_at t a"
  by (simp_all add: owner_at_def fun_eq_iff)

lemma failures_at_simps [simp]:
  "failures_at t (a\<lparr>ac_sessions := s\<rparr>) = failures_at t a" "failures_at t (a\<lparr>ac_used := x\<rparr>) = failures_at t a"
  "failures_at t (a\<lparr>ac_members := ms\<rparr>) = failures_at t a"
  "failures_at t (a\<lparr>ac_tickets := ks\<rparr>) = failures_at t a" "failures_at t (a\<lparr>ac_mailed := l\<rparr>) = failures_at t a"
  by (simp_all add: failures_at_def fun_eq_iff)

lemma owner_at_changes [simp]:
  "owner_at t' (open_session t j u a) = (owner_at t' a)(j := if t' < t + secs 604800 then Some u else None)"
  "owner_at t' (close_session j a) = (owner_at t' a)(j := None)"
  "owner_at t' (close_all u a) = (\<lambda>j. if owner_at t' a j = Some u then None else owner_at t' a j)"
  "owner_at t' (count_failure t e a) = owner_at t' a" "owner_at t' (forget_failures e a) = owner_at t' a"
  "owner_at t' (set_password i pw a) = owner_at t' a" "owner_at t' (remove_member i a) = owner_at t' a"
  "owner_at t' (spend_ticket t h a) = owner_at t' a"
  by (auto simp: open_session_def close_session_def close_all_def count_failure_def forget_failures_def
      set_password_def remove_member_def spend_ticket_def owner_at_def fun_eq_iff split: option.splits prod.splits)

lemma failures_at_changes [simp]:
  "failures_at t' (count_failure t e a)
    = (failures_at t' a)(e := if t' < t + secs 900 then failures_at t a e + 1 else 0)"
  "failures_at t' (forget_failures e a) = (failures_at t' a)(e := 0)"
  "failures_at t' (open_session t j u a) = failures_at t' a" "failures_at t' (close_session j a) = failures_at t' a"
  "failures_at t' (close_all u a) = failures_at t' a"
  "failures_at t' (set_password i pw a) = failures_at t' a" "failures_at t' (remove_member i a) = failures_at t' a"
  "failures_at t' (spend_ticket t h a) = failures_at t' a"
  by (auto simp: open_session_def close_session_def close_all_def count_failure_def forget_failures_def
      set_password_def remove_member_def spend_ticket_def failures_at_def fun_eq_iff)

lemma account_parts [simp]:
  "ac_used (open_session t j u a) = j # ac_used a" "ac_used (close_session j a) = ac_used a"
  "ac_used (close_all u a) = ac_used a" "ac_used (count_failure t e a) = ac_used a"
  "ac_used (forget_failures e a) = ac_used a" "ac_used (set_password i pw a) = ac_used a"
  "ac_used (remove_member i a) = ac_used a" "ac_used (spend_ticket t h a) = ac_used a"
  "ac_members (open_session t j u a) = ac_members a" "ac_members (close_session j a) = ac_members a"
  "ac_members (close_all u a) = ac_members a" "ac_members (count_failure t e a) = ac_members a"
  "ac_members (forget_failures e a) = ac_members a" "ac_members (spend_ticket t h a) = ac_members a"
  "ac_tickets (open_session t j u a) = ac_tickets a" "ac_tickets (close_session j a) = ac_tickets a"
  "ac_tickets (close_all u a) = ac_tickets a" "ac_tickets (count_failure t e a) = ac_tickets a"
  "ac_tickets (forget_failures e a) = ac_tickets a" "ac_tickets (set_password i pw a) = ac_tickets a"
  "ac_mailed (open_session t j u a) = ac_mailed a" "ac_mailed (close_session j a) = ac_mailed a"
  "ac_mailed (close_all u a) = ac_mailed a" "ac_mailed (count_failure t e a) = ac_mailed a"
  "ac_mailed (forget_failures e a) = ac_mailed a" "ac_mailed (set_password i pw a) = ac_mailed a"
  "ac_mailed (remove_member i a) = ac_mailed a" "ac_mailed (spend_ticket t h a) = ac_mailed a"
  by (simp_all add: open_session_def close_session_def close_all_def count_failure_def forget_failures_def
      set_password_def remove_member_def spend_ticket_def)

section \<open>The state stays sensible\<close>

text \<open>
  In every run addresses, ids and digests are unique, a ticket belongs to a member, and no session id is
  used twice.
\<close>

definition accounts_ok :: "accounts \<Rightarrow> bool" where
  "accounts_ok a \<longleftrightarrow> distinct (map m_id (ac_members a)) \<and> distinct (map m_email (ac_members a))
     \<and> distinct (map k_digest (ac_tickets a)) \<and> k_owner ` set (ac_tickets a) \<subseteq> m_id ` set (ac_members a)
     \<and> distinct (ac_used a) \<and> dom (ac_sessions a) \<subseteq> set (ac_used a)"

lemma accounts_ok_empty: "accounts_ok no_accounts"
  by (simp add: accounts_ok_def no_accounts_def)

lemma map_set_password:
  "map m_id (ac_members (set_password i pw a)) = map m_id (ac_members a)"
  "map m_email (ac_members (set_password i pw a)) = map m_email (ac_members a)"
  by (simp_all add: set_password_def)

lemma map_spend_ticket:
  "map k_digest (ac_tickets (spend_ticket t h a)) = map k_digest (ac_tickets a)"
  "map k_owner (ac_tickets (spend_ticket t h a)) = map k_owner (ac_tickets a)"
  by (simp_all add: spend_ticket_def)

lemma accounts_ok_changes:
  assumes "accounts_ok a"
  shows "accounts_ok (count_failure t e a)" "accounts_ok (forget_failures e a)"
    and "accounts_ok (close_session j a)" "accounts_ok (close_all u a)" "accounts_ok (set_password i pw a)"
    and "accounts_ok (remove_member i a)" "accounts_ok (spend_ticket t h a)"
    and "j \<notin> set (ac_used a) \<Longrightarrow> accounts_ok (open_session t j u a)"
proof -
  have owners: "k_owner ` set ks \<subseteq> m_id ` set ms \<longleftrightarrow> set (map k_owner ks) \<subseteq> set (map m_id ms)" for ks ms
    by simp
  show "accounts_ok (count_failure t e a)" "accounts_ok (forget_failures e a)"
    using assms by (simp_all add: accounts_ok_def count_failure_def forget_failures_def)
  show "accounts_ok (close_session j a)" "accounts_ok (close_all u a)"
    using assms by (auto simp: accounts_ok_def close_session_def close_all_def split: option.splits)
  show "accounts_ok (set_password i pw a)"
    using assms unfolding accounts_ok_def owners map_set_password by (simp add: set_password_def)
  show "accounts_ok (remove_member i a)"
    using assms by (auto simp: accounts_ok_def remove_member_def distinct_map_filter)
  show "accounts_ok (spend_ticket t h a)"
    using assms unfolding accounts_ok_def owners map_spend_ticket by (simp add: spend_ticket_def)
  show "j \<notin> set (ac_used a) \<Longrightarrow> accounts_ok (open_session t j u a)"
    using assms by (auto simp: accounts_ok_def open_session_def)
qed

lemma accounts_ok_join:
  assumes "accounts_ok a" and "\<not> (\<exists>m \<in> set (ac_members a). m_id m = i \<or> m_email m = e)"
  shows "accounts_ok (a\<lparr>ac_members := ac_members a @ [\<lparr>m_id = i, m_email = e, m_password = pw\<rparr>]\<rparr>)"
proof -
  have "i \<notin> m_id ` set (ac_members a)" "e \<notin> m_email ` set (ac_members a)" using assms(2) by blast+
  with assms(1) show ?thesis by (simp add: accounts_ok_def subset_insertI2)
qed

lemma accounts_ok_ticket:
  assumes "accounts_ok a" and "\<not> (\<exists>k \<in> set (ac_tickets a). k_id k = i \<or> k_digest k = h)"
    and "member_with_email a e = Some m"
  shows "accounts_ok (a\<lparr>ac_tickets := ac_tickets a @
      [\<lparr>k_id = i, k_digest = h, k_owner = m_id m, k_until = Some x\<rparr>], ac_mailed := l\<rparr>)"
proof -
  have "h \<notin> k_digest ` set (ac_tickets a)" using assms(2) by blast
  moreover have "m \<in> set (ac_members a)" using assms(3) by (auto simp: member_with_email_def find_Some_iff)
  ultimately show ?thesis using assms(1) by (simp add: accounts_ok_def)
qed

lemma accounts_ok_step:
  assumes ok: "accounts_ok a" and step: "account_step V D t ch c a = (out, a1)"
    and fresh: "\<And>j u e. out = Opened j u e \<Longrightarrow> j \<notin> set (ac_used a)"
  shows "accounts_ok a1"
proof (cases c)
  case (Ac_Register b)
  with ok step show ?thesis
    by (auto simp: spec_register_def accounts_ok_join split: sum.splits if_splits)
next
  case (Ac_Login b)
  with ok step fresh show ?thesis
    by (auto simp: spec_login_def accounts_ok_changes split: sum.splits if_splits option.splits)
next
  case (Ac_Refresh b)
  with ok step fresh show ?thesis
    by (auto simp: spec_refresh_def accounts_ok_changes split: sum.splits if_splits option.splits)
next
  case (Ac_Logout b)
  with ok step show ?thesis
    by (auto simp: spec_logout_def accounts_ok_changes split: sum.splits option.splits)
next
  case (Ac_Change_Password d b)
  with ok step show ?thesis
    by (auto simp: spec_change_password_def accounts_ok_changes split: sum.splits if_splits option.splits)
next
  case (Ac_Reset_Request b)
  with ok step show ?thesis
    by (auto simp: spec_reset_request_def accounts_ok_ticket split: sum.splits if_splits option.splits)
next
  case (Ac_Reset_Confirm b)
  with ok step show ?thesis
    by (auto simp: spec_reset_confirm_def accounts_ok_changes split: sum.splits option.splits)
qed (use ok step in \<open>auto simp: accounts_ok_changes\<close>)

lemma account_runs_ok:
  assumes "account_runs V D t a cs outs a'" and "accounts_ok a"
  shows "accounts_ok a'"
  using assms by (induction rule: account_runs.induct) (auto dest: accounts_ok_step)

text \<open>What the accounts say of a session is settled by the call that opened it: until it ends, it is
  closed or kept, never handed to another user.\<close>

lemma owner_settled:
  assumes "account_step V D t ch c a = (out, a1)" and "j \<in> set (ac_used a)"
    and "\<And>j u e. out = Opened j u e \<Longrightarrow> j \<notin> set (ac_used a)"
  shows "j \<in> set (ac_used a1)" and "owner_at t' a1 j = Some u \<Longrightarrow> owner_at t' a j = Some u"
proof -
  have "j \<in> set (ac_used a1) \<and> (owner_at t' a1 j = Some u \<longrightarrow> owner_at t' a j = Some u)"
    using assms
    by (cases c) (auto simp: spec_register_def spec_login_def spec_refresh_def spec_logout_def
        spec_change_password_def spec_reset_request_def spec_reset_confirm_def Let_def
        split: sum.splits if_splits option.splits)
  then show "j \<in> set (ac_used a1)" and "owner_at t' a1 j = Some u \<Longrightarrow> owner_at t' a j = Some u" by simp_all
qed

end
