(* ===== verification/Session_Owner.thy ===== *)
theory Session_Owner
  imports Cache_Invariant
begin

text \<open>
  Who a session belongs to. Every token id that the cache knows, as a session or in an index, has one user
  (\<open>ow\<close>): an index lists only ids of its own user. Every command of the stores keeps this, whatever is
  lost, so that a revocation of all sessions of a user takes no session of another.
\<close>

definition owned :: "uuid_lib \<Rightarrow> (uuid \<Rightarrow> uuid) \<Rightarrow> uuid set \<Rightarrow> keyspace \<Rightarrow> bool" where
  "owned U ow D ks \<longleftrightarrow>
     (\<forall>j v d. ks (refresh_key U j) = Some (RStr (uuid_show U v), d) \<longrightarrow> j \<in> D \<and> ow j = v)
   \<and> (\<forall>u ms d m. ks (sessions_key U u) = Some (RSet ms, d) \<longrightarrow> m \<in> set ms \<longrightarrow>
        (\<exists>j \<in> D. m = uuid_show U j \<and> ow j = u))"

lemma owned_empty: "owned U ow D Map.empty"
  by (simp add: owned_def)

lemma owned_mono: "owned U ow D ks \<Longrightarrow> D \<subseteq> D' \<Longrightarrow> owned U ow D' ks"
  unfolding owned_def by blast

lemma owned_fresh:
  assumes "owned U ow D ks" and "j \<notin> D"
  shows "owned U (ow(j := u)) (insert j D) ks"
  using assms unfolding owned_def by (auto; metis)

text \<open>Removing an entry, or members of an index, and changing a key of another kind.\<close>

lemma owned_remove: "owned U ow D ks \<Longrightarrow> owned U ow D (ks(k := None))"
  unfolding owned_def by (auto split: if_splits; metis)

lemma owned_cong:
  assumes "\<And>j. ks' (refresh_key U j) = ks (refresh_key U j)" and "\<And>u. ks' (sessions_key U u) = ks (sessions_key U u)"
  shows "owned U ow D ks' \<longleftrightarrow> owned U ow D ks"
  unfolding owned_def assms ..

context uuid_codec begin

lemma owned_set:
  assumes "owned U ow D ks" and "\<And>ms m. a = RSet ms \<Longrightarrow> m \<in> set ms \<Longrightarrow> \<exists>j \<in> D. m = uuid_show U j \<and> ow j = u"
  shows "owned U ow D (ks(sessions_key U u \<mapsto> (a, d)))"
  using assms unfolding owned_def by simp

lemma owned_session:
  assumes "owned U ow D ks" and "j \<in> D" and "ow j = u"
  shows "owned U ow D (ks(refresh_key U j \<mapsto> (RStr (uuid_show U u), d)))"
  using assms unfolding owned_def by simp

lemma owned_member:
  "owned U ow D ks \<Longrightarrow> lookup t ks (sessions_key U u) = Some (RSet ms, d) \<Longrightarrow> m \<in> set ms \<Longrightarrow>
    \<exists>j \<in> D. m = uuid_show U j \<and> ow j = u"
  unfolding owned_def lookup_Some_iff by blast

lemma owned_lockout_cmd:
  "cmd_key c = Some (lockout_key e) \<Longrightarrow> owned U ow D (snd (ks_exec c t ks)) \<longleftrightarrow> owned U ow D ks"
  by (rule owned_cong) (simp_all add: ks_exec_frame del: ks_exec.simps)

lemma owned_cmds:
  assumes "owned U ow D ks"
  shows "owned U ow D (snd (ks_exec (DEL k) t ks))"
    and "owned U ow D (snd (ks_exec (GETDEL k) t ks))"
    and "owned U ow D (snd (ks_exec (SMEMBERS k) t ks))"
    and "owned U ow D (snd (ks_exec (SREM (sessions_key U u) m) t ks))"
    and "owned U ow D (snd (ks_exec (EXPIRE (sessions_key U u) n) t ks))"
    and "j \<in> D \<Longrightarrow> ow j = u \<Longrightarrow> owned U ow D (snd (ks_exec (SETEX (refresh_key U j) n (uuid_show U u)) t ks))"
    and "j \<in> D \<Longrightarrow> ow j = u \<Longrightarrow> owned U ow D (snd (ks_exec (SADD (sessions_key U u) (uuid_show U j)) t ks))"
  using assms owned_remove [OF assms] owned_member [OF assms, of t u]
  by (auto split: option.splits redis_value.splits intro!: owned_set owned_session)

end

context session_cache begin

lemma keeps_owned_lockout:
  "keeps (\<lambda>r. owned U ow D (\<alpha> r)) (is_locked R e t)" "keeps (\<lambda>r. owned U ow D (\<alpha> r)) (record_failure R e t)"
  "keeps (\<lambda>r. owned U ow D (\<alpha> r)) (clear_failures R e t)"
  unfolding is_locked_def record_failure_def clear_failures_def
  by (intro steps_rules keeps_exec keeps_query; simp add: owned_lockout_cmd [where e = e] del: ks_exec.simps)+

lemma keeps_owned_store:
  "j \<in> D \<Longrightarrow> ow j = u \<Longrightarrow> keeps (\<lambda>r. owned U ow D (\<alpha> r)) (store_refresh_token R U j u ttl t)"
  unfolding store_refresh_token_def
  by (intro steps_rules keeps_pipe) (auto simp: store_cmds_def owned_cmds simp del: ks_exec.simps)

lemma keeps_owned_revoke: "keeps (\<lambda>r. owned U ow D (\<alpha> r)) (revoke_refresh_token R U j t)"
  unfolding revoke_refresh_token_def drop_from_index_def
  by (auto split: option.split intro!: steps_rules keeps_query keeps_exec owned_cmds simp del: ks_exec.simps)

lemma keeps_owned_revoke_all: "keeps (\<lambda>r. owned U ow D (\<alpha> r)) (revoke_all_sessions R U u t)"
proof -
  have "keeps (\<lambda>r. owned U ow D (\<alpha> r)) (rd_pipe R (revoke_cmds U u js) t)" for js
    by (rule keeps_pipe) (auto simp: revoke_cmds_def owned_cmds simp del: ks_exec.simps)
  then show ?thesis
    unfolding revoke_all_sessions_def
    by (auto intro!: steps_rules keeps_query owned_cmds simp del: ks_exec.simps)
qed

text \<open>A revocation of all sessions of a user takes those, and no other.\<close>

lemma revoke_all_exact:
  assumes inv: "index_inv U T X t (\<alpha> r)" and ow: "owned U ow D (\<alpha> r)" and D: "D \<inter> X = {}"
    and run: "revoke_all_sessions R U u t r = (Inr n, r')" and "t \<le> t'"
  shows "session_of U t' (\<alpha> r') j
    = (if session_of U t' (\<alpha> r) j = Some u then None else session_of U t' (\<alpha> r) j)"
proof -
  have wt: "well_typed U (\<alpha> r)" using inv by (simp add: index_inv_def)
  note after = revoke_all_ok(2) [OF wt run, of t' j]
  show ?thesis
  proof (cases "session_of U t' (\<alpha> r) j")
    case None
    with after show ?thesis by simp
  next
    case (Some v)
    then obtain d where d: "\<alpha> r (refresh_key U j) = Some (RStr (uuid_show U v), d)" "live t' d"
      using session_of_Some_iff [OF wt] by auto
    with ow have owner: "ow j = v" and j: "j \<notin> X" using D by (auto simp: owned_def)
    have now: "session_of U t (\<alpha> r) j = Some v"
      using d \<open>t \<le> t'\<close> session_of_Some_iff [OF wt] by (auto intro: live_mono)
    show ?thesis
    proof (cases "v = u")
      case True
      with now indexed_if_session [OF inv _ j, of u] have "uuid_show U j \<in> indexed U t (\<alpha> r) u" by simp
      with after Some True show ?thesis by simp
    next
      case False
      have "uuid_show U j \<notin> indexed U t (\<alpha> r) u"
        using owned_member [OF ow, of t u] owner False
        by (fastforce simp: indexed_def split: option.splits redis_value.splits)
      with after Some False show ?thesis by simp
    qed
  qed
qed

text \<open>The token store does not touch the counters, nor the lockout store the sessions.\<close>

lemma revoke_failures_frame:
  "keeps (\<lambda>r. lockout_failures t' (\<alpha> r) = f) (revoke_refresh_token R U j t)"
  "keeps (\<lambda>r. lockout_failures t' (\<alpha> r) = f) (revoke_all_sessions R U u t)"
proof -
  show "keeps (\<lambda>r. lockout_failures t' (\<alpha> r) = f) (revoke_refresh_token R U j t)"
    unfolding revoke_refresh_token_def drop_from_index_def
    by (auto split: option.split intro!: steps_rules keeps_query keeps_exec
        simp: failures_session_cmd simp del: ks_exec.simps)
  have "keeps (\<lambda>r. lockout_failures t' (\<alpha> r) = f) (rd_pipe R (revoke_cmds U u js) t)" for js
    by (rule keeps_pipe) (auto simp: revoke_cmds_def failures_session_cmd simp del: ks_exec.simps)
  then show "keeps (\<lambda>r. lockout_failures t' (\<alpha> r) = f) (revoke_all_sessions R U u t)"
    unfolding revoke_all_sessions_def
    by (auto intro!: steps_rules keeps_query simp: failures_session_cmd simp del: ks_exec.simps)
qed

end

end
