(* ===== verification/Account_Refinement.thy ===== *)
theory Account_Refinement
  imports Account_Spec Handler_Outcome Session_Owner
begin

text \<open>
  How a state of the service stands for a state of \<open>Account_Spec\<close>, and that every operation that a
  handler calls keeps this, while database, cache and hashing answer: rows stand for members and
  tickets, the cache for sessions and counters.
\<close>

section \<open>The correspondence\<close>

definition same_member :: "('r, 'g) app_state \<Rightarrow> user \<Rightarrow> member \<Rightarrow> bool" where
  "same_member St r m \<longleftrightarrow> user_id r = m_id m \<and> user_email r = m_email m
     \<and> (\<forall>pw. verify_hash (st_argon2_crate St) (st_passwords St) pw (password_hash r) = Inr (pw = m_password m))"

definition same_ticket :: "reset_row \<Rightarrow> ticket \<Rightarrow> bool" where
  "same_ticket r k \<longleftrightarrow> row_id r = k_id k \<and> token_hash r = k_digest k \<and> row_user_id r = k_owner k
     \<and> k_until k = (case used_at r of None \<Rightarrow> Some (expires_at r) | Some _ \<Rightarrow> None)"

definition rep_db :: "('r, 'g) app_state \<Rightarrow> database \<Rightarrow> accounts \<Rightarrow> bool" where
  "rep_db St d a \<longleftrightarrow> list_all2 (same_member St) (users d) (ac_members a)
     \<and> list_all2 same_ticket (reset_rows d) (ac_tickets a)"

definition rep_cache :: "uuid_lib \<Rightarrow> instant \<Rightarrow> keyspace \<Rightarrow> accounts \<Rightarrow> bool" where
  "rep_cache U t ks a \<longleftrightarrow>
     (\<forall>t' \<ge> t. session_of U t' ks = owner_at t' a \<and> lockout_failures t' ks = failures_at t' a)
   \<and> (\<exists>ow. owned U ow (set (ac_used a)) ks)"

definition rep_mail :: "('r, 'g) app_state \<Rightarrow> (string \<times> string) list \<Rightarrow> accounts \<Rightarrow> bool" where
  "rep_mail St l a \<longleftrightarrow>
     (st_email St = Capture \<longrightarrow> l = map (\<lambda>(e, raw). (e, reset_link (st_app_base_url St) raw)) (ac_mailed a))"

definition represents ::
    "('r, 'g) app_state \<Rightarrow> ('r \<Rightarrow> keyspace) \<Rightarrow> ('g \<Rightarrow> uuid list) \<Rightarrow> ('r \<Rightarrow> bool) \<Rightarrow> ('g \<Rightarrow> bool)
      \<Rightarrow> ('r, 'g) world \<Rightarrow> accounts \<Rightarrow> bool" where
  "represents St \<alpha> drawn up calm w a \<longleftrightarrow>
     svc_inv St \<alpha> drawn (set (ac_used a)) w \<and> distinct (drawn (gen w)) \<and> up (cache w) \<and> calm (gen w)
   \<and> rep_db St (db w) a \<and> rep_cache (st_uuid St) (clock w) (\<alpha> (cache w)) a \<and> rep_mail St (sent w) a"

section \<open>The tables\<close>

lemma find_same:
  assumes "list_all2 R xs ys" and "\<And>x y. R x y \<Longrightarrow> p x \<longleftrightarrow> q y"
  shows "rel_option R (List.find p xs) (List.find q ys)"
  using assms(1) by (induction rule: list_all2_induct) (simp_all add: assms(2))

lemma Bex_same:
  assumes "list_all2 R xs ys" and "\<And>x y. R x y \<Longrightarrow> p x \<longleftrightarrow> q y"
  shows "(\<exists>x \<in> set xs. p x) \<longleftrightarrow> (\<exists>y \<in> set ys. q y)"
  using assms(1) by (induction rule: list_all2_induct) (simp_all add: assms(2))

lemma map_same:
  assumes "list_all2 R xs ys" and "\<And>x y. R x y \<Longrightarrow> R (f x) (g y)"
  shows "list_all2 R (map f xs) (map g ys)"
  using assms(1) by (induction rule: list_all2_induct) (simp_all add: assms(2))

lemma filter_same:
  assumes "list_all2 R xs ys" and "\<And>x y. R x y \<Longrightarrow> p x \<longleftrightarrow> q y"
  shows "list_all2 R (filter p xs) (filter q ys)"
  using assms(1) by (induction rule: list_all2_induct) (simp_all add: assms(2))

lemma good_same: "same_ticket r k \<Longrightarrow> consumable h t r \<longleftrightarrow> good_ticket t h k"
  by (auto simp: same_ticket_def consumable_def good_ticket_def split: option.splits)

lemma rep_find_email:
  assumes rep: "rep_db St d a"
  shows "rel_option (same_member St) (user_with_email d e) (member_with_email a e)"
  using rep unfolding rep_db_def user_with_email_def member_with_email_def
  by (intro find_same) (auto simp: same_member_def)

lemma rep_find_id:
  assumes rep: "rep_db St d a"
  shows "rel_option (same_member St) (user_with_id d i) (member_with_id a i)"
  using rep unfolding rep_db_def user_with_id_def member_with_id_def
  by (intro find_same) (auto simp: same_member_def)

lemma rep_find_ticket:
  assumes rep: "rep_db St d a"
  shows "rel_option same_ticket (List.find (consumable h t) (reset_rows d)) (List.find (good_ticket t h) (ac_tickets a))"
  using rep unfolding rep_db_def by (intro find_same) (auto simp: good_same)

lemma rep_taken:
  assumes rep: "rep_db St d a"
  shows "(\<exists>u \<in> set (users d). user_id u = i \<or> user_email u = e) \<longleftrightarrow> (\<exists>m \<in> set (ac_members a). m_id m = i \<or> m_email m = e)"
    and "(\<exists>r \<in> set (reset_rows d). row_id r = i \<or> token_hash r = h) \<longleftrightarrow> (\<exists>k \<in> set (ac_tickets a). k_id k = i \<or> k_digest k = h)"
  using rep unfolding rep_db_def by (auto intro!: Bex_same simp: same_member_def same_ticket_def)

lemma rep_insert_user:
  assumes rep: "rep_db St d a" and "\<forall>pw'. verify_hash (st_argon2_crate St) (st_passwords St) pw' h = Inr (pw' = pw)"
    and ins: "insert_user i e h t d = (Inr u, d')"
  shows "rep_db St d' (a\<lparr>ac_members := ac_members a @ [\<lparr>m_id = i, m_email = e, m_password = pw\<rparr>]\<rparr>)"
  using rep assms
  by (auto simp: rep_db_def insert_user_def Let_def same_member_def intro!: list_all2_appendI split: if_splits)

lemma rep_update_password:
  assumes rep: "rep_db St d a" and "\<forall>pw'. verify_hash (st_argon2_crate St) (st_passwords St) pw' h = Inr (pw' = pw)"
  shows "rep_db St (snd (update_user_password i h t d)) (set_password i pw a)"
  using rep assms
  by (auto simp: rep_db_def update_user_password_def sql_update_def set_password_def same_member_def
      intro!: map_same)

lemma rep_delete:
  assumes rep: "rep_db St d a"
  shows "rep_db St (snd (delete_user i d)) (remove_member i a)"
  using rep
  by (auto simp: rep_db_def delete_user_def sql_delete_def remove_member_def same_member_def same_ticket_def
      intro!: filter_same)

lemma rep_insert_ticket:
  assumes rep: "rep_db St d a" and "insert_reset_row i u h x d = (Inr y, d')"
  shows "rep_db St d' (a\<lparr>ac_tickets := ac_tickets a @
      [\<lparr>k_id = i, k_digest = h, k_owner = u, k_until = Some x\<rparr>]\<rparr>)"
  using rep assms
  by (auto simp: rep_db_def insert_reset_row_def same_ticket_def intro!: list_all2_appendI split: if_splits)

lemma rep_spend:
  assumes rep: "rep_db St d a"
  shows "rep_db St (snd (consume_reset_row h t d)) (spend_ticket t h a)"
proof -
  have "same_ticket r k \<Longrightarrow> same_ticket (if consumable h t r then r\<lparr>used_at := Some t\<rparr> else r)
      (if good_ticket t h k then k\<lparr>k_until := None\<rparr> else k)" for r k
    by (simp add: good_same) (simp add: same_ticket_def)
  then show ?thesis
    using rep
    by (auto simp: rep_db_def consume_reset_row_def sql_update_def spend_ticket_def intro!: map_same)
qed

lemma rep_db_cong: "ac_members a' = ac_members a \<Longrightarrow> ac_tickets a' = ac_tickets a \<Longrightarrow> rep_db St d a' \<longleftrightarrow> rep_db St d a"
  by (simp add: rep_db_def)

section \<open>The cache\<close>

lemma rep_cache_later: "rep_cache U t ks a \<Longrightarrow> t \<le> t' \<Longrightarrow> rep_cache U t' ks a"
  unfolding rep_cache_def by (auto intro: order_trans)

lemma rep_cache_cong:
  "(\<And>t. owner_at t a' = owner_at t a) \<Longrightarrow> (\<And>t. failures_at t a' = failures_at t a) \<Longrightarrow> ac_used a' = ac_used a \<Longrightarrow>
    rep_cache U t ks a' \<longleftrightarrow> rep_cache U t ks a"
  by (simp add: rep_cache_def)

text \<open>A change of a counter leaves the sessions.\<close>

lemma rep_cache_counter:
  assumes "rep_cache U t ks a"
  shows "rep_cache U t (ks(lockout_key e := None)) (forget_failures e a)"
    and "n = failures_at t a e + 1 \<Longrightarrow>
      rep_cache U t (ks(lockout_key e \<mapsto> (RNum n, Some (t + secs 900)))) (count_failure t e a)"
proof -
  have s: "session_of U t' (ks(lockout_key e := x)) = session_of U t' ks" for t' x
    by (simp add: session_of_def lookup_def fun_eq_iff)
  have o': "owned U ow D (ks(lockout_key e := x)) \<longleftrightarrow> owned U ow D ks" for ow D x
    by (rule owned_cong) simp_all
  show "rep_cache U t (ks(lockout_key e := None)) (forget_failures e a)"
    using assms by (simp add: rep_cache_def s o' lockout_failures_remove)
  show "rep_cache U t (ks(lockout_key e \<mapsto> (RNum n, Some (t + secs 900)))) (count_failure t e a)"
    if "n = failures_at t a e + 1"
    using assms that by (simp add: rep_cache_def s o' lockout_failures_upd)
qed

section \<open>The service while nothing fails\<close>

locale account_service =
  available_service St \<alpha> keypair drawn up calm + password_binding "st_argon2_crate St"
  for St :: "('r, 'g) app_state" and \<alpha> and keypair and drawn and up and calm +
  assumes calm_uuid: "calm g \<Longrightarrow> pg_uuid (st_env St) g = (u, g') \<Longrightarrow> calm g'"
    and calm_salt: "calm g \<Longrightarrow> new_salt (st_env St) g = (s, g') \<Longrightarrow>
      calm g' \<and> (\<forall>pw. \<exists>h. hash_password (st_argon2_crate St) (argon2 (st_passwords St)) pw s = Inr h)"
    and calm_fill: "calm g \<Longrightarrow> fill_bytes (st_env St) n g = (bs, g') \<Longrightarrow> calm g'"
    and calm_http: "calm g \<Longrightarrow> http_post (st_env St) url hs js g = (y, g') \<Longrightarrow> calm g'"
begin

abbreviation stands :: "('r, 'g) world \<Rightarrow> accounts \<Rightarrow> bool" where
  "stands \<equiv> represents St \<alpha> drawn up calm"

text \<open>An operation that draws no UUID leads from a state to one that stands for \<open>a1\<close>.\<close>

abbreviation leads :: "('r, 'g) world \<Rightarrow> ('r, 'g) world \<Rightarrow> accounts \<Rightarrow> bool" where
  "leads w w1 a1 \<equiv> stands w1 a1 \<and> clock w1 = clock w \<and> drawn (gen w1) = drawn (gen w)"

lemma leadsI:
  assumes "stands w a" and e: "evo St \<alpha> drawn (set (ac_used a)) w w1" and "drawn (gen w1) = drawn (gen w)"
    and "up (cache w1)" and "calm (gen w1)" and "ac_used a1 = ac_used a" and "rep_db St (db w1) a1"
    and "rep_cache (st_uuid St) (clock w) (\<alpha> (cache w1)) a1" and "rep_mail St (sent w1) a1"
  shows "leads w w1 a1"
  using assms evoD(1,2) [OF e] by (simp add: represents_def)

lemma stands_svc:
  assumes "stands w a"
  shows "svc_inv St \<alpha> drawn (set (ac_used a)) w" "up (cache w)" "calm (gen w)" "rep_db St (db w) a"
    "rep_cache (st_uuid St) (clock w) (\<alpha> (cache w)) a" "rep_mail St (sent w) a" "distinct (drawn (gen w))"
  using assms by (simp_all add: represents_def)

lemma stands_failures: "stands w a \<Longrightarrow> lockout_failures (clock w) (\<alpha> (cache w)) e = failures_at (clock w) a e"
  by (simp add: represents_def rep_cache_def)

text \<open>Operations on the database.\<close>

lemma pg_run_up:
  assumes "calm g"
  obtains g' where "pg_run (st_env St) stmt (d, g) = (fst (stmt d), (snd (stmt d), g'))"
    and "calm g'" and "drawn g' = drawn g"
proof -
  obtain x g' where g: "pg_next (st_env St) g = (x, g')" by fastforce
  with calm_next [OF assms g] log_next [OF g] show thesis by (intro that [of g']) (simp_all add: pg_run_def)
qed

lemma pg_run_with_id_up:
  assumes "calm g"
  obtains i g' where "pg_run_with_id (st_env St) stmt (d, g) = (fst (stmt i d), (snd (stmt i d), g'))"
    and "calm g'" and "drawn g' = drawn g"
proof -
  obtain i g1 where i: "pg_uuid (st_env St) g = (i, g1)" by fastforce
  obtain g' where g': "pg_run (st_env St) (stmt i) (d, g1) = (fst (stmt i d), (snd (stmt i d), g'))"
      "calm g'" "drawn g' = drawn g1"
    using pg_run_up [OF calm_uuid [OF assms i]] by blast
  with i log_uuid [OF i] show thesis by (intro that [of i g']) (simp_all add: pg_run_with_id_def)
qed

lemma db_leads:
  assumes "stands w a" and "evo St \<alpha> drawn (set (ac_used a)) w (w\<lparr>db := d, gen := g\<rparr>)" and "drawn g = drawn (gen w)" and "calm g"
    and "rep_db St d a1" and "\<And>t. owner_at t a1 = owner_at t a" and "\<And>t. failures_at t a1 = failures_at t a"
    and "ac_used a1 = ac_used a" and "ac_mailed a1 = ac_mailed a"
  shows "leads w (w\<lparr>db := d, gen := g\<rparr>) a1"
  using assms(1-5,8) stands_svc [OF assms(1)] rep_cache_cong [OF assms(6-8)]
  by (intro leadsI) (simp_all add: rep_mail_def assms(9))

lemma find_email_leads:
  assumes "stands w a"
  obtains x w1 where "db_op (\<lambda>_. find_by_email (st_env St) e) w = (Inr x, w1)" and "leads w w1 a"
    and "rel_option (same_member St) x (member_with_email a e)"
proof -
  note s = stands_svc [OF assms]
  obtain g where g: "pg_run (st_env St) (select_user (\<lambda>u. user_email u = e)) (db w, gen w)
      = (Inr (user_with_email (db w) e), (db w, g))" "calm g" "drawn g = drawn (gen w)"
    using pg_run_up [OF s(3), of "select_user (\<lambda>u. user_email u = e)" "db w"]
    by (auto simp: select_user_def user_with_email_def)
  then have run: "db_op (\<lambda>_. find_by_email (st_env St) e) w
      = (Inr (user_with_email (db w) e), w\<lparr>db := db w, gen := g\<rparr>)"
    by (simp add: db_op_def on_db_def mapErrE_def find_by_email_def)
  from db_leads [OF assms stepsD [OF evolves_db(2) run] g(3,2) s(4)]
  show thesis by (intro that [OF run _ rep_find_email [OF s(4)]]) simp_all
qed

lemma find_id_leads:
  assumes "stands w a"
  obtains x w1 where "db_op (\<lambda>_. find_by_id (st_env St) i) w = (Inr x, w1)" and "leads w w1 a"
    and "rel_option (same_member St) x (member_with_id a i)"
proof -
  note s = stands_svc [OF assms]
  obtain g where g: "pg_run (st_env St) (select_user (\<lambda>u. user_id u = i)) (db w, gen w)
      = (Inr (user_with_id (db w) i), (db w, g))" "calm g" "drawn g = drawn (gen w)"
    using pg_run_up [OF s(3), of "select_user (\<lambda>u. user_id u = i)" "db w"]
    by (auto simp: select_user_def user_with_id_def)
  then have run: "db_op (\<lambda>_. find_by_id (st_env St) i) w
      = (Inr (user_with_id (db w) i), w\<lparr>db := db w, gen := g\<rparr>)"
    by (simp add: db_op_def on_db_def mapErrE_def find_by_id_def)
  from db_leads [OF assms stepsD [OF evolves_db(3) run] g(3,2) s(4)]
  show thesis by (intro that [OF run _ rep_find_id [OF s(4)]]) simp_all
qed

lemma create_user_leads:
  assumes "stands w a" and h: "\<forall>pw'. verify_hash (st_argon2_crate St) (st_passwords St) pw' h = Inr (pw' = pw)"
  obtains i x w1 where "db_op (create_user (st_env St) e h) w = (x, w1)"
    and "(\<exists>m \<in> set (ac_members a). m_id m = i \<or> m_email m = e) \<longrightarrow> x = Inl Conflict \<and> leads w w1 a"
    and "\<not> (\<exists>m \<in> set (ac_members a). m_id m = i \<or> m_email m = e) \<longrightarrow>
      (\<exists>u. x = Inr u \<and> user_id u = i \<and> user_email u = e)
      \<and> leads w w1 (a\<lparr>ac_members := ac_members a @ [\<lparr>m_id = i, m_email = e, m_password = pw\<rparr>]\<rparr>)"
proof -
  note s = stands_svc [OF assms(1)]
  let ?ins = "\<lambda>i. insert_user i e h (clock w)"
  obtain i g where g: "pg_run_with_id (st_env St) ?ins (db w, gen w) = (fst (?ins i (db w)), (snd (?ins i (db w)), g))"
      "calm g" "drawn g = drawn (gen w)"
    using pg_run_with_id_up [OF s(3), of ?ins "db w"] by blast
  let ?w1 = "w\<lparr>db := snd (?ins i (db w)), gen := g\<rparr>"
  obtain x where run: "db_op (create_user (st_env St) e h) w = (x, ?w1)"
      and x: "x = (case fst (?ins i (db w)) of Inl err \<Rightarrow> Inl (api_of_data (from_sqlx err)) | Inr u \<Rightarrow> Inr u)"
    using g(1) by (auto simp: db_op_def on_db_def mapErrE_def create_user_def split: sum.splits)
  note leads = db_leads [OF assms(1) stepsD [OF evolves_db(1) run] g(3,2)]
  show thesis
  proof (rule that [OF run]; rule impI)
    assume "\<exists>m \<in> set (ac_members a). m_id m = i \<or> m_email m = e"
    then have taken: "\<exists>u \<in> set (users (db w)). user_id u = i \<or> user_email u = e"
      by (simp only: rep_taken [OF s(4)])
    then have "x = Inl Conflict" "snd (?ins i (db w)) = db w" by (simp_all add: x insert_user_def)
    with leads [of a] s(4) show "x = Inl Conflict \<and> leads w ?w1 a" by simp
  next
    assume "\<not> (\<exists>m \<in> set (ac_members a). m_id m = i \<or> m_email m = e)"
    then have new: "\<not> (\<exists>u \<in> set (users (db w)). user_id u = i \<or> user_email u = e)"
      by (simp only: rep_taken [OF s(4)] not_False_eq_True)
    then obtain u where u: "?ins i (db w) = (Inr u, snd (?ins i (db w)))" "user_id u = i" "user_email u = e"
      by (auto simp: insert_user_def Let_def)
    have "leads w ?w1 (a\<lparr>ac_members := ac_members a @ [\<lparr>m_id = i, m_email = e, m_password = pw\<rparr>]\<rparr>)"
      by (rule leads) (simp_all add: rep_insert_user [OF s(4) h u(1)])
    moreover have "x = Inr u" using u(1) by (simp add: x prod_eq_iff)
    ultimately show "(\<exists>u. x = Inr u \<and> user_id u = i \<and> user_email u = e)
      \<and> leads w ?w1 (a\<lparr>ac_members := ac_members a @ [\<lparr>m_id = i, m_email = e, m_password = pw\<rparr>]\<rparr>)"
      using u by blast
  qed
qed

lemma update_password_leads:
  assumes "stands w a" and h: "\<forall>pw'. verify_hash (st_argon2_crate St) (st_passwords St) pw' h = Inr (pw' = pw)"
    and m: "member_with_id a i \<noteq> None"
  obtains w1 where "db_op (update_password (st_env St) i h) w = (Inr (), w1)" and "leads w w1 (set_password i pw a)"
proof -
  note s = stands_svc [OF assms(1)]
  let ?st = "update_user_password i h (clock w)"
  obtain g where g: "pg_run (st_env St) ?st (db w, gen w) = (fst (?st (db w)), (snd (?st (db w)), g))"
      "calm g" "drawn g = drawn (gen w)"
    using pg_run_up [OF s(3), of ?st "db w"] by blast
  have "user_with_id (db w) i \<noteq> None" using rep_find_id [OF s(4), of i] m by (auto elim: option.rel_cases)
  then obtain n where n: "fst (?st (db w)) = Inr n" "n \<noteq> 0"
    using rows_affected_iff [of i h "clock w" "db w"] by (auto simp: update_user_password_def)
  have run: "db_op (update_password (st_env St) i h) w = (Inr (), w\<lparr>db := snd (?st (db w)), gen := g\<rparr>)"
    using g(1) n by (simp add: db_op_def on_db_def mapErrE_def update_password_def bindE_def)
  show thesis
    by (rule that [OF run db_leads [OF assms(1) stepsD [OF evolves_db(4) run] g(3,2)]])
      (simp_all add: rep_update_password [OF s(4) h])
qed

lemma delete_leads:
  assumes "stands w a"
  obtains w1 where "db_op (\<lambda>_. delete_by_id (st_env St) i) w = (Inr (), w1)" and "leads w w1 (remove_member i a)"
proof -
  note s = stands_svc [OF assms]
  obtain g where g: "pg_run (st_env St) (delete_user i) (db w, gen w) = (Inr (), (snd (delete_user i (db w)), g))"
      "calm g" "drawn g = drawn (gen w)"
    using pg_run_up [OF s(3), of "delete_user i" "db w"] by (auto simp: delete_user_def)
  have run: "db_op (\<lambda>_. delete_by_id (st_env St) i) w = (Inr (), w\<lparr>db := snd (delete_user i (db w)), gen := g\<rparr>)"
    using g(1) by (simp add: db_op_def on_db_def mapErrE_def delete_by_id_def bindE_def)
  show thesis
    by (rule that [OF run db_leads [OF assms(1) stepsD [OF evolves_db(5) run] g(3,2)]])
      (simp_all add: rep_delete [OF s(4)])
qed

text \<open>The reset tokens.\<close>

lemma create_ticket_leads:
  assumes "stands w a" and m: "member_with_email a e = Some m"
  obtains i x w1 where "db_op (\<lambda>_. create_reset_token (st_env St) (m_id m) h end_at) w = (x, w1)"
    and "(\<exists>k \<in> set (ac_tickets a). k_id k = i \<or> k_digest k = h) \<longrightarrow> x = Inl Conflict \<and> leads w w1 a"
    and "\<not> (\<exists>k \<in> set (ac_tickets a). k_id k = i \<or> k_digest k = h) \<longrightarrow> x = Inr ()
      \<and> leads w w1 (a\<lparr>ac_tickets := ac_tickets a @
          [\<lparr>k_id = i, k_digest = h, k_owner = m_id m, k_until = Some end_at\<rparr>]\<rparr>)"
proof -
  note s = stands_svc [OF assms(1)]
  let ?ins = "\<lambda>i. insert_reset_row i (m_id m) h end_at"
  obtain i g where g: "pg_run_with_id (st_env St) ?ins (db w, gen w) = (fst (?ins i (db w)), (snd (?ins i (db w)), g))"
      "calm g" "drawn g = drawn (gen w)"
    using pg_run_with_id_up [OF s(3), of ?ins "db w"] by blast
  let ?w1 = "w\<lparr>db := snd (?ins i (db w)), gen := g\<rparr>"
  obtain x where run: "db_op (\<lambda>_. create_reset_token (st_env St) (m_id m) h end_at) w = (x, ?w1)"
      and x: "x = (case fst (?ins i (db w)) of Inl err \<Rightarrow> Inl (api_of_data (from_sqlx err)) | Inr u \<Rightarrow> Inr u)"
    using g(1) by (auto simp: db_op_def on_db_def mapErrE_def create_reset_token_def split: sum.splits)
  note leads = db_leads [OF assms(1) stepsD [OF evolves_db(6) run] g(3,2)]
  have owner: "\<exists>u \<in> set (users (db w)). user_id u = m_id m"
    using rep_find_email [OF s(4), of e] m user_with_email_Some(1) [of "db w" e]
    by (auto simp: same_member_def elim!: option.rel_cases)
  show thesis
  proof (rule that [OF run]; rule impI)
    assume "\<exists>k \<in> set (ac_tickets a). k_id k = i \<or> k_digest k = h"
    then have "\<exists>r \<in> set (reset_rows (db w)). row_id r = i \<or> token_hash r = h"
      by (simp only: rep_taken [OF s(4)])
    then have "x = Inl Conflict" "snd (?ins i (db w)) = db w" by (simp_all add: x insert_reset_row_def)
    with leads [of a] s(4) show "x = Inl Conflict \<and> leads w ?w1 a" by simp
  next
    assume "\<not> (\<exists>k \<in> set (ac_tickets a). k_id k = i \<or> k_digest k = h)"
    then have "\<not> (\<exists>r \<in> set (reset_rows (db w)). row_id r = i \<or> token_hash r = h)"
      by (simp only: rep_taken [OF s(4)] not_False_eq_True)
    with owner have ins: "?ins i (db w) = (Inr (), snd (?ins i (db w)))" by (simp add: insert_reset_row_def)
    have "leads w ?w1 (a\<lparr>ac_tickets := ac_tickets a @
          [\<lparr>k_id = i, k_digest = h, k_owner = m_id m, k_until = Some end_at\<rparr>]\<rparr>)"
      by (rule leads) (simp_all add: rep_insert_ticket [OF s(4) ins])
    moreover have "x = Inr ()" using ins by (simp add: x prod_eq_iff)
    ultimately show "x = Inr () \<and> leads w ?w1 (a\<lparr>ac_tickets := ac_tickets a @
          [\<lparr>k_id = i, k_digest = h, k_owner = m_id m, k_until = Some end_at\<rparr>]\<rparr>)" by blast
  qed
qed

lemma consume_ticket_leads:
  assumes "stands w a"
  obtains w1 where "db_op (consume_reset_token (st_env St) h) w
      = (Inr (map_option k_owner (List.find (good_ticket (clock w) h) (ac_tickets a))), w1)"
    and "leads w w1 (spend_ticket (clock w) h a)"
proof -
  note s = stands_svc [OF assms]
  let ?st = "consume_reset_row h (clock w)"
  obtain g where g: "pg_run (st_env St) ?st (db w, gen w) = (fst (?st (db w)), (snd (?st (db w)), g))"
      "calm g" "drawn g = drawn (gen w)"
    using pg_run_up [OF s(3), of ?st "db w"] by blast
  have "fst (?st (db w)) = Inr (map_option k_owner (List.find (good_ticket (clock w) h) (ac_tickets a)))"
    using rep_find_ticket [OF s(4), of h "clock w"]
    by (auto simp: consume_reset_row_def same_ticket_def elim!: option.rel_cases)
  with g(1) have run: "db_op (consume_reset_token (st_env St) h) w
      = (Inr (map_option k_owner (List.find (good_ticket (clock w) h) (ac_tickets a))),
         w\<lparr>db := snd (?st (db w)), gen := g\<rparr>)"
    by (simp add: db_op_def on_db_def mapErrE_def consume_reset_token_def)
  show thesis
    by (rule that [OF run db_leads [OF assms(1) stepsD [OF evolves_db(7) run] g(3,2)]])
      (simp_all add: rep_spend [OF s(4)])
qed

text \<open>A ticket that can be redeemed belongs to a member.\<close>

lemma ticket_owner:
  assumes "stands w a" and "List.find (good_ticket (clock w) h) (ac_tickets a) = Some k"
  shows "member_with_id a (k_owner k) \<noteq> None"
proof -
  note s = stands_svc [OF assms(1)]
  have "reset_owner (db w) (clock w) h = Some (k_owner k)"
    using rep_find_ticket [OF s(4), of h "clock w"] assms(2)
    by (auto simp: reset_owner_def same_ticket_def elim!: option.rel_cases)
  then have "user_with_id (db w) (k_owner k) \<noteq> None"
    using reset_owner_exists s(1) by (auto simp: svc_inv_def)
  then show ?thesis using rep_find_id [OF s(4), of "k_owner k"] by (auto elim: option.rel_cases)
qed

lemma spend_none: "List.find (good_ticket t h) (ac_tickets a) = None \<Longrightarrow> spend_ticket t h a = a"
  by (auto simp: spend_ticket_def find_None_iff intro!: accounts.equality map_idI)

end

end
