(* ===== verification/Account_Simulation.thy ===== *)
theory Account_Simulation
  imports Account_Refinement
begin

text \<open>
  The simulation: while nothing fails, every handler does one step of \<open>Account_Spec\<close>, with the same
  answer. First the operations on the generators and the cache, then the handlers, then calls one
  after another.
\<close>

section \<open>Calls and their answers\<close>

fun perform :: "('r, 'g) app_state \<Rightarrow> account_call \<Rightarrow> (('r, 'g) world, api_error, response) io" where
  "perform St (Ac_Register b) = register St b"
| "perform St (Ac_Login b) = login St b"
| "perform St (Ac_Refresh b) = refresh St b"
| "perform St (Ac_Logout b) = logout St b"
| "perform St (Ac_Logout_All c) = logout_all St c"
| "perform St (Ac_Change_Password c b) = change_password St c b"
| "perform St (Ac_Delete_Me c) = delete_me St c"
| "perform St (Ac_Reset_Request b) = password_reset_request St b"
| "perform St (Ac_Reset_Confirm b) = password_reset_confirm St b"

fun done_status :: "account_call \<Rightarrow> nat" where
  "done_status (Ac_Reset_Request b) = 200"
| "done_status (Ac_Reset_Confirm b) = 200"
| "done_status _ = 204"

definition read_refresh :: "('r, 'g) app_state \<Rightarrow> instant \<Rightarrow> string \<Rightarrow> claims option" where
  "read_refresh St t tok = (case verify_refresh (st_jwt_crate St) (st_jwt St) tok t of
       Inl _ \<Rightarrow> None
     | Inr c \<Rightarrow> Some c)"

text \<open>The response that an outcome demands; the tokens of an opened session say whose it is.\<close>

definition answered ::
    "('r, 'g) app_state \<Rightarrow> instant \<Rightarrow> account_call \<Rightarrow> outcome \<Rightarrow> api_error + response \<Rightarrow> bool" where
  "answered St t c out x \<longleftrightarrow> (case out of
       Denied e \<Rightarrow> x = Inl e
     | Registered i e \<Rightarrow> x = Inr (respond 201 (Register_Response i e))
     | Opened j u e \<Rightarrow> (\<exists>acc r. x = Inr (respond 200 (Login_Response acc r))
          \<and> (\<exists>ca. verify_access (st_jwt_crate St) (st_jwt St) acc t = Inr ca \<and> c_sub ca = u \<and> c_email ca = e)
          \<and> (\<exists>cr. read_refresh St t r = Some cr \<and> c_jti cr = j \<and> c_sub cr = u \<and> c_email cr = e))
     | Done \<Rightarrow> x = Inr (respond (done_status c) No_Body))"

text \<open>Calls one after another, each after a waiting time; the results with their instants.\<close>

fun perform_all ::
    "('r, 'g) app_state \<Rightarrow> (duration \<times> account_call) list \<Rightarrow> ('r, 'g) world
      \<Rightarrow> (instant \<times> (api_error + response)) list \<times> ('r, 'g) world" where
  "perform_all St [] w = ([], w)"
| "perform_all St ((d, c) # cs) w =
     (case perform St c (w\<lparr>clock := clock w + d\<rparr>) of (x, w1) \<Rightarrow>
        (case perform_all St cs w1 of (xs, w2) \<Rightarrow> ((clock w + d, x) # xs, w2)))"

fun all_answered ::
    "('r, 'g) app_state \<Rightarrow> (duration \<times> account_call) list \<Rightarrow> (instant \<times> outcome) list
      \<Rightarrow> (instant \<times> (api_error + response)) list \<Rightarrow> bool" where
  "all_answered St ((d, c) # cs) ((t, out) # outs) ((t', x) # xs) \<longleftrightarrow>
     t = t' \<and> answered St t c out x \<and> all_answered St cs outs xs"
| "all_answered St [] [] [] \<longleftrightarrow> True"
| "all_answered St _ _ _ \<longleftrightarrow> False"

lemma all_answered_Nil: "all_answered St [] outs xs \<longleftrightarrow> outs = [] \<and> xs = []"
  by (cases outs; cases xs) simp_all

lemma all_answered_Cons:
  "all_answered St ((d, c) # cs) outs ((t, x) # xs) \<longleftrightarrow>
    (\<exists>out outs'. outs = (t, out) # outs' \<and> answered St t c out x \<and> all_answered St cs outs' xs)"
  by (cases outs) auto

context account_service begin

section \<open>Random values and mail\<close>

lemma gen_leads:
  assumes "stands w a" and e: "evo St \<alpha> drawn (set (ac_used a)) w (w\<lparr>gen := g\<rparr>)"
    and "calm g" and "drawn g = drawn (gen w)"
  shows "leads w (w\<lparr>gen := g\<rparr>) a"
  using assms stands_svc [OF assms(1)] by (intro leadsI [OF assms(1) e]) simp_all

lemma hash_leads:
  assumes "stands w a"
  obtains h w1 where "gen_op (\<lambda>_. hash_of (st_argon2_crate St) (st_env St) (st_passwords St) pw) w = (Inr h, w1)"
    and "leads w w1 a"
    and "\<forall>pw'. verify_hash (st_argon2_crate St) (st_passwords St) pw' h = Inr (pw' = pw)"
proof -
  note s = stands_svc [OF assms]
  obtain salt g where g: "new_salt (st_env St) (gen w) = (salt, g)" by fastforce
  from calm_salt [OF s(3) g] obtain h where c: "calm g"
    and h: "hash_password (st_argon2_crate St) (argon2 (st_passwords St)) pw salt = Inr h" by blast
  have hash: "hash_of (st_argon2_crate St) (st_env St) (st_passwords St) pw (gen w) = (Inr h, g)"
    using g h by (simp add: hash_of_def bindE_def drawE_def mapErrE_def)
  then have run: "gen_op (\<lambda>_. hash_of (st_argon2_crate St) (st_env St) (st_passwords St) pw) w
      = (Inr h, w\<lparr>gen := g\<rparr>)"
    by (simp add: gen_op_def on_gen_def mapErrE_def)
  show thesis
    by (rule that [OF run gen_leads [OF assms stepsD [OF evolves_gen(1) run] c log_salt [OF g]]])
      (simp add: verify_hash_iff [OF hash])
qed

lemma raw_leads:
  assumes "stands w a"
  obtains raw w1 where "on_gen (\<lambda>_. generate_reset_token (st_digest St) (st_env St)) w
      = (Inr (raw, token_digest (st_digest St) raw) :: api_error + string \<times> string, w1)" and "leads w w1 a"
proof -
  note s = stands_svc [OF assms]
  obtain bs g where g: "fill_bytes (st_env St) 32 (gen w) = (bs, g)" by fastforce
  let ?raw = "hex_encode (st_digest St) bs"
  have run: "on_gen (\<lambda>_. generate_reset_token (st_digest St) (st_env St)) w
      = (Inr (?raw, token_digest (st_digest St) ?raw) :: api_error + string \<times> string, w\<lparr>gen := g\<rparr>)"
    using g by (simp add: on_gen_def generate_reset_token_def bindE_def drawE_def Let_def)
  show thesis
    by (rule that [OF run gen_leads [OF assms stepsD [OF evolves_gen(4) run] calm_fill [OF s(3) g] log_fill [OF g]]])
qed

lemma mail_leads:
  assumes "stands w a" and l: "link = reset_link (st_app_base_url St) raw"
  obtains y :: "email_error + unit" and w1 where
    "on_mail (send_password_reset (st_env St) (st_email St) to link) w = (y, w1)"
    and "leads w w1 (a\<lparr>ac_mailed := ac_mailed a @ [(to, raw)]\<rparr>)"
proof -
  note s = stands_svc [OF assms(1)]
  obtain y :: "email_error + unit" and w1 where run:
    "on_mail (send_password_reset (st_env St) (st_email St) to link) w = (y, w1)" by fastforce
  then obtain g snt where send: "send_password_reset (st_env St) (st_email St) to link (gen w, sent w) = (y, (g, snt))"
    and w1: "w1 = w\<lparr>gen := g, sent := snt\<rparr>"
    by (auto simp: on_mail_iff)
  have g: "calm g \<and> drawn g = drawn (gen w) \<and> (st_email St = Capture \<longrightarrow> snt = sent w @ [(to, link)])"
  proof (cases "st_email St")
    case (Postmark key sender)
    obtain x g' where x: "http_post (st_env St) ''https://api.postmarkapp.com/email''
        [(''X-Postmark-Server-Token'', key)] (reset_mail sender to link) (gen w) = (x, g')" by fastforce
    then have "g = g'" using send Postmark
      by (cases x) (auto simp: send_password_reset_def split: if_splits)
    with calm_http [OF s(3) x] log_http [OF x] Postmark show ?thesis by simp
  next
    case Capture
    with send s(3) show ?thesis by (auto simp: send_password_reset_def)
  qed
  have e: "evo St \<alpha> drawn (set (ac_used a)) w w1"
    using s(1) g by (intro evo_other) (simp_all add: w1)
  have "leads w w1 (a\<lparr>ac_mailed := ac_mailed a @ [(to, raw)]\<rparr>)"
    by (rule leadsI [OF assms(1) e])
      (use s g l in \<open>auto simp: w1 rep_mail_def rep_db_def rep_cache_def\<close>)
  with run show thesis by (rule that)
qed

section \<open>The cache\<close>

lemma cache_leads:
  assumes "stands w a" and "evo St \<alpha> drawn (set (ac_used a)) w (w\<lparr>cache := c\<rparr>)" and "up c"
    and "rep_cache (st_uuid St) (clock w) (\<alpha> c) a1" and "ac_used a1 = ac_used a"
    and "ac_members a1 = ac_members a" "ac_tickets a1 = ac_tickets a" "ac_mailed a1 = ac_mailed a"
  shows "leads w (w\<lparr>cache := c\<rparr>) a1"
  using assms stands_svc [OF assms(1)]
  by (intro leadsI [OF assms(1,2)]) (simp_all add: rep_mail_def rep_db_def)

lemma locked_leads:
  assumes "stands w a"
  obtains w1 where "cache_op (is_locked (st_redis St) e) w = (Inr (10 \<le> failures_at (clock w) a e), w1)"
    and "leads w w1 a"
proof -
  note s = stands_svc [OF assms]
  obtain c where c: "cache_op (is_locked (st_redis St) e) w
      = (Inr (10 \<le> lockout_failures (clock w) (\<alpha> (cache w)) e), w\<lparr>cache := c\<rparr>)" "up c" "\<alpha> c = \<alpha> (cache w)"
    using is_locked_step [OF s(2) svc_counters [OF s(1)]] by blast
  note run = c(1) [unfolded stands_failures [OF assms]]
  show thesis
    by (rule that [OF run cache_leads [OF assms stepsD [OF evolves_cache(1) run] c(2)]])
      (use s c in simp_all)
qed

lemma record_leads:
  assumes "stands w a" and below: "failures_at (clock w) a e < 10"
  obtains n w1 where "cache_op (record_failure (st_redis St) e) w = (Inr n, w1)"
    and "leads w w1 (count_failure (clock w) e a)"
proof -
  note s = stands_svc [OF assms(1)]
  have ok: "counters_ok (\<alpha> (cache w))" "lockout_failures (clock w) (\<alpha> (cache w)) e < 10"
    using svc_counters [OF s(1)] stands_failures [OF assms(1)] below by simp_all
  obtain n c where c: "record_failure (st_redis St) e (clock w) (cache w) = (Inr n, c)" "up c"
    using record_failure_up [OF s(2) ok] by blast
  note run = cache_op_run [where m = "record_failure (st_redis St) e", OF c(1)]
  show thesis
    by (rule that [OF run cache_leads [OF assms(1) evolves_record_failure [OF ok(2) run] c(2)]])
      (simp_all add: record_failure_ok(1) [OF ok c(1)] rep_cache_counter(2) [OF s(5)]
        stands_failures [OF assms(1)] LOCKOUT_WINDOW_SECS_def)
qed

lemma clear_leads:
  assumes "stands w a"
  obtains w1 where "cache_op (clear_failures (st_redis St) e) w = (Inr (), w1)"
    and "leads w w1 (forget_failures e a)"
proof -
  note s = stands_svc [OF assms(1)]
  obtain c where c: "clear_failures (st_redis St) e (clock w) (cache w) = (Inr (), c)" "up c"
    using clear_failures_up [OF s(2)] by blast
  note run = cache_op_run [where m = "clear_failures (st_redis St) e", OF c(1)]
  show thesis
    by (rule that [OF run cache_leads [OF assms(1) stepsD [OF evolves_cache(2) run] c(2)]])
      (simp_all add: clear_failures_ok [OF c(1)] rep_cache_counter(1) [OF s(5)])
qed

lemma revoke_leads:
  assumes "stands w a"
  obtains w1 where "cache_op (revoke_refresh_token (st_redis St) (st_uuid St) j) w
      = (Inr (owner_at (clock w) a j), w1)" and "leads w w1 (close_session j a)"
proof -
  note s = stands_svc [OF assms(1)]
  note wt = svc_typed [OF s(1)]
  obtain v c where c: "revoke_refresh_token (st_redis St) (st_uuid St) j (clock w) (cache w) = (Inr v, c)" "up c"
    using revoke_up [OF s(2) wt] by blast
  note ok = revoke_ok [OF wt c(1)]
  obtain ow where ow: "owned (st_uuid St) ow (set (ac_used a)) (\<alpha> (cache w))"
    and reps: "\<And>t. clock w \<le> t \<Longrightarrow> session_of (st_uuid St) t (\<alpha> (cache w)) = owner_at t a"
      "\<And>t. clock w \<le> t \<Longrightarrow> lockout_failures t (\<alpha> (cache w)) = failures_at t a"
    using s(5) unfolding rep_cache_def by blast
  have v: "v = owner_at (clock w) a j" using ok(1) reps(1) by simp
  note run = cache_op_run [where m = "revoke_refresh_token (st_redis St) (st_uuid St) j", OF c(1), unfolded v]
  have "owned (st_uuid St) ow (set (ac_used a)) (\<alpha> c)" using stepsD [OF keeps_owned_revoke c(1)] ow by blast
  moreover have "lockout_failures t (\<alpha> c) = lockout_failures t (\<alpha> (cache w))" for t
    using stepsD [OF revoke_failures_frame(1) c(1)] by blast
  ultimately have "rep_cache (st_uuid St) (clock w) (\<alpha> c) (close_session j a)"
    using ok(2) reps unfolding rep_cache_def by auto
  then show thesis
    by (intro that [OF run] cache_leads [OF assms(1) stepsD [OF evolves_cache(3) run] c(2)]) simp_all
qed

lemma revoke_all_leads:
  assumes "stands w a"
  obtains n w1 where "cache_op (revoke_all_sessions (st_redis St) (st_uuid St) u) w = (Inr n, w1)"
    and "leads w w1 (close_all u a)"
proof -
  note s = stands_svc [OF assms(1)]
  obtain n c where c: "revoke_all_sessions (st_redis St) (st_uuid St) u (clock w) (cache w) = (Inr n, c)" "up c"
    using revoke_all_up [OF s(2) svc_typed [OF s(1)]] by blast
  obtain ow where ow: "owned (st_uuid St) ow (set (ac_used a)) (\<alpha> (cache w))"
    and reps: "\<And>t. clock w \<le> t \<Longrightarrow> session_of (st_uuid St) t (\<alpha> (cache w)) = owner_at t a"
      "\<And>t. clock w \<le> t \<Longrightarrow> lockout_failures t (\<alpha> (cache w)) = failures_at t a"
    using s(5) unfolding rep_cache_def by blast
  note run = cache_op_run [where m = "revoke_all_sessions (st_redis St) (st_uuid St) u", OF c(1)]
  have inv: "index_inv (st_uuid St) session_secs (set (drawn (gen w)) - set (ac_used a)) (clock w) (\<alpha> (cache w))"
    using s(1) by (simp add: svc_inv_def cache_inv_def)
  have "owned (st_uuid St) ow (set (ac_used a)) (\<alpha> c)" using stepsD [OF keeps_owned_revoke_all c(1)] ow by blast
  moreover have "lockout_failures t (\<alpha> c) = lockout_failures t (\<alpha> (cache w))" for t
    using stepsD [OF revoke_failures_frame(2) c(1)] by blast
  moreover note revoke_all_exact [OF inv ow _ c(1)]
  ultimately have "rep_cache (st_uuid St) (clock w) (\<alpha> c) (close_all u a)"
    using reps unfolding rep_cache_def by (auto simp: fun_eq_iff)
  then show thesis
    by (intro that [OF run] cache_leads [OF assms(1) stepsD [OF evolves_cache(4) run] c(2)]) simp_all
qed

text \<open>Closing a session that has ended changes nothing that can be observed.\<close>

lemma owner_at_ended: "owner_at t a j = None \<Longrightarrow> t \<le> t' \<Longrightarrow> owner_at t' a j = None"
  by (auto simp: owner_at_def split: option.splits if_splits)

lemma stands_closed:
  assumes "stands w (close_session j a)" and "owner_at (clock w) a j = None"
  shows "stands w a"
proof -
  have "(owner_at t a)(j := None) = owner_at t a" if "clock w \<le> t" for t
    using owner_at_ended [OF assms(2) that] by (auto simp: fun_eq_iff)
  with assms(1) show ?thesis by (simp add: represents_def rep_cache_def rep_db_def rep_mail_def)
qed

section \<open>Issuing a session\<close>

lemma issue_owned:
  assumes run: "issue_tokens St uid email w = (Inr res, w')" and "owned (st_uuid St) ow D (\<alpha> (cache w))"
    and "fresh_jti St w \<in> D" and "ow (fresh_jti St w) = uid"
  shows "owned (st_uuid St) ow D (\<alpha> (cache w'))"
proof -
  obtain acc w1 r j w2 where
    sa: "gen_op (sign_access_token (st_jwt_crate St) (st_env St) (st_jwt St) uid email) w = (Inr acc, w1)"
    and sr: "gen_op (sign_refresh_token (st_jwt_crate St) (st_env St) (st_jwt St) uid email) w1 = (Inr (r, j), w2)"
    and st: "cache_op (store_refresh_token (st_redis St) (st_uuid St) j uid refresh_ttl_secs) w2 = (Inr (), w')"
    using run unfolding issue_tokens_def by (elim bindE_InrE) (auto elim!: bindE_InrE split: prod.splits)
  obtain c where "store_refresh_token (st_redis St) (st_uuid St) j uid refresh_ttl_secs (clock w2) (cache w2) = (Inr (), c)"
      "w' = w2\<lparr>cache := c\<rparr>"
    using st by (auto simp: cache_op_iff)
  with stepsD [OF keeps_owned_store this(1)] sign_op_ok(4,7) [OF sa sr] assms(2-4) show ?thesis by simp
qed

lemma frames_sent_issue: "frames sent (issue_tokens St uid email)"
  unfolding issue_tokens_def gen_op_def cache_op_def
  by (auto intro!: steps_rules split: prod.split)

lemma issue_leads:
  assumes "stands w a" and run: "issue_tokens St uid email w = (x, w')" and "distinct (drawn (gen w'))"
  obtains j where "j \<notin> set (ac_used a)" and "stands w' (open_session (clock w) j uid a)" and "clock w' = clock w"
    and "answered St (clock w) c (Opened j uid email) x"
proof -
  note s = stands_svc [OF assms(1)]
  obtain acc r where x: "x = Inr (respond 200 (Login_Response acc r))" and uc: "up (cache w')" "calm (gen w')"
    using issue_tokens_up [OF s(2,3) svc_typed [OF s(1)], of uid email] run by auto
  note run' = run [unfolded x]
  let ?j = "fresh_jti St w"
  obtain acc' r' where res: "respond 200 (Login_Response acc r) = respond 200 (Login_Response acc' r')"
    and inv: "svc_inv St \<alpha> drawn (insert ?j (set (ac_used a))) w'" and j: "?j \<notin> set (drawn (gen w))"
    and fr: "clock w' = clock w" "db w' = db w"
    and ses: "\<And>t. clock w \<le> t \<Longrightarrow> session_of (st_uuid St) t (\<alpha> (cache w'))
      = (session_of (st_uuid St) t (\<alpha> (cache w)))(?j := if t < clock w + secs session_secs then Some uid else None)"
    and acc: "\<And>t. verify_access (st_jwt_crate St) (st_jwt St) acc' t =
      (if timestamp (clock w) + 900 < timestamp t - jwt_leeway (st_jwt_crate St)
       then Inl (InvalidToken Expired_Signature)
       else Inr \<lparr>c_sub = uid, c_email = email, c_iat = timestamp (clock w),
         c_exp = timestamp (clock w) + 900, c_jti = fst (new_v4 (st_env St) (gen w)), c_kind = Access\<rparr>)"
    and ref: "\<And>t. verify_refresh (st_jwt_crate St) (st_jwt St) r' t =
      (if timestamp (clock w) + session_secs < timestamp t - jwt_leeway (st_jwt_crate St)
       then Inl (InvalidToken Expired_Signature)
       else Inr \<lparr>c_sub = uid, c_email = email, c_iat = timestamp (clock w),
         c_exp = timestamp (clock w) + session_secs, c_jti = ?j, c_kind = Refresh\<rparr>)"
    by (rule issue_tokens_ok [OF s(1) assms(3) run']) blast
  from res have same: "acc' = acc" "r' = r" by (simp_all add: respond_def)
  have new: "?j \<notin> set (ac_used a)" using j s(1) by (auto simp: svc_inv_def)
  obtain ow where "owned (st_uuid St) ow (set (ac_used a)) (\<alpha> (cache w))"
    using s(5) unfolding rep_cache_def by blast
  from issue_owned [OF run' owned_fresh [OF this new, of uid]]
  have "owned (st_uuid St) (ow(?j := uid)) (insert ?j (set (ac_used a))) (\<alpha> (cache w'))" by simp
  then have "rep_cache (st_uuid St) (clock w') (\<alpha> (cache w')) (open_session (clock w) ?j uid a)"
    using s(5) ses issue_tokens_failures [OF run'] unfolding rep_cache_def
    by (auto simp: fr session_secs_def)
  moreover have "sent w' = sent w" using stepsD [OF frames_sent_issue run] .
  ultimately have "stands w' (open_session (clock w) ?j uid a)"
    using inv uc assms(3) s(4,6) fr by (simp add: represents_def rep_db_def rep_mail_def)
  moreover have "answered St (clock w) c (Opened ?j uid email) x"
    using acc [of "clock w"] ref [of "clock w"] leeway_nonneg
    by (simp add: answered_def x same read_refresh_def session_secs_def respond_def)
  ultimately show thesis using new fr(1) by (intro that)
qed

section \<open>The handlers\<close>

text \<open>The call \<open>c\<close>, answered with \<open>x\<close> in the state \<open>w'\<close>, is one step from \<open>a\<close>.\<close>

abbreviation spec_step :: "('r, 'g) world \<Rightarrow> accounts \<Rightarrow> account_call \<Rightarrow> choice \<Rightarrow> outcome \<times> accounts" where
  "spec_step w a c ch \<equiv> account_step (read_refresh St) (token_digest (st_digest St)) (clock w) ch c a"

abbreviation matches ::
    "('r, 'g) world \<Rightarrow> accounts \<Rightarrow> account_call \<Rightarrow> api_error + response \<Rightarrow> ('r, 'g) world \<Rightarrow> bool" where
  "matches w a c x w' \<equiv> (\<exists>ch. (\<forall>j u e. fst (spec_step w a c ch) = Opened j u e \<longrightarrow> j \<notin> set (ac_used a))
     \<and> answered St (clock w) c (fst (spec_step w a c ch)) x \<and> stands w' (snd (spec_step w a c ch)))
   \<and> clock w' = clock w"

lemma matchesI:
  assumes "\<And>j u e. fst (spec_step w a c ch) = Opened j u e \<Longrightarrow> j \<notin> set (ac_used a)"
    and "answered St (clock w) c (fst (spec_step w a c ch)) x" and "stands w' (snd (spec_step w a c ch))"
    and "clock w' = clock w"
  shows "matches w a c x w'"
  using assms by blast

lemma register_matches:
  assumes "stands w a" and run: "register St b w = (x, w')"
  shows "matches w a (Ac_Register b) x w'"
proof (cases "register_validate b")
  case (Inl e)
  with assms show ?thesis by (auto simp: register_def spec_register_def bindE_def answered_def)
next
  case (Inr v)
  from assms(1) obtain h w1 where h: "gen_op (\<lambda>_. hash_of (st_argon2_crate St) (st_env St) (st_passwords St)
      (reg_password b)) w = (Inr h, w1)" and l1: "leads w w1 a"
    and hv: "\<forall>pw'. verify_hash (st_argon2_crate St) (st_passwords St) pw' h = Inr (pw' = reg_password b)"
    by (rule hash_leads)
  from l1 have "stands w1 a" by blast
  from this hv obtain i y w2 where c: "db_op (create_user (st_env St) (reg_email b) h) w1 = (y, w2)"
    and taken: "(\<exists>m \<in> set (ac_members a). m_id m = i \<or> m_email m = reg_email b) \<longrightarrow> y = Inl Conflict \<and> leads w1 w2 a"
    and free: "\<not> (\<exists>m \<in> set (ac_members a). m_id m = i \<or> m_email m = reg_email b) \<longrightarrow>
      (\<exists>u. y = Inr u \<and> user_id u = i \<and> user_email u = reg_email b)
      \<and> leads w1 w2 (a\<lparr>ac_members := ac_members a @
          [\<lparr>m_id = i, m_email = reg_email b, m_password = reg_password b\<rparr>]\<rparr>)"
    by (rule create_user_leads)
  have w': "w' = w2" and x: "x = (case y of Inl e \<Rightarrow> Inl e
      | Inr u \<Rightarrow> Inr (respond 201 (Register_Response (user_id u) (user_email u))))"
    using run h c Inr by (auto simp: register_def bindE_def split: sum.splits)
  show ?thesis
  proof (cases "\<exists>m \<in> set (ac_members a). m_id m = i \<or> m_email m = reg_email b")
    case True
    from taken [rule_format, OF this] True l1 Inr show ?thesis
      by (intro matchesI [where ch = "\<lparr>ch_row = i, ch_jti = undefined, ch_raw = undefined\<rparr>"])
        (simp_all add: spec_register_def answered_def x w')
  next
    case False
    from free [rule_format, OF this] obtain u where "y = Inr u" "user_id u = i" "user_email u = reg_email b"
      "leads w1 w2 (a\<lparr>ac_members := ac_members a @
          [\<lparr>m_id = i, m_email = reg_email b, m_password = reg_password b\<rparr>]\<rparr>)" by blast
    with False l1 Inr show ?thesis
      by (intro matchesI [where ch = "\<lparr>ch_row = i, ch_jti = undefined, ch_raw = undefined\<rparr>"])
        (simp_all add: spec_register_def answered_def x w')
  qed
qed

lemma login_matches:
  assumes "stands w a" and run: "login St b w = (x, w')" and fresh: "distinct (drawn (gen w'))"
  shows "matches w a (Ac_Login b) x w'"
proof (cases "login_validate b")
  case (Inl e)
  with assms show ?thesis by (auto simp: login_def spec_login_def bindE_def answered_def)
next
  case (Inr v)
  let ?e = "login_email b"
  from assms(1) obtain w1 where l: "cache_op (is_locked (st_redis St) ?e) w
      = (Inr (10 \<le> failures_at (clock w) a ?e), w1)" and l1: "leads w w1 a"
    by (rule locked_leads)
  show ?thesis
  proof (cases "10 \<le> failures_at (clock w) a ?e")
    case True
    with run l Inr have "x = Inl Unauthorized" "w' = w1" by (simp_all add: login_def bindE_def)
    with True Inr l1 show ?thesis by (auto simp: spec_login_def answered_def)
  next
    case False
    from l1 have "stands w1 a" by blast
    then obtain y w2 where f: "db_op (\<lambda>_. find_by_email (st_env St) ?e) w1 = (Inr y, w2)"
      and l2: "leads w1 w2 a" and y: "rel_option (same_member St) y (member_with_email a ?e)"
      by (rule find_email_leads)
    show ?thesis
    proof (cases "member_with_email a ?e")
      case None
      then have "y = None" using y by simp
      with run l f Inr False have "x = Inl Unauthorized" "w' = w2" by (simp_all add: login_def bindE_def)
      with None Inr False l1 l2 show ?thesis by (auto simp: spec_login_def answered_def)
    next
      case (Some m)
      then obtain user where user: "y = Some user" "same_member St user m" using y by (auto elim: option.rel_cases)
      then have u: "user_id user = m_id m" "user_email user = m_email m"
        "verify_hash (st_argon2_crate St) (st_passwords St) (login_password b) (password_hash user)
          = Inr (login_password b = m_password m)"
        by (simp_all add: same_member_def)
      from l2 have "stands w2 a" by blast
      show ?thesis
      proof (cases "login_password b = m_password m")
        case wrong: False
        have "failures_at (clock w2) a ?e < 10" using False l1 l2 by simp
        from \<open>stands w2 a\<close> this obtain n w3 where r: "cache_op (record_failure (st_redis St) ?e) w2 = (Inr n, w3)"
          and l3: "leads w2 w3 (count_failure (clock w2) ?e a)" by (rule record_leads)
        from run l f r Inr False user u wrong have "x = Inl Unauthorized" "w' = w3"
          by (simp_all add: login_def bindE_def domain_op_def mapErrE_def)
        with Some Inr False l1 l2 l3 wrong show ?thesis by (auto simp: spec_login_def answered_def)
      next
        case right: True
        from \<open>stands w2 a\<close> obtain w3 where r: "cache_op (clear_failures (st_redis St) ?e) w2 = (Inr (), w3)"
          and l3: "leads w2 w3 (forget_failures ?e a)" by (rule clear_leads)
        from run l f r Inr False user u right have i: "issue_tokens St (m_id m) (m_email m) w3 = (x, w')"
          by (simp add: login_def bindE_def domain_op_def mapErrE_def)
        from l3 have "stands w3 (forget_failures ?e a)" by blast
        from this i fresh obtain j where "j \<notin> set (ac_used (forget_failures ?e a))"
          "stands w' (open_session (clock w3) j (m_id m) (forget_failures ?e a))" "clock w' = clock w3"
          "answered St (clock w3) (Ac_Login b) (Opened j (m_id m) (m_email m)) x"
          by (rule issue_leads)
        with Some Inr False l1 l2 l3 right show ?thesis
          by (intro matchesI [where ch = "\<lparr>ch_row = undefined, ch_jti = j, ch_raw = undefined\<rparr>"])
            (simp_all add: spec_login_def)
      qed
    qed
  qed
qed

lemma refresh_matches:
  assumes "stands w a" and run: "refresh St b w = (x, w')" and fresh: "distinct (drawn (gen w'))"
  shows "matches w a (Ac_Refresh b) x w'"
proof (cases "refresh_validate b")
  case (Inl e)
  with assms show ?thesis by (auto simp: refresh_def spec_refresh_def bindE_def answered_def)
next
  case v: (Inr v)
  show ?thesis
  proof (cases "verify_refresh (st_jwt_crate St) (st_jwt St) (refresh_token b) (clock w)")
    case (Inl e)
    with assms v show ?thesis
      by (auto simp: refresh_def spec_refresh_def bindE_def answered_def now_def mapErrE_def read_refresh_def)
  next
    case (Inr c)
    from assms(1) obtain w1 where r: "cache_op (revoke_refresh_token (st_redis St) (st_uuid St) (c_jti c)) w
        = (Inr (owner_at (clock w) a (c_jti c)), w1)" and l1: "leads w w1 (close_session (c_jti c) a)"
      by (rule revoke_leads)
    have read: "read_refresh St (clock w) (refresh_token b) = Some c" by (simp add: read_refresh_def Inr)
    show ?thesis
    proof (cases "owner_at (clock w) a (c_jti c)")
      case None
      with run v Inr r have x: "x = Inl Unauthorized" "w' = w1"
        by (simp_all add: refresh_def bindE_def now_def mapErrE_def)
      have "stands w1 a" using stands_closed [of w1 "c_jti c" a] l1 None by simp
      with None v read l1 x show ?thesis by (simp add: spec_refresh_def answered_def)
    next
      case (Some u)
      with run v Inr r have i: "issue_tokens St (c_sub c) (c_email c) w1 = (x, w')"
        by (simp add: refresh_def bindE_def now_def mapErrE_def)
      from l1 have "stands w1 (close_session (c_jti c) a)" by blast
      from this i fresh obtain j where "j \<notin> set (ac_used (close_session (c_jti c) a))"
        "stands w' (open_session (clock w1) j (c_sub c) (close_session (c_jti c) a))" "clock w' = clock w1"
        "answered St (clock w1) (Ac_Refresh b) (Opened j (c_sub c) (c_email c)) x"
        by (rule issue_leads)
      with Some v l1 read show ?thesis
        by (intro matchesI [where ch = "\<lparr>ch_row = undefined, ch_jti = j, ch_raw = undefined\<rparr>"])
          (simp_all add: spec_refresh_def)
    qed
  qed
qed

lemma logout_matches:
  assumes "stands w a" and run: "logout St b w = (x, w')"
  shows "matches w a (Ac_Logout b) x w'"
proof (cases "logout_validate b")
  case (Inl e)
  with assms show ?thesis by (auto simp: logout_def spec_logout_def bindE_def answered_def)
next
  case v: (Inr v)
  show ?thesis
  proof (cases "verify_refresh (st_jwt_crate St) (st_jwt St) (logout_token b) (clock w)")
    case (Inl e)
    with assms v show ?thesis
      by (auto simp: logout_def spec_logout_def bindE_def answered_def now_def mapErrE_def read_refresh_def)
  next
    case (Inr c)
    from assms(1) obtain w1 where r: "cache_op (revoke_refresh_token (st_redis St) (st_uuid St) (c_jti c)) w
        = (Inr (owner_at (clock w) a (c_jti c)), w1)" and l1: "leads w w1 (close_session (c_jti c) a)"
      by (rule revoke_leads)
    with run v Inr have "x = Inr (respond 204 No_Body)" "w' = w1"
      by (simp_all add: logout_def bindE_def now_def mapErrE_def)
    with v l1 Inr show ?thesis by (simp add: spec_logout_def answered_def read_refresh_def)
  qed
qed

lemma logout_all_matches:
  assumes "stands w a" and run: "logout_all St c w = (x, w')"
  shows "matches w a (Ac_Logout_All c) x w'"
proof -
  from assms(1) obtain n w1 where "cache_op (revoke_all_sessions (st_redis St) (st_uuid St) (c_sub c)) w = (Inr n, w1)"
    and l1: "leads w w1 (close_all (c_sub c) a)" by (rule revoke_all_leads)
  with run have "x = Inr (respond 204 No_Body)" "w' = w1" by (simp_all add: logout_all_def bindE_def)
  with l1 show ?thesis by (simp add: answered_def)
qed

lemma change_password_matches:
  assumes "stands w a" and run: "change_password St c b w = (x, w')"
  shows "matches w a (Ac_Change_Password c b) x w'"
proof (cases "change_password_validate b")
  case (Inl e)
  with assms show ?thesis by (auto simp: change_password_def spec_change_password_def bindE_def answered_def)
next
  case v: (Inr v)
  from assms(1) obtain y w1 where f: "db_op (\<lambda>_. find_by_id (st_env St) (c_sub c)) w = (Inr y, w1)"
    and l1: "leads w w1 a" and y: "rel_option (same_member St) y (member_with_id a (c_sub c))"
    by (rule find_id_leads)
  show ?thesis
  proof (cases "member_with_id a (c_sub c)")
    case None
    then have "y = None" using y by simp
    with run v f have "x = Inl Unauthorized" "w' = w1" by (simp_all add: change_password_def bindE_def)
    with None v l1 show ?thesis by (simp add: spec_change_password_def answered_def)
  next
    case (Some m)
    then obtain user where user: "y = Some user" "same_member St user m" using y by (auto elim: option.rel_cases)
    then have ver: "verify_hash (st_argon2_crate St) (st_passwords St) (current_password b) (password_hash user)
        = Inr (current_password b = m_password m)"
      by (simp add: same_member_def)
    show ?thesis
    proof (cases "current_password b = m_password m")
      case False
      with run v f user ver have "x = Inl Unauthorized" "w' = w1"
        by (simp_all add: change_password_def bindE_def domain_op_def mapErrE_def)
      with Some False v l1 show ?thesis by (simp add: spec_change_password_def answered_def)
    next
      case True
      from l1 have "stands w1 a" by blast
      then obtain h w2 where h: "gen_op (\<lambda>_. hash_of (st_argon2_crate St) (st_env St) (st_passwords St)
          (new_password b)) w1 = (Inr h, w2)" and l2: "leads w1 w2 a"
        and hv: "\<forall>pw'. verify_hash (st_argon2_crate St) (st_passwords St) pw' h = Inr (pw' = new_password b)"
        by (rule hash_leads)
      from l2 have "stands w2 a" by blast
      moreover have "member_with_id a (c_sub c) \<noteq> None" using Some by simp
      ultimately obtain w3 where u: "db_op (update_password (st_env St) (c_sub c) h) w2 = (Inr (), w3)"
        and l3: "leads w2 w3 (set_password (c_sub c) (new_password b) a)"
        using hv by (blast intro: update_password_leads)
      from run v f user ver h u True have "x = Inr (respond 204 No_Body)" "w' = w3"
        by (simp_all add: change_password_def bindE_def domain_op_def mapErrE_def)
      with Some True v l1 l2 l3 show ?thesis by (simp add: spec_change_password_def answered_def)
    qed
  qed
qed

lemma delete_me_matches:
  assumes "stands w a" and run: "delete_me St c w = (x, w')"
  shows "matches w a (Ac_Delete_Me c) x w'"
proof -
  from assms(1) obtain w1 where "db_op (\<lambda>_. delete_by_id (st_env St) (c_sub c)) w = (Inr (), w1)"
    and l1: "leads w w1 (remove_member (c_sub c) a)" by (rule delete_leads)
  with run have "x = Inr (respond 204 No_Body)" "w' = w1" by (simp_all add: delete_me_def bindE_def)
  with l1 show ?thesis by (simp add: answered_def)
qed

lemma reset_request_matches:
  assumes "stands w a" and run: "password_reset_request St b w = (x, w')"
  shows "matches w a (Ac_Reset_Request b) x w'"
proof (cases "reset_request_validate b")
  case (Inl e)
  with assms show ?thesis
    by (auto simp: password_reset_request_def spec_reset_request_def bindE_def answered_def)
next
  case v: (Inr v)
  from assms(1) obtain y w1 where f: "db_op (\<lambda>_. find_by_email (st_env St) (rr_email b)) w = (Inr y, w1)"
    and l1: "leads w w1 a" and y: "rel_option (same_member St) y (member_with_email a (rr_email b))"
    by (rule find_email_leads)
  show ?thesis
  proof (cases "member_with_email a (rr_email b)")
    case None
    then have "y = None" using y by simp
    with run v f have "x = Inr (respond 200 No_Body)" "w' = w1"
      by (simp_all add: password_reset_request_def bindE_def)
    with None v l1 show ?thesis by (simp add: spec_reset_request_def answered_def)
  next
    case (Some m)
    then obtain user where user: "y = Some user" "same_member St user m" using y by (auto elim: option.rel_cases)
    then have ids: "user_id user = m_id m" "user_email user = m_email m" by (simp_all add: same_member_def)
    from l1 have "stands w1 a" by blast
    then obtain raw w2 where r: "on_gen (\<lambda>_. generate_reset_token (st_digest St) (st_env St)) w1
        = (Inr (raw, token_digest (st_digest St) raw) :: api_error + string \<times> string, w2)" and l2: "leads w1 w2 a"
      by (rule raw_leads)
    let ?h = "token_digest (st_digest St) raw" and ?x = "clock w2 + secs 900"
    let ?link = "reset_link (st_app_base_url St) raw"
    from l2 have "stands w2 a" by blast
    from this Some obtain i z w3 where c: "db_op (\<lambda>_. create_reset_token (st_env St) (m_id m) ?h ?x) w2 = (z, w3)"
      and taken: "(\<exists>k \<in> set (ac_tickets a). k_id k = i \<or> k_digest k = ?h) \<longrightarrow> z = Inl Conflict \<and> leads w2 w3 a"
      and free: "\<not> (\<exists>k \<in> set (ac_tickets a). k_id k = i \<or> k_digest k = ?h) \<longrightarrow> z = Inr ()
        \<and> leads w2 w3 (a\<lparr>ac_tickets := ac_tickets a @
            [\<lparr>k_id = i, k_digest = ?h, k_owner = m_id m, k_until = Some ?x\<rparr>]\<rparr>)"
      by (rule create_ticket_leads)
    let ?ch = "\<lparr>ch_row = i, ch_jti = undefined, ch_raw = raw\<rparr>"
    show ?thesis
    proof (cases "\<exists>k \<in> set (ac_tickets a). k_id k = i \<or> k_digest k = ?h")
      case True
      with taken run v f r c user ids have "x = Inl Conflict" "w' = w3" "leads w2 w3 a"
        by (simp_all add: password_reset_request_def bindE_def now_def)
      with Some True v l1 l2 show ?thesis
        by (intro matchesI [where ch = ?ch]) (simp_all add: spec_reset_request_def answered_def)
    next
      case False
      let ?a = "a\<lparr>ac_tickets := ac_tickets a @ [\<lparr>k_id = i, k_digest = ?h, k_owner = m_id m, k_until = Some ?x\<rparr>]\<rparr>"
      from free False have z: "z = Inr ()" and l3: "leads w2 w3 ?a" by simp_all
      from l3 have "stands w3 ?a" by blast
      from this refl obtain q :: "email_error + unit" and w4 where
        s: "on_mail (send_password_reset (st_env St) (st_email St) (m_email m) ?link) w3 = (q, w4)"
        and l4: "leads w3 w4 (?a\<lparr>ac_mailed := ac_mailed ?a @ [(m_email m, raw)]\<rparr>)"
        by (rule mail_leads)
      from run v f r c z user ids s have "x = Inr (respond 200 No_Body)" "w' = w4"
        by (simp_all add: password_reset_request_def bindE_def now_def attemptE_def)
      with Some False v l1 l2 l3 l4 show ?thesis
        by (intro matchesI [where ch = ?ch]) (simp_all add: spec_reset_request_def answered_def)
    qed
  qed
qed

lemma reset_confirm_matches:
  assumes "stands w a" and run: "password_reset_confirm St b w = (x, w')"
  shows "matches w a (Ac_Reset_Confirm b) x w'"
proof (cases "reset_confirm_validate b")
  case (Inl e)
  with assms show ?thesis
    by (auto simp: password_reset_confirm_def spec_reset_confirm_def bindE_def answered_def)
next
  case v: (Inr v)
  let ?h = "token_digest (st_digest St) (rc_token b)" and ?pw = "rc_new_password b"
  let ?k = "List.find (good_ticket (clock w) ?h) (ac_tickets a)" and ?a = "spend_ticket (clock w) ?h a"
  from assms(1) obtain w1 where c: "db_op (consume_reset_token (st_env St) ?h) w = (Inr (map_option k_owner ?k), w1)"
    and l1: "leads w w1 ?a" by (rule consume_ticket_leads)
  show ?thesis
  proof (cases ?k)
    case None
    with run v c have "x = Inl (BadRequest ''invalid or expired reset token'')" "w' = w1"
      by (simp_all add: password_reset_confirm_def bindE_def Let_def)
    with None v l1 spend_none [OF None] show ?thesis by (simp add: spec_reset_confirm_def answered_def)
  next
    case (Some k)
    from l1 have "stands w1 ?a" by blast
    then obtain h w2 where h: "gen_op (\<lambda>_. hash_of (st_argon2_crate St) (st_env St) (st_passwords St) ?pw) w1
        = (Inr h, w2)" and l2: "leads w1 w2 ?a"
      and hv: "\<forall>pw'. verify_hash (st_argon2_crate St) (st_passwords St) pw' h = Inr (pw' = ?pw)"
      by (rule hash_leads)
    have "member_with_id ?a (k_owner k) \<noteq> None"
      using ticket_owner [OF assms(1) Some] by (simp add: member_with_id_def spend_ticket_def)
    moreover from l2 have "stands w2 ?a" by blast
    ultimately obtain w3 where u: "db_op (update_password (st_env St) (k_owner k) h) w2 = (Inr (), w3)"
      and l3: "leads w2 w3 (set_password (k_owner k) ?pw ?a)"
      using hv by (blast intro: update_password_leads)
    from l3 have "stands w3 (set_password (k_owner k) ?pw ?a)" by blast
    then obtain n w4 where r: "cache_op (revoke_all_sessions (st_redis St) (st_uuid St) (k_owner k)) w3 = (Inr n, w4)"
      and l4: "leads w3 w4 (close_all (k_owner k) (set_password (k_owner k) ?pw ?a))"
      by (rule revoke_all_leads)
    from run v c h u r Some have "x = Inr (respond 200 No_Body)" "w' = w4"
      by (simp_all add: password_reset_confirm_def bindE_def Let_def)
    with Some v l1 l2 l3 l4 show ?thesis by (simp add: spec_reset_confirm_def answered_def)
  qed
qed

lemma perform_matches:
  assumes "stands w a" and "perform St c w = (x, w')" and "distinct (drawn (gen w'))"
  shows "matches w a c x w'"
proof (cases c)
qed (use assms in \<open>simp_all only: perform.simps register_matches login_matches refresh_matches logout_matches
    logout_all_matches change_password_matches delete_me_matches reset_request_matches reset_confirm_matches\<close>)

section \<open>Calls one after another\<close>

lemma evolves_perform: "steps (evo St \<alpha> drawn N) (perform St c)"
  by (cases c) (simp_all add: evolves_register evolves_login evolves_refresh evolves_logout evolves_logout_all
      evolves_change_password evolves_delete_me evolves_reset_request evolves_reset_confirm)

lemma perform_log: "suffix (drawn (gen w)) (drawn (gen (snd (perform St c w))))"
  using stepsD [OF evolves_perform, of c w "fst (perform St c w)" "snd (perform St c w)" "{}"]
  by (simp add: evo_def)

lemma perform_all_log: "suffix (drawn (gen w)) (drawn (gen (snd (perform_all St cs w))))"
proof (induction cs arbitrary: w)
  case (Cons dc cs)
  obtain d c where dc: "dc = (d, c)" by (cases dc)
  obtain x w1 where x: "perform St c (w\<lparr>clock := clock w + d\<rparr>) = (x, w1)" by fastforce
  have "suffix (drawn (gen w)) (drawn (gen w1))" using perform_log [of "w\<lparr>clock := clock w + d\<rparr>" c] x by simp
  with Cons.IH [of w1] show ?case
    by (auto simp: dc x split: prod.split intro: suffix_order.trans)
qed simp

lemma stands_later:
  assumes "stands w a" and "0 \<le> d"
  shows "stands (w\<lparr>clock := clock w + d\<rparr>) a"
  using assms rep_cache_later [of "st_uuid St" "clock w" "\<alpha> (cache w)" a "clock w + d"]
    cache_inv_later [of "st_uuid St" "set (drawn (gen w)) - set (ac_used a)" "clock w" "\<alpha> (cache w)" "clock w + d"]
  by (simp add: represents_def svc_inv_def)

lemma perform_all_implements:
  assumes "stands w a" and "\<forall>(d, c) \<in> set cs. 0 \<le> d" and "perform_all St cs w = (xs, w')"
    and "distinct (drawn (gen w'))"
  shows "\<exists>outs a'. account_runs (read_refresh St) (token_digest (st_digest St)) (clock w) a cs outs a'
    \<and> all_answered St cs outs xs \<and> stands w' a'"
  using assms
proof (induction cs arbitrary: w a xs)
  case Nil
  then have "stands w' a" "w = w'" "xs = []" by simp_all
  then show ?case
    by (intro exI [of _ "[]"] exI [of _ a]) (simp add: account_runs.stop)
next
  case (Cons dc cs)
  obtain d c where dc: "dc = (d, c)" by (cases dc)
  let ?w = "w\<lparr>clock := clock w + d\<rparr>"
  obtain x w1 where x: "perform St c ?w = (x, w1)" by fastforce
  obtain ys w2 where ys: "perform_all St cs w1 = (ys, w2)" by fastforce
  from Cons.prems(3) x ys have xs: "xs = (clock w + d, x) # ys" "w' = w2" by (simp_all add: dc)
  have "distinct (drawn (gen w1))"
    using perform_all_log [of w1 cs] ys xs(2) Cons.prems(4) by (auto intro: suffix_distinct)
  moreover have "stands ?w a" using stands_later Cons.prems(1,2) dc by simp
  ultimately have "matches ?w a c x w1" using x by (intro perform_matches)
  then obtain ch where fresh: "\<forall>j u e. fst (spec_step ?w a c ch) = Opened j u e \<longrightarrow> j \<notin> set (ac_used a)"
    and ans: "answered St (clock w + d) c (fst (spec_step ?w a c ch)) x"
    and next': "stands w1 (snd (spec_step ?w a c ch))" and clk: "clock w1 = clock w + d"
    by auto
  let ?a1 = "snd (spec_step ?w a c ch)"
  have "perform_all St cs w1 = (ys, w')" using ys xs(2) by simp
  from Cons.IH [OF next' _ this] Cons.prems(2,4) dc obtain outs a' where
    runs: "account_runs (read_refresh St) (token_digest (st_digest St)) (clock w1) ?a1 cs outs a'"
    and rest: "all_answered St cs outs ys" "stands w' a'" by auto
  have "account_runs (read_refresh St) (token_digest (st_digest St)) (clock w) a (dc # cs)
      ((clock w + d, fst (spec_step ?w a c ch)) # outs) a'"
    unfolding dc using fresh runs [unfolded clk]
    by (intro account_runs.call [where ch = ch and ?a1.0 = ?a1]) simp_all
  with rest ans xs(1) show ?case by (intro exI conjI) (auto simp: dc)
qed

end

end
