(* ===== verification/Account_Contract.thy ===== *)
theory Account_Contract
  imports Account_Simulation Reference_Service
begin

text \<open>
  The handlers implement the abstract account service, stated outside the locale, with the reference
  service as the instance on which its hypotheses hold.
\<close>

text \<open>An empty database and an empty cache stand for no accounts.\<close>

lemma represents_empty:
  assumes "db w = empty_db" and "\<alpha> (cache w) = Map.empty" and "drawn (gen w) = []" and "sent w = []"
    and "up (cache w)" and "calm (gen w)"
  shows "represents St \<alpha> drawn up calm w no_accounts"
proof -
  have "cache_inv U X t Map.empty" for U X t
    by (simp add: cache_inv_def index_inv_empty counters_ok_def)
  moreover have "rep_cache U t Map.empty no_accounts" for U t
    by (auto simp: rep_cache_def no_accounts_def owner_at_def failures_at_def session_of_def lookup_def
        lockout_failures_def owned_empty fun_eq_iff)
  ultimately show ?thesis
    using assms
    by (simp add: represents_def svc_inv_def db_ok_empty rep_db_def rep_mail_def no_accounts_def empty_db_def db_ok_def)
qed

interpretation ref_accounts: account_service ref_state fst "(=)" ref_drawn "\<lambda>r. snd r = []" "\<lambda>g. snd (snd g) = []"
proof -
  have "account_service_axioms ref_state (\<lambda>g. snd (snd g) = [])"
    by unfold_locales (auto simp: ref_env_def ref_argon2_def split: prod.splits)
  then show "account_service ref_state fst (=) ref_drawn (\<lambda>r. snd r = []) (\<lambda>g. snd (snd g) = [])"
    by (simp add: account_service_def ref_up.available_service_axioms ref_argon2.password_binding_axioms)
qed

text \<open>
  C5. The handlers implement the abstract account service. While database, cache, signing and hashing
  answer, from any state that stands for a state of \<open>Account_Spec\<close>, every sequence of calls at
  increasing instants is answered as a run of \<open>Account_Spec\<close> demands, with tokens that say whose session
  they open, and the state after it stands for the state after that run.
\<close>

theorem service_implements_accounts:
  assumes "account_service St \<alpha> keypair drawn up calm" and "represents St \<alpha> drawn up calm w a"
    and "\<forall>(d, c) \<in> set cs. 0 \<le> d" and "perform_all St cs w = (xs, w')" and "distinct (drawn (gen w'))"
  shows "\<exists>outs a'. account_runs (read_refresh St) (token_digest (st_digest St)) (clock w) a cs outs a'
    \<and> all_answered St cs outs xs \<and> represents St \<alpha> drawn up calm w' a'"
  using assms by (rule account_service.perform_all_implements)

lemma answered_registered:
  "answered St t c out (Inr (respond 201 (Register_Response i e))) \<Longrightarrow> out = Registered i e"
  by (cases out) (simp_all add: answered_def respond_def)

lemma ref_perform:
  "perform_all ref_state
     [(0, Ac_Register \<lparr>reg_email = ''a@b.c'', reg_password = ''password1''\<rparr>),
      (0, Ac_Login \<lparr>login_email = ''a@b.c'', login_password = ''password1''\<rparr>),
      (0, Ac_Refresh \<lparr>refresh_token = ref_refresh\<rparr>)] ref_world
   = ([(0, Inr (respond 201 (Register_Response 1 ''a@b.c''))),
       (0, Inr (respond 200 (Login_Response ref_access ref_refresh))),
       (0, Inr (respond 200 (Login_Response (fst ref_rotated_tokens) (snd ref_rotated_tokens))))], ref_rotated)"
proof -
  have r: "register ref_state \<lparr>reg_email = ''a@b.c'', reg_password = ''password1''\<rparr> ref_world
      = (Inr (respond 201 (Register_Response 1 ''a@b.c'')), ref_registered)"
    by (simp add: eval ref_worlds cong: eval_cong)
  have l: "login ref_state \<lparr>login_email = ''a@b.c'', login_password = ''password1''\<rparr> ref_registered
      = (Inr (respond 200 (Login_Response ref_access ref_refresh)), ref_session)"
    by (simp add: eval ref_worlds cong: eval_cong)
  have same: "ref_world\<lparr>clock := 0\<rparr> = ref_world" "ref_registered\<lparr>clock := 0\<rparr> = ref_registered"
    "ref_session\<lparr>clock := 0\<rparr> = ref_session" "clock ref_world = 0"
    by (simp_all add: ref_worlds)
  show ?thesis by (simp add: same r l ref_refresh_result)
qed

lemma service_implements_accounts_witness:
  "\<exists>outs a'. account_runs (read_refresh ref_state) (token_digest (st_digest ref_state)) 0 no_accounts
     [(0, Ac_Register \<lparr>reg_email = ''a@b.c'', reg_password = ''password1''\<rparr>),
      (0, Ac_Login \<lparr>login_email = ''a@b.c'', login_password = ''password1''\<rparr>),
      (0, Ac_Refresh \<lparr>refresh_token = ref_refresh\<rparr>)] outs a'
   \<and> length outs = 3 \<and> snd (outs ! 0) = Registered 1 ''a@b.c''
   \<and> represents ref_state fst ref_drawn (\<lambda>r. snd r = []) (\<lambda>g. snd (snd g) = []) ref_rotated a'"
proof -
  have start: "represents ref_state fst ref_drawn (\<lambda>r. snd r = []) (\<lambda>g. snd (snd g) = []) ref_world no_accounts"
    by (rule represents_empty) (simp_all add: ref_world_def ref_drawn_def)
  have fresh: "distinct (ref_drawn (gen ref_rotated))" by (simp add: ref_rotated_def ref_drawn_def)
  have 0: "clock ref_world = 0" by (simp add: ref_world_def)
  note run = service_implements_accounts [OF ref_accounts.account_service_axioms start _ ref_perform fresh]
  then obtain outs a' where
    "account_runs (read_refresh ref_state) (token_digest (st_digest ref_state)) (clock ref_world) no_accounts
       [(0, Ac_Register \<lparr>reg_email = ''a@b.c'', reg_password = ''password1''\<rparr>),
        (0, Ac_Login \<lparr>login_email = ''a@b.c'', login_password = ''password1''\<rparr>),
        (0, Ac_Refresh \<lparr>refresh_token = ref_refresh\<rparr>)] outs a'"
    and "represents ref_state fst ref_drawn (\<lambda>r. snd r = []) (\<lambda>g. snd (snd g) = []) ref_rotated a'"
    and "length outs = 3" and "snd (outs ! 0) = Registered 1 ''a@b.c''"
    by (auto simp: all_answered_Cons all_answered_Nil dest: answered_registered)
  then show ?thesis by (auto simp: 0)
qed

end
