(* ===== verification/Spec2Isabelle.thy ===== *)
theory Spec2Isabelle
  imports Component_Properties Store_Properties Domain_Properties Account_Properties
    Startup_Properties Interleaving_Properties Concurrent_Properties Test_Properties Log_Properties
    Integration_Properties Account_Contract
begin

text \<open>
  rustauth, an authentication service: accounts in PostgreSQL, sessions as signed tokens whose refresh
  half is recorded in Redis, an HTTP interface and a gRPC call by which other services check a token.
  This theory holds the properties of the whole service; it imports the models of the parts and the
  properties of the single components.

  The parts of the program and their models (files under \<open>src/src/\<close> unless another is named):

  \<^item> \<open>domain/jwt.rs\<close>: \<open>Jwt\<close>. \<open>domain/password.rs\<close>: \<open>Password\<close>. \<open>domain/error.rs\<close>: \<open>Environment\<close>.
  \<^item> \<open>data/error.rs\<close>: \<open>Data_Error\<close>. \<open>data/token_store.rs\<close>: \<open>Token_Store\<close>, and \<open>Interleaving\<close> for its
    operations as programs of single commands. \<open>data/lockout_store.rs\<close>: \<open>Lockout_Store\<close>.
    \<open>data/user_repository.rs\<close>: \<open>User_Repository\<close>. \<open>data/reset_token_repository.rs\<close>:
    \<open>Reset_Token_Repository\<close>. The tables of \<open>migrations/\<close>, and what the SQL of the repositories does to
    them: \<open>Schema\<close>.
  \<^item> \<open>routes/mod.rs\<close>: \<open>Requests\<close> (bodies and validation), \<open>Api_Error\<close>, \<open>Routes\<close> (the eleven handlers).
  \<^item> \<open>middleware/mod.rs\<close>: \<open>Middleware\<close> (bearer extractor, rate limiter). \<open>email.rs\<close> and the state of
    \<open>lib.rs\<close>: \<open>App_State\<close>. The routers of \<open>lib.rs\<close>: \<open>Router\<close>. \<open>services/mod.rs\<close>: \<open>Grpc\<close>.
  \<^item> \<open>main.rs\<close>: \<open>Startup\<close>.
  \<^item> The response structs of \<open>routes/mod.rs\<close>, as the JSON objects of the bodies: \<open>Wire\<close>.
  \<^item> The log lines of \<open>routes/mod.rs\<close> and \<open>middleware/mod.rs\<close>: \<open>Event_Log\<close>, where each handler stands
    once more with the events that it writes.
  \<^item> The unit tests: \<open>Validation_Tests\<close> (\<open>routes/mod.rs\<close>), \<open>Store_Tests\<close> (\<open>data/token_store.rs\<close>,
    \<open>data/lockout_store.rs\<close>), \<open>Repository_Tests\<close> (the two repositories), \<open>Domain_Tests\<close>
    (\<open>domain/jwt.rs\<close>, \<open>domain/password.rs\<close>), read as in \<open>Test_Harness\<close>.
  \<^item> The integration tests of \<open>src/tests\<close>: \<open>Api_Tests\<close>, \<open>Reset_Tests\<close> and \<open>Grpc_Tests\<close>, as clients of a
    running application, read as in \<open>Integration_Harness\<close>.

  How the code is read. An \<open>async fn\<close> that returns a \<open>Result\<close> is a function on the state that returns
  an error or a value and the new state (\<open>io\<close> of \<open>Auth_Prelude\<close>); \<open>?\<close> is \<open>bindE\<close>. The state of the
  service is \<open>world\<close>: clock, database, cache, the state of everything random or remote, and the mails
  of a capturing client. Time is in microseconds. The counters that the code reads as \<open>u32\<close> and \<open>u64\<close>
  are words. A string is the list of its bytes, so lengths are those that \<open>len()\<close> returns.

  What is not code of the repository is a parameter, and what is relied on of it a locale:
  \<open>redis_service\<close> (the commands act on a keyspace with deadlines; any call may fail, before or after
  it took effect, and a pipeline may be cut anywhere), \<open>uuid_codec\<close>, \<open>jwt_library\<close>,
  \<open>password_library\<close> and \<open>password_binding\<close>, and \<open>draw_log\<close> (\<open>strict_jwt_library\<close> is for the tests
  of forged tokens only); of the database (\<open>pg_lib\<close>) nothing is
  assumed but that each statement is run, refused, or run with its answer lost. \<open>auth_service\<close>
  combines them. \<open>redis_available\<close>, \<open>available_cache\<close> and
  \<open>available_service\<close> describe a period without an outage, and
  \<open>account_service\<close> one in which hashing and the random values answer too. Between the components of the code stand
  \<open>failure_counter\<close>, \<open>session_table\<close>, \<open>user_store\<close> and \<open>one_time_tokens\<close>, which the stores satisfy
  (\<open>sublocale\<close> and \<open>interpretation\<close>) and on which the lemmas about their clients rest.
  \<open>Redis_Reference\<close>, \<open>Jwt_Reference\<close> and \<open>Reference_Service\<close> interpret all of them on concrete
  functions; the witnesses run requests on this service.

  What the lemmas show.

  \<^item> Stores: each operation on the keyspace or the tables, whatever the service answers; then as an
    operation on an abstract table (\<open>session_of\<close>, \<open>lockout_failures\<close>, \<open>user_with_email\<close>,
    \<open>reset_owner\<close>). \<open>Cache_Invariant\<close>: every call keeps the index of sessions complete and the
    counters in range, where a request is served in one step. \<open>Availability\<close>: while the cache is up, the calls answer.
  \<^item> Handlers: \<open>Auth_Service\<close> proves for each handler that it keeps the invariant and revives no
    session; \<open>Handler_Facts\<close> is what a success implies, \<open>Handler_Outcome\<close> the exact outcome of login
    and refresh, \<open>Handler_Answers\<close> the errors that each call can raise, \<open>Refusals\<close> when exactly a handler
    refuses a request and with which code, \<open>Refresh_Chain\<close> a client that stays logged in.
  \<^item> Specification: \<open>Account_Spec\<close> is the service that is promised, accounts with passwords, sessions,
    counters and reset tickets with the instants at which they end, one step for each call and nothing
    that can fail. \<open>Account_Refinement\<close> says which states of the service stand for which of it
    (\<open>represents\<close>) and shows it kept by the operations of the stores; \<open>Session_Owner\<close> adds that every
    session id has one owner, so that a revocation of all sessions takes those of one user exactly.
    \<open>Account_Simulation\<close> shows for each handler that it does one step with the same answer while nothing
    fails (the locale \<open>account_service\<close>), and \<open>Account_Contract\<close> states it for sequences of calls. The
    handlers \<open>me\<close> and \<open>health\<close>, which change nothing, are left out there.
  \<^item> Service: \<open>System\<close> is the step relation of requests and of passing time, with the set \<open>H\<close> of the
    refresh tokens handed out so far as a ghost component, and the invariant of every reachable state.
    The random UUIDs drawn so far are the ghost \<open>drawn\<close>; that they are distinct is a hypothesis on a
    run, since nothing else makes a session id unique.
  \<^item> Concurrency, at two grains. \<open>Interleaving\<close> runs the programs of the token store as tasks whose
    single commands interleave, with losses and passing time. A refresh token is still redeemed once; a
    revocation of all sessions can miss a session stored between its two calls. \<open>Rate_Interleaving\<close>
    does the same for the check of the rate limiter, which stays exact. \<open>Tasks\<close> has each handler
    as a task that gives up the processor at every call (\<open>run_task\<close> of it is the handler of \<open>Routes\<close>),
    and \<open>Concurrent\<close> the pool of all requests in flight. \<open>Pool_Invariant\<close> is the invariant of every
    reachable pool: the ids about to be stored are fresh and distinct, and a token that was answered with
    is settled. \<open>Concurrent_Logins\<close> interleaves logins, \<open>Concurrent_Revocation\<close> a refresh with another
    request, \<open>Pool_Typing\<close> gives the types of the entries in the cache for every pool, and
    \<open>Concurrent_Properties\<close> states what follows. That a call waits, for a connection of the pool or for an
    answer that never comes, is not modelled: a call is a function.
  \<^item> Log: without its events a handler of \<open>Event_Log\<close> is that of \<open>Routes\<close> (\<open>erases\<close>); \<open>Log_Trail\<close>
    gives for each handler the events as a function of the state before the request and of its answer
    (\<open>login_events\<close> and the others), and that it appends exactly these (\<open>appends\<close>).
  \<^item> Unit tests: those of pure functions hold; those of the stores fail no assertion on any service that
    satisfies its contract, whichever calls fail (\<open>sound\<close>); those of the repositories pass on every
    database that runs its statements (\<open>Test_Properties\<close>).
  \<^item> Integration tests: those that speak HTTP pass on the reference libraries (\<open>Integration_Reference\<close>),
    those that speak gRPC fail no assertion on any signing library that satisfies \<open>strict_jwt_library\<close>
    (\<open>Integration_Properties\<close>).

  No fuel is used: every loop of the code is over a finite list. The bound \<open>redis_max\<close> is the largest
  number that Redis counts to; a counter is assumed to stay below it.

  Not modelled: the texts of errors, in responses of other crates and in the log; the interior of axum,
  tonic, sqlx, redis, jsonwebtoken, argon2, sha2 and reqwest; what axum answers to a request that no
  route serves (a 405 on a limited path, too, which passes the limiter first); deserialisation of bodies (a parameter of \<open>Router\<close>); a pipeline of the cache is one call
  in \<open>Concurrent\<close>, and a request one step at one instant in \<open>System\<close>; the indexes of the tables and the
  down migrations; the module files, which only re-export; the sockets between client and server in the
  integration tests, and the time that passes in them.
\<close>

section \<open>Sessions end for good\<close>

text \<open>
  C1. Logging out everywhere is final. From any reachable state, once a request to the endpoint
  logout_all of user \<open>u\<close> has been answered with 204, no refresh token that was handed out to \<open>u\<close> before
  can be exchanged any more, whatever requests are served and however much time passes afterwards.
  The condition is that no two random UUIDs drawn in the run were equal.
\<close>

theorem logout_everywhere_is_final:
  assumes "auth_service St \<alpha> keypair drawn"
    and "reachable rs St L \<alpha> (w, H)" and "(j, u) \<in> H"
    and "dispatch rs req = Some (Ep_Logout_All, False)"
    and "auth_user St (rq_authorization req) (clock w) = Inr c" and "c_sub c = u"
    and "serve rs St L req w = Some (res, w1)" and "status res = 204"
    and "runs rs St L (w1, H) (w2, H2)" and "distinct (drawn (gen w2))"
    and "verify_refresh (st_jwt_crate St) (st_jwt St) tok (clock w2) = Inr d" and "c_jti d = j"
  shows "refresh St \<lparr>refresh_token = tok\<rparr> w2 \<noteq> (Inr res', w3)"
proof -
  have run: "logout_all St c w = (Inr res, w1)"
    using assms(4,5,7,8) by (auto simp: serve_def extractors_cases finish_iff)
  note e = auth_service.evolves_logout_all [OF assms(1), THEN stepsD, OF run]
  show ?thesis
  proof (rule auth_service.dies_for_good [OF assms(1-3) e _ assms(9-12)])
    fix t assume "svc_inv St \<alpha> drawn (fst ` H) w" "clock w \<le> t"
    with auth_service.logout_all_ok [OF assms(1) _ run, of "fst ` H" j t] assms(3,6)
    show "session_of (st_uuid St) t (\<alpha> (cache w1)) j \<noteq> Some u" by (force simp: image_iff)
  qed
qed

lemma logout_everywhere_is_final_witness:
  "\<forall>res w. refresh ref_state \<lparr>refresh_token = ref_refresh\<rparr> ref_logged_out \<noteq> (Inr res, w)"
proof -
  have auth: "auth_user ref_state (rq_authorization ref_logout_all_request) (clock ref_session) = Inr ref_access_claims"
    by (simp add: ref_logout_all_request_def ref_request_def ref_auth_user)
  have token: "verify_refresh (st_jwt_crate ref_state) (st_jwt ref_state) ref_refresh (clock ref_logged_out)
      = Inr ref_refresh_claims"
    by (simp add: ref_verify_refresh)
  show ?thesis
    using logout_everywhere_is_final [OF ref.auth_service_axioms ref_reachable _ ref_dispatch_logout_all auth _
        ref_logout_all _ rtranclp.rtrancl_refl _ token, of 3 1] by simp
qed


text \<open>
  C2. A refresh token is used once. After a handed-out refresh token has been exchanged, it is never
  exchanged again, whatever requests follow and however much time passes: a replay is refused.
\<close>

theorem refresh_token_used_once:
  assumes "auth_service St \<alpha> keypair drawn"
    and "reachable rs St L \<alpha> (w, H)" and "(j, u) \<in> H"
    and "verify_refresh (st_jwt_crate St) (st_jwt St) (refresh_token b) (clock w) = Inr c" and "c_jti c = j"
    and "refresh St b w = (Inr res, w1)"
    and "runs rs St L (w1, H) (w2, H2)" and "distinct (drawn (gen w2))"
    and "verify_refresh (st_jwt_crate St) (st_jwt St) tok (clock w2) = Inr d" and "c_jti d = j"
  shows "refresh St \<lparr>refresh_token = tok\<rparr> w2 \<noteq> (Inr res', w3)"
proof (rule auth_service.dies_for_good [OF assms(1-3)
      auth_service.evolves_refresh [OF assms(1), THEN stepsD, OF assms(6)] _ assms(7-10)])
  fix t assume svc: "svc_inv St \<alpha> drawn (fst ` H) w" and fresh: "distinct (drawn (gen w1))" and t: "clock w \<le> t"
  have "c_jti c \<in> set (drawn (gen w))" using svc assms(3,5) by (force simp: svc_inv_def)
  from auth_service.refresh_rotates [OF assms(1) svc fresh assms(6,4) this t]
  show "session_of (st_uuid St) t (\<alpha> (cache w1)) j \<noteq> Some u" using assms(5) by simp
qed

lemma refresh_token_used_once_witness:
  "\<exists>res w1. refresh ref_state \<lparr>refresh_token = ref_refresh\<rparr> ref_session = (Inr res, w1)
    \<and> (\<forall>res' w3. refresh ref_state \<lparr>refresh_token = ref_refresh\<rparr> w1 \<noteq> (Inr res', w3))"
proof -
  have token: "verify_refresh (st_jwt_crate ref_state) (st_jwt ref_state) ref_refresh 0 = Inr ref_refresh_claims"
    by (simp add: ref_verify_refresh)
  have d: "distinct (ref_drawn (gen ref_rotated))" by (simp add: ref_drawn_def ref_rotated_def)
  have "refresh ref_state \<lparr>refresh_token = ref_refresh\<rparr> ref_rotated \<noteq> (Inr res', w3)" for res' w3
    using refresh_token_used_once [OF ref.auth_service_axioms ref_reachable _ _ _ ref_refresh_result
        rtranclp.rtrancl_refl d, of 3 1 ref_refresh_claims ref_refresh ref_refresh_claims] token
    by simp
  with ref_refresh_result show ?thesis by blast
qed

text \<open>
  C9. Logging out is final: after a logout with a handed-out refresh token has succeeded, this token
  is never exchanged again.
\<close>

theorem logout_is_final:
  assumes "auth_service St \<alpha> keypair drawn"
    and "reachable rs St L \<alpha> (w, H)" and "(j, u) \<in> H"
    and "verify_refresh (st_jwt_crate St) (st_jwt St) (logout_token b) (clock w) = Inr c" and "c_jti c = j"
    and "logout St b w = (Inr res, w1)"
    and "runs rs St L (w1, H) (w2, H2)" and "distinct (drawn (gen w2))"
    and "verify_refresh (st_jwt_crate St) (st_jwt St) tok (clock w2) = Inr d" and "c_jti d = j"
  shows "refresh St \<lparr>refresh_token = tok\<rparr> w2 \<noteq> (Inr res', w3)"
proof (rule auth_service.dies_for_good [OF assms(1-3)
      auth_service.evolves_logout [OF assms(1), THEN stepsD, OF assms(6)] _ assms(7-10)])
  fix t assume svc: "svc_inv St \<alpha> drawn (fst ` H) w" and t: "clock w \<le> t"
  from auth_service.logout_ok [OF assms(1) svc assms(6)] obtain c' where
    "verify_refresh (st_jwt_crate St) (st_jwt St) (logout_token b) (clock w) = Inr c'"
    and s: "\<And>t. clock w \<le> t \<Longrightarrow> session_of (st_uuid St) t (\<alpha> (cache w1))
      = (session_of (st_uuid St) t (\<alpha> (cache w)))(c_jti c' := None)" by blast
  with assms(4,5) s [OF t] show "session_of (st_uuid St) t (\<alpha> (cache w1)) j \<noteq> Some u" by simp
qed

lemma logout_is_final_witness:
  "\<exists>res w1. logout ref_state \<lparr>logout_token = ref_refresh\<rparr> ref_session = (Inr res, w1)
    \<and> (\<forall>res' w3. refresh ref_state \<lparr>refresh_token = ref_refresh\<rparr> w1 \<noteq> (Inr res', w3))"
proof -
  have token: "verify_refresh (st_jwt_crate ref_state) (st_jwt ref_state) ref_refresh 0 = Inr ref_refresh_claims"
    by (simp add: ref_verify_refresh)
  have "refresh ref_state \<lparr>refresh_token = ref_refresh\<rparr> ref_logged_out \<noteq> (Inr res', w3)" for res' w3
    using logout_is_final [OF ref.auth_service_axioms ref_reachable _ _ _ ref_logout_result
        rtranclp.rtrancl_refl, of 3 1 ref_refresh_claims ref_refresh ref_refresh_claims] token
    by simp
  with ref_logout_result show ?thesis by blast
qed


text \<open>
  C3. A confirmed password reset takes the account over. When the confirmation answers 200 in a
  reachable state, the token stood for a user \<open>uid\<close>; that user's stored hash now verifies the new
  password, the token is void from then on, the other users are unchanged, and no refresh token that
  was handed out to \<open>uid\<close> before can be exchanged at any later point of any run.
\<close>

theorem reset_confirm_takes_over:
  assumes "auth_service St \<alpha> keypair drawn" and "password_library (st_argon2_crate St)"
    and "reachable rs St L \<alpha> (w, H)" and "distinct (drawn (gen w))"
    and "password_reset_confirm St b w = (Inr res, w1)"
  shows "\<exists>uid. reset_owner (db w) (clock w) (token_digest (st_digest St) (rc_token b)) = Some uid
    \<and> (\<exists>u. user_with_id (db w1) uid = Some u
         \<and> verify_hash (st_argon2_crate St) (st_passwords St) (rc_new_password b) (password_hash u) = Inr True)
    \<and> (\<forall>i. i \<noteq> uid \<longrightarrow> user_with_id (db w1) i = user_with_id (db w) i)
    \<and> (\<forall>t\<ge>clock w. reset_owner (db w1) t (token_digest (st_digest St) (rc_token b)) = None)
    \<and> (\<forall>w2 H2 tok d w3 res'. runs rs St L (w1, H) (w2, H2) \<longrightarrow> distinct (drawn (gen w2)) \<longrightarrow>
         verify_refresh (st_jwt_crate St) (st_jwt St) tok (clock w2) = Inr d \<longrightarrow> (c_jti d, uid) \<in> H \<longrightarrow>
         refresh St \<lparr>refresh_token = tok\<rparr> w2 \<noteq> (Inr res', w3))"
proof -
  note svc = auth_service.reachable_svc(2) [OF assms(1,3,4)]
  obtain uid u h where
    own: "reset_owner (db w) (clock w) (token_digest (st_digest St) (rc_token b)) = Some uid"
    and h: "\<exists>g g'. hash_of (st_argon2_crate St) (st_env St) (st_passwords St) (rc_new_password b) g = (Inr h, g')"
    and u: "user_with_id (db w1) = (user_with_id (db w))(uid \<mapsto> u\<lparr>password_hash := h, updated_at := clock w\<rparr>)"
    and void: "\<And>t. clock w \<le> t \<Longrightarrow> reset_owner (db w1) t
      = (reset_owner (db w) t)(token_digest (st_digest St) (rc_token b) := None)"
    and dead: "\<And>j t. distinct (drawn (gen w1)) \<Longrightarrow> j \<in> fst ` H \<Longrightarrow> clock w \<le> t \<Longrightarrow>
      session_of (st_uuid St) t (\<alpha> (cache w1)) j \<noteq> Some uid"
    by (rule auth_service.reset_confirm_ok [OF assms(1) svc assms(5)]) (rule that, assumption+)
  have "verify_hash (st_argon2_crate St) (st_passwords St) (rc_new_password b) h = Inr True"
    using h by (elim exE) (rule password_library.verify_hash_of [OF assms(2)])
  moreover have "refresh St \<lparr>refresh_token = tok\<rparr> w2 \<noteq> (Inr res', w3)"
    if "runs rs St L (w1, H) (w2, H2)" "distinct (drawn (gen w2))"
      "verify_refresh (st_jwt_crate St) (st_jwt St) tok (clock w2) = Inr d" "(c_jti d, uid) \<in> H"
    for w2 H2 tok d w3 res'
  proof (rule auth_service.dies_for_good [OF assms(1,3) that(4)
        auth_service.evolves_reset_confirm [OF assms(1), THEN stepsD, OF assms(5)] _ that(1-3) refl])
    fix t assume "distinct (drawn (gen w1))" "clock w \<le> t"
    moreover have "c_jti d \<in> fst ` H" using that(4) by (force simp: image_iff)
    ultimately show "session_of (st_uuid St) t (\<alpha> (cache w1)) (c_jti d) \<noteq> Some uid" using dead by blast
  qed
  ultimately show ?thesis
    using own u void by (intro exI [of _ uid]) (simp add: fun_upd_def)
qed

lemma reset_confirm_takes_over_witness:
  "\<exists>u. user_with_id (db ref_reset_done) 1 = Some u
    \<and> verify_hash ref_argon2 ref_passwords ''password2'' (password_hash u) = Inr True"
  using reset_confirm_takes_over [OF ref.auth_service_axioms _ ref_reset_reachable _ ref_confirm_result]
    ref_argon2.password_library_axioms ref_owner
  by (auto simp: ref_confirm_body_def ref_digest_token)

text \<open>
  C10. In every reachable state, whatever failed on the way, the constraints of the schema hold, and the
  index of sessions is complete: a refresh token that was handed out and is still alive stands for the
  user it was handed out to, and is listed in that user's index.
\<close>

theorem reachable_index_complete:
  assumes "auth_service St \<alpha> keypair drawn"
    and "reachable rs St L \<alpha> (w, H)" and "distinct (drawn (gen w))"
  shows "db_ok (db w) \<and> (\<forall>(j, u) \<in> H. \<forall>v. session_of (st_uuid St) (clock w) (\<alpha> (cache w)) j = Some v \<longrightarrow>
      v = u \<and> uuid_show (st_uuid St) j \<in> indexed (st_uuid St) (clock w) (\<alpha> (cache w)) u)"
proof -
  note inv = auth_service.reachable_svc [OF assms]
  have "db_ok (db w)" using inv(2) by (simp add: svc_inv_def)
  have index: "index_inv (st_uuid St) session_secs (set (drawn (gen w)) - fst ` H) (clock w) (\<alpha> (cache w))"
    using inv(2) by (simp add: svc_inv_def cache_inv_def)
  have "uuid_show (st_uuid St) j \<in> indexed (st_uuid St) (clock w) (\<alpha> (cache w)) v"
    if "(j, u) \<in> H" "session_of (st_uuid St) (clock w) (\<alpha> (cache w)) j = Some v" for j u v
    using session_cache.indexed_if_session [OF _ index that(2)] that(1) assms(1)
    by (force simp: auth_service_def image_iff)
  moreover have "v = u"
    if "(j, u) \<in> H" "session_of (st_uuid St) (clock w) (\<alpha> (cache w)) j = Some v" for j u v
    using inv(1) that by (fastforce simp: sys_inv_def)
  ultimately show ?thesis using \<open>db_ok (db w)\<close> by blast
qed

lemma reachable_index_complete_witness:
  "db_ok (db ref_session) \<and> uuid_show bits_uuid 3 \<in> indexed bits_uuid 0 (fst (cache ref_session)) 1"
  using reachable_index_complete [OF ref.auth_service_axioms ref_reachable] ref_session_alive by simp


section \<open>Login and refresh decide by the abstract state\<close>

text \<open>
  C11. The outcome of login. While cache and database answer and signing works, login returns an error
  exactly as \<open>login_spec\<close> says: the message of the validation; 401 for an address with ten recorded
  failures, for an unknown address and for a wrong password; and otherwise it answers 200 with an
  access and a refresh token.
\<close>

theorem login_outcome:
  assumes "available_service St \<alpha> keypair drawn up calm"
    and "reachable rs St L \<alpha> (w, H)" and "distinct (drawn (gen w))" and "up (cache w)" and "calm (gen w)"
  shows "case login_spec St \<alpha> b w of
      Inl e \<Rightarrow> \<exists>w'. login St b w = (Inl e, w')
    | Inr user \<Rightarrow> \<exists>a r w'. login St b w = (Inr (respond 200 (Login_Response a r)), w')"
proof -
  have "auth_service St \<alpha> keypair drawn" using assms(1) by (simp add: available_service_def)
  from available_service.login_outcome_up [OF assms(1) auth_service.reachable_svc(2) [OF this assms(2,3)] assms(4,5)]
  show ?thesis .
qed

lemma login_outcome_witness:
  "\<exists>w'. login ref_state \<lparr>login_email = ''a@b.c'', login_password = ''wrong''\<rparr> ref_session = (Inl Unauthorized, w')"
proof -
  have "login_spec ref_state fst \<lparr>login_email = ''a@b.c'', login_password = ''wrong''\<rparr> ref_session
      = Inl Unauthorized"
    by (simp add: login_spec_def eval_requests verify_hash_def ref_worlds ref_argon2_def user_with_email_def
        lockout_failures_def lookup_def Let_def)
  with login_outcome [OF ref_up.available_service_axioms ref_reachable,
      of "\<lparr>login_email = ''a@b.c'', login_password = ''wrong''\<rparr>"]
  show ?thesis by (simp add: ref_worlds ref_drawn_def)
qed

text \<open>
  C12. The outcome of refresh. Under the same conditions refresh answers 401 for a token that does not
  verify as a refresh token or whose session is not in the cache, and otherwise 200 with new tokens.
\<close>

theorem refresh_outcome:
  assumes "available_service St \<alpha> keypair drawn up calm"
    and "reachable rs St L \<alpha> (w, H)" and "distinct (drawn (gen w))" and "up (cache w)" and "calm (gen w)"
  shows "case refresh_spec St \<alpha> b w of
      Inl e \<Rightarrow> \<exists>w'. refresh St b w = (Inl e, w')
    | Inr c \<Rightarrow> \<exists>a r w'. refresh St b w = (Inr (respond 200 (Login_Response a r)), w')"
proof -
  have "auth_service St \<alpha> keypair drawn" using assms(1) by (simp add: available_service_def)
  from available_service.refresh_outcome_up [OF assms(1) auth_service.reachable_svc(2) [OF this assms(2,3)] assms(4,5)]
  show ?thesis .
qed

lemma refresh_outcome_witness:
  "\<exists>a r w'. refresh ref_state \<lparr>refresh_token = ref_refresh\<rparr> ref_session
    = (Inr (respond 200 (Login_Response a r)), w')"
proof -
  have "refresh_spec ref_state fst \<lparr>refresh_token = ref_refresh\<rparr> ref_session = Inr ref_refresh_claims"
    by (simp add: refresh_spec_def refresh_validate_def ref_verify_refresh ref_session_alive)
      (simp add: ref_refresh_def)
  with refresh_outcome [OF ref_up.available_service_axioms ref_reachable, of "\<lparr>refresh_token = ref_refresh\<rparr>"]
  show ?thesis by (simp add: ref_worlds ref_drawn_def)
qed

text \<open>
  C4. Ten wrong passwords lock an address for 15 minutes. From an address without recorded failures,
  ten well-formed logins with wrong passwords are answered 401 each; from then on and for less than
  900 seconds every well-formed login for the address is answered 401, the right password included;
  after 900 seconds the failures are forgotten.
\<close>

theorem lockout_after_ten_failures:
  assumes "available_service St \<alpha> keypair drawn up calm"
    and "reachable rs St L \<alpha> (w, H)" and "distinct (drawn (gen w))" and "up (cache w)" and "calm (gen w)"
    and "lockout_failures (clock w) (\<alpha> (cache w)) e = 0"
    and "length bs = 10" and "\<forall>b \<in> set bs. wrong_password St (db w) e b"
  shows "\<exists>w'. attempts St bs w = (replicate 10 (Inl Unauthorized), w')
    \<and> (\<forall>d b. 0 \<le> d \<longrightarrow> d < secs 900 \<longrightarrow> login_validate b = Inr () \<longrightarrow> login_email b = e \<longrightarrow>
         fst (login St b (w'\<lparr>clock := clock w' + d\<rparr>)) = Inl Unauthorized)
    \<and> (\<forall>d\<ge>secs 900. lockout_failures (clock w' + d) (\<alpha> (cache w')) e = 0)"
proof -
  have svc: "auth_service St \<alpha> keypair drawn" using assms(1) by (simp add: available_service_def)
  have "counters_ok (\<alpha> (cache w))"
    by (rule auth_service.svc_counters [OF svc auth_service.reachable_svc(2) [OF svc assms(2,3)]])
  from available_service.attempts_count [OF assms(1) this assms(4,5,8), unfolded assms(6,7)]
  obtain w' where w': "attempts St bs w = (replicate 10 (Inl Unauthorized), w')" "counters_ok (\<alpha> (cache w'))"
    "up (cache w')" "clock w' = clock w"
    and f: "\<And>t. lockout_failures t (\<alpha> (cache w')) e = (if t < clock w + secs 900 then 10 else 0)"
    using assms(7) by auto
  have "fst (login St b (w'\<lparr>clock := clock w' + d\<rparr>)) = Inl Unauthorized"
    if "0 \<le> d" "d < secs 900" "login_validate b = Inr ()" "login_email b = e" for d b
  proof -
    let ?v = "w'\<lparr>clock := clock w' + d\<rparr>"
    obtain c where "cache_op (is_locked (st_redis St) e) ?v
        = (Inr (10 \<le> lockout_failures (clock ?v) (\<alpha> (cache ?v)) e), ?v\<lparr>cache := c\<rparr>)"
      using available_service.is_locked_step [OF assms(1), of ?v e] w'(2,3) by auto
    then have "cache_op (is_locked (st_redis St) e) ?v = (Inr True, ?v\<lparr>cache := c\<rparr>)"
      using f [of "clock w' + d"] that(2) w'(4) by simp
    with that(3,4) show ?thesis by (simp add: login_def bindE_def)
  qed
  with w' f show ?thesis by auto
qed

lemma lockout_after_ten_failures_witness:
  "\<exists>w'. attempts ref_state (replicate 10 \<lparr>login_email = ''a@b.c'', login_password = ''wrong''\<rparr>) ref_session
      = (replicate 10 (Inl Unauthorized), w')
    \<and> fst (login ref_state \<lparr>login_email = ''a@b.c'', login_password = ''password1''\<rparr> (w'\<lparr>clock := clock w' + 0\<rparr>))
      = Inl Unauthorized"
proof -
  have wrong: "wrong_password ref_state (db ref_session) ''a@b.c''
      \<lparr>login_email = ''a@b.c'', login_password = ''wrong''\<rparr>"
    by (simp add: wrong_password_def eval_requests verify_hash_def ref_worlds ref_argon2_def
        user_with_email_def Let_def)
  have right: "login_validate \<lparr>login_email = ''a@b.c'', login_password = ''password1''\<rparr> = Inr ()"
    by (simp add: eval_requests Let_def)
  have "lockout_failures (clock ref_session) (fst (cache ref_session)) ''a@b.c'' = 0"
    by (simp add: lockout_failures_def lookup_def ref_session_def)
  from lockout_after_ten_failures [OF ref_up.available_service_axioms ref_reachable _ _ _ this,
      of "replicate 10 \<lparr>login_email = ''a@b.c'', login_password = ''wrong''\<rparr>"] wrong right
  show ?thesis by (force simp: ref_worlds ref_drawn_def secs_def)
qed

end
